(* ===== verification/Prelude.thy ===== *)
theory Prelude
  imports Main "HOL-Library.Word"
begin

text \<open>
  Shared vocabulary of the development: the C integer types of \<open>stdint.h\<close> as words,
  the result type of code that may never hand control back, the collections of rewrite
  rules the component theories extend, and the generic facts about words and address
  ranges that the components share.
\<close>

unbundle bit_operations_syntax

section \<open>Machine integers\<close>

type_synonym u8 = "8 word"
type_synonym u16 = "16 word"
type_synonym u32 = "32 word"

section \<open>Code that may not return\<close>

text \<open>
  The kernel stops itself with \<open>for(;;);\<close> in several places, and some loops poll a
  device or walk a list that may be cyclic. A computation that can do so has the type
  \<open>('a, 's) outcome option\<close>: \<open>Some (Ret v s)\<close> is a return with value \<open>v\<close> in
  state \<open>s\<close>, \<open>Some (Halt s)\<close> is a deliberate \<open>for(;;);\<close> entered in state \<open>s\<close>,
  and \<open>None\<close> is a loop that runs for ever (or a behaviour that C leaves undefined,
  where the definition says so).
\<close>

datatype ('a, 's) outcome = Ret 'a 's | Halt 's

type_synonym ('a, 's) result = "('a, 's) outcome option"

fun and_then :: "('a, 's) result \<Rightarrow> ('a \<Rightarrow> 's \<Rightarrow> ('b, 's) result) \<Rightarrow> ('b, 's) result" where
  "and_then None f = None"
| "and_then (Some (Halt s)) f = Some (Halt s)"
| "and_then (Some (Ret v s)) f = f v s"

lemma and_then_Ret_iff:
  "and_then r f = Some (Ret v t) \<longleftrightarrow>
     (\<exists>u s. r = Some (Ret u s) \<and> f u s = Some (Ret v t))"
  by (cases "(r, f)" rule: and_then.cases) auto

text \<open>An element of an array. C does not check the index; outside the array its access has no meaning, and
  here it has no result.\<close>

definition item :: "'a list \<Rightarrow> int \<Rightarrow> 'a option" where
  "item xs i = (if 0 \<le> i \<and> nat i < length xs then Some (xs ! nat i) else None)"

lemma item_Some [simp]: "0 \<le> i \<Longrightarrow> nat i < length xs \<Longrightarrow> item xs i = Some (xs ! nat i)"
  by (simp add: item_def)

lemma item_int [simp]: "item xs (int i) = (if i < length xs then Some (xs ! i) else None)"
  by (simp add: item_def)

lemma item_uint [simp]: "item xs (uint w) = (if unat w < length xs then Some (xs ! unat w) else None)"
  using item_int [of xs "unat w"] by simp

section \<open>Rewrite collections\<close>

named_theorems mem_simps \<open>reads and writes of memory\<close>
named_theorems frame_simps \<open>state fields an operation leaves alone\<close>

section \<open>Words and numbers\<close>

lemma unat_less_2p32 [simp]: "unat (x :: u32) < 4294967296"
  using unsigned_less [of x] by simp

lemma unat_add_no_wrap:
  "unat (a :: u32) + unat b < 4294967296 \<Longrightarrow> unat (a + b) = unat a + unat b"
  by (simp add: unat_plus_if_size word_size)

lemma unat_of_nat_32: "n < 4294967296 \<Longrightarrow> unat (of_nat n :: u32) = n"
  by (simp add: unat_of_nat)

lemma unat_add_of_nat:
  "unat (a :: u32) + n < 4294967296 \<Longrightarrow> unat (a + of_nat n) = unat a + n"
  by (subst unat_add_no_wrap) (simp_all add: unat_of_nat_32)

lemma unat_diff_ge:
  "unat (b :: u32) \<le> unat a \<Longrightarrow> unat (a - b) = unat a - unat b"
  by (simp add: unat_sub_if_size)

lemma unat_diff_lt:
  "unat (a :: u32) < unat b \<Longrightarrow> unat (a - b) = unat a + 4294967296 - unat b"
  by (simp add: unat_sub_if_size word_size)

lemma page_room:
  assumes "unat (t :: u32) mod 4096 = 0"
  shows "unat t + 4096 \<le> 4294967296"
proof -
  obtain q where q: "unat t = 4096 * q" using assms by (auto elim: dvdE simp: mod_eq_0_iff_dvd)
  then have "q < 1048576" using unat_less_2p32 [of t] by simp
  then show ?thesis using q by simp
qed

section \<open>Address ranges\<close>

text \<open>\<open>region a n\<close> is the set of the \<open>n\<close> addresses from \<open>a\<close> on (modulo the 32-bit
  address space).\<close>

definition region :: "u32 \<Rightarrow> nat \<Rightarrow> u32 set" where
  "region a n = {x. unat (x - a) < n}"

lemma region_iff:
  assumes "unat a + n \<le> 4294967296"
  shows "x \<in> region a n \<longleftrightarrow> unat a \<le> unat x \<and> unat x < unat a + n"
proof (cases "unat a \<le> unat x")
  case True
  then show ?thesis by (auto simp: region_def unat_diff_ge)
next
  case False
  then have "unat (x - a) = unat x + 4294967296 - unat a" by (simp add: unat_diff_lt)
  with False assms show ?thesis by (auto simp: region_def)
qed

lemma region_self: "0 < n \<Longrightarrow> a \<in> region a n"
  by (simp add: region_def)

lemma region_0 [simp]: "region a 0 = {}"
  by (simp add: region_def)

lemma region_offset: "k < n \<Longrightarrow> n \<le> 4294967296 \<Longrightarrow> a + of_nat k \<in> region a n"
  by (simp add: region_def unat_of_nat_32)

lemma region_mono: "m \<le> n \<Longrightarrow> region a m \<subseteq> region a n"
  by (auto simp: region_def)

lemma region_sub:
  assumes "unat a + n \<le> 4294967296" and "k + m \<le> n" and "0 < m"
  shows "region (a + of_nat k) m \<subseteq> region a n"
proof -
  have u: "unat (a + of_nat k) = unat a + k"
    using assms by (intro unat_add_of_nat) simp
  show ?thesis
    using assms by (auto simp: region_iff u)
qed

lemma region_disjoint:
  assumes "unat a + m \<le> unat b" and "unat b + n \<le> 4294967296"
  shows "region a m \<inter> region b n = {}" and "region b n \<inter> region a m = {}"
  using assms by (auto simp: region_iff)

lemma region_split:
  "region a (m + n) \<subseteq> region a m \<union> region (a + of_nat m) n"
proof
  fix x assume "x \<in> region a (m + n)"
  then have x: "unat (x - a) < m + n" by (simp add: region_def)
  show "x \<in> region a m \<union> region (a + of_nat m) n"
  proof (cases "unat (x - a) < m")
    case True
    then show ?thesis by (simp add: region_def)
  next
    case False
    have m: "m < 4294967296" using False unat_less_2p32 [of "x - a"] by linarith
    then have um: "unat (of_nat m :: u32) = m" by (rule unat_of_nat_32)
    have "unat (x - a - of_nat m) = unat (x - a) - m"
      using False um by (subst unat_diff_ge) simp_all
    then have "unat (x - (a + of_nat m)) < n"
      using x False by (simp add: algebra_simps)
    then show ?thesis by (simp add: region_def)
  qed
qed

end
