(* ===== verification/Memory.thy ===== *)
theory Memory
  imports Prelude
begin

text \<open>
  Byte-addressed memory, as the compiled C code loads and stores it on i386: little-endian
  16- and 32-bit accesses at any address, and the byte loops \<open>memcpy\<close> and \<open>memset\<close> of
  \<open>p_mode/system.c\<close>. The laws a client needs of a store (it reads back, it leaves every other
  address alone) are the locale \<open>store\<close>, interpreted for each access width.
\<close>

type_synonym mem = "u32 \<Rightarrow> u8"

definition ld16 :: "mem \<Rightarrow> u32 \<Rightarrow> u16" where
  "ld16 m a = ucast (m a) OR push_bit 8 (ucast (m (a + 1)))"

definition ld32 :: "mem \<Rightarrow> u32 \<Rightarrow> u32" where
  "ld32 m a = ucast (m a) OR push_bit 8 (ucast (m (a + 1)))
     OR push_bit 16 (ucast (m (a + 2))) OR push_bit 24 (ucast (m (a + 3)))"

definition st8 :: "mem \<Rightarrow> u32 \<Rightarrow> u8 \<Rightarrow> mem" where
  "st8 m a v = m(a := v)"

definition st16 :: "mem \<Rightarrow> u32 \<Rightarrow> u16 \<Rightarrow> mem" where
  "st16 m a v = m(a := ucast v, a + 1 := ucast (drop_bit 8 v))"

definition st32 :: "mem \<Rightarrow> u32 \<Rightarrow> u32 \<Rightarrow> mem" where
  "st32 m a v = m(a := ucast v, a + 1 := ucast (drop_bit 8 v),
     a + 2 := ucast (drop_bit 16 v), a + 3 := ucast (drop_bit 24 v))"

section \<open>The interface of a store\<close>

text \<open>
  \<open>ld\<close> reads \<open>w\<close> bytes and depends on nothing else; \<open>st\<close> writes them and nothing
  else; what was written is read back.
\<close>

locale store =
  fixes ld :: "mem \<Rightarrow> u32 \<Rightarrow> 'v"
    and st :: "mem \<Rightarrow> u32 \<Rightarrow> 'v \<Rightarrow> mem"
    and w :: nat
  assumes ld_st: "ld (st m a v) a = v"
    and ld_cong: "(\<And>x. x \<in> region a w \<Longrightarrow> m x = m' x) \<Longrightarrow> ld m a = ld m' a"
    and st_frame: "x \<notin> region a w \<Longrightarrow> st m a v x = m x"
begin

lemma ld_st_disjoint:
  assumes "region a w \<inter> region b w = {}"
  shows "ld (st m a v) b = ld m b"
  by (rule ld_cong) (use assms st_frame in blast)

lemma ld_outside:
  assumes "region a w \<inter> R = {}" and "\<And>x. x \<notin> R \<Longrightarrow> m' x = m x"
  shows "ld m' a = ld m a"
  by (rule ld_cong) (use assms in blast)

lemma st_outside:
  assumes "region a w \<subseteq> R" and "x \<notin> R"
  shows "st m a v x = m x"
  by (rule st_frame) (use assms in blast)

end

lemma region_1: "region a 1 = {a}"
  by (auto simp: region_def unat_eq_0)

lemma region_Suc: "region a (Suc n) = region a n \<union> (if n < 4294967296 then {a + of_nat n} else {})"
proof -
  have "x \<in> region a (Suc n) \<longleftrightarrow>
      x \<in> region a n \<union> (if n < 4294967296 then {a + of_nat n} else {})" for x
  proof (cases "n < 4294967296")
    case True
    have "unat (x - a) = n \<longleftrightarrow> x = a + of_nat n"
    proof
      assume "unat (x - a) = n"
      then have "of_nat (unat (x - a)) = (of_nat n :: u32)" by simp
      then show "x = a + of_nat n" by (simp add: algebra_simps)
    next
      assume "x = a + of_nat n"
      then show "unat (x - a) = n" using True by (simp add: unat_of_nat_32)
    qed
    with True show ?thesis by (auto simp: region_def less_Suc_eq)
  next
    case False
    then show ?thesis
      using unat_less_2p32 [of "x - a"] by (auto simp: region_def less_Suc_eq)
  qed
  then show ?thesis by blast
qed

lemma region_2: "region a 2 = {a, a + 1}"
  by (simp add: numeral_2_eq_2 region_Suc) auto

lemma region_4: "region a 4 = {a, a + 1, a + 2, a + 3}"
proof -
  have "(4::nat) = Suc (Suc (Suc (Suc 0)))" by simp
  then have "region a 4 = region a (Suc (Suc (Suc (Suc 0))))" by (rule arg_cong)
  then show ?thesis by (auto simp: region_Suc numeral_2_eq_2)
qed

lemma word16_bytes:
  "ucast (ucast v :: u8) OR push_bit 8 (ucast (ucast (drop_bit 8 v) :: u8)) = (v :: u16)"
  by (rule bit_word_eqI) (auto simp: bit_simps)

lemma word32_bytes:
  "ucast (ucast v :: u8) OR push_bit 8 (ucast (ucast (drop_bit 8 v) :: u8))
     OR push_bit 16 (ucast (ucast (drop_bit 16 v) :: u8))
     OR push_bit 24 (ucast (ucast (drop_bit 24 v) :: u8)) = (v :: u32)"
  (is "?l = v")
proof (rule bit_word_eqI)
  fix n assume "n < LENGTH(32)"
  then consider "n < 8" | "8 \<le> n" "n < 16" | "16 \<le> n" "n < 24" | "24 \<le> n" "n < 32"
    by fastforce
  then show "bit ?l n = bit v n"
    by cases (auto simp: bit_simps)
qed

interpretation s8: store "\<lambda>m a. m a" st8 1
  by unfold_locales (auto simp: st8_def region_1 [unfolded One_nat_def])

interpretation s16: store ld16 st16 2
  by unfold_locales (auto simp: ld16_def st16_def region_2 word16_bytes)

interpretation s32: store ld32 st32 4
  by unfold_locales (auto simp: ld32_def st32_def region_4 word32_bytes)

lemmas ld_st_same [mem_simps] = s16.ld_st s32.ld_st

lemmas st_frames = s8.st_frame s16.st_frame s32.st_frame

text \<open>A read is unaffected by a write of another width elsewhere.\<close>

lemma ld32_st16: "region a 2 \<inter> region b 4 = {} \<Longrightarrow> ld32 (st16 m a v) b = ld32 m b"
  by (rule s32.ld_cong) (use s16.st_frame in blast)

lemma ld16_st32: "region a 4 \<inter> region b 2 = {} \<Longrightarrow> ld16 (st32 m a v) b = ld16 m b"
  by (rule s16.ld_cong) (use s32.st_frame in blast)

lemma ld16_st8: "a \<notin> region b 2 \<Longrightarrow> ld16 (st8 m a v) b = ld16 m b"
  by (rule s16.ld_cong) (auto simp: st8_def)

lemma ld32_st8: "a \<notin> region b 4 \<Longrightarrow> ld32 (st8 m a v) b = ld32 m b"
  by (rule s32.ld_cong) (auto simp: st8_def)

lemma st8_st16: "a \<notin> region b 2 \<Longrightarrow> st16 m b v a = m a"
  by (rule s16.st_frame)

section \<open>The byte loops\<close>

text \<open>
  \<open>memcpy\<close> and \<open>memset\<close> run \<open>for(i = 0; i < n; i++)\<close>; the number of rounds is the
  structural argument, round \<open>k\<close> acting on the memory the rounds before it left.
\<close>

fun copy_loop :: "u32 \<Rightarrow> u32 \<Rightarrow> nat \<Rightarrow> mem \<Rightarrow> mem" where
  "copy_loop dest src 0 m = m"
| "copy_loop dest src (Suc k) m =
     (let m' = copy_loop dest src k m in st8 m' (dest + of_nat k) (m' (src + of_nat k)))"

definition mem_copy :: "u32 \<Rightarrow> u32 \<Rightarrow> u32 \<Rightarrow> mem \<Rightarrow> mem" where
  "mem_copy dest src n m = copy_loop dest src (unat n) m"

fun set_loop :: "u32 \<Rightarrow> u8 \<Rightarrow> nat \<Rightarrow> mem \<Rightarrow> mem" where
  "set_loop dest c 0 m = m"
| "set_loop dest c (Suc k) m = st8 (set_loop dest c k m) (dest + of_nat k) c"

definition mem_set :: "u32 \<Rightarrow> u8 \<Rightarrow> u32 \<Rightarrow> mem \<Rightarrow> mem" where
  "mem_set dest c n m = set_loop dest c (unat n) m"

lemma set_loop_eq:
  "n \<le> 4294967296 \<Longrightarrow> set_loop dest c n m x = (if x \<in> region dest n then c else m x)"
  by (induction n) (auto simp: st8_def region_Suc)

lemma mem_set_eq: "mem_set dest c n m x = (if x \<in> region dest (unat n) then c else m x)"
  by (simp add: mem_set_def set_loop_eq less_imp_le)

lemma copy_loop_frame: "n \<le> 4294967296 \<Longrightarrow> x \<notin> region dest n \<Longrightarrow> copy_loop dest src n m x = m x"
  by (induction n) (auto simp: st8_def region_Suc Let_def)

lemma copy_loop_eq:
  assumes "n \<le> 4294967296" and "region dest n \<inter> region src n = {}" and "k < n"
  shows "copy_loop dest src n m (dest + of_nat k) = m (src + of_nat k)"
  using assms
proof (induction n)
  case 0
  then show ?case by simp
next
  case (Suc n)
  have sub: "region dest n \<subseteq> region dest (Suc n)" "region src n \<subseteq> region src (Suc n)"
    by (simp_all add: region_mono)
  show ?case
  proof (cases "k = n")
    case True
    have "src + of_nat n \<in> region src (Suc n)"
      using Suc.prems by (intro region_offset) simp_all
    then have "src + of_nat n \<notin> region dest n"
      using Suc.prems sub by blast
    then have "copy_loop dest src n m (src + of_nat n) = m (src + of_nat n)"
      using Suc.prems by (intro copy_loop_frame) simp_all
    with True show ?thesis by (simp add: st8_def Let_def)
  next
    case False
    then have k: "k < n" using Suc.prems by simp
    have ne: "(of_nat k :: u32) \<noteq> of_nat n"
    proof
      assume "(of_nat k :: u32) = of_nat n"
      then have "unat (of_nat k :: u32) = unat (of_nat n :: u32)" by simp
      with k Suc.prems show False by (simp add: unat_of_nat_32)
    qed
    have "copy_loop dest src n m (dest + of_nat k) = m (src + of_nat k)"
      by (rule Suc.IH) (use Suc.prems sub k in \<open>auto\<close>)
    with ne show ?thesis by (simp add: st8_def Let_def)
  qed
qed

lemma mem_copy_frame: "x \<notin> region dest (unat n) \<Longrightarrow> mem_copy dest src n m x = m x"
  by (simp add: mem_copy_def copy_loop_frame less_imp_le)

lemma mem_copy_eq:
  assumes "region dest (unat n) \<inter> region src (unat n) = {}" and "x \<in> region dest (unat n)"
  shows "mem_copy dest src n m x = m (src + (x - dest))"
proof -
  have "unat (x - dest) < unat n" using assms by (simp add: region_def)
  then have "copy_loop dest src (unat n) m (dest + of_nat (unat (x - dest)))
      = m (src + of_nat (unat (x - dest)))"
    using assms by (intro copy_loop_eq) (simp_all add: less_imp_le)
  then show ?thesis by (simp add: mem_copy_def)
qed

lemma ld32_mem_set_zero:
  "region a 4 \<subseteq> region dest (unat n) \<Longrightarrow> ld32 (mem_set dest 0 n m) a = 0"
  by (simp add: ld32_def mem_set_eq region_4)

lemma ld32_mem_set_outside:
  "region a 4 \<inter> region dest (unat n) = {} \<Longrightarrow> ld32 (mem_set dest c n m) a = ld32 m a"
  by (rule s32.ld_cong) (auto simp: mem_set_eq)

end
