(* ===== verification/System.thy ===== *)
theory System
  imports Memory
begin

text \<open>
  \<open>p_mode/system.c\<close> and \<open>include/system.h\<close>, without the task state segment (theory
  \<open>Tss\<close>): the machine the kernel runs on, port input and output, the byte loops on that
  machine's memory, and the saved register frame \<open>regs_t\<close>.

  \<^item> \<open>mem\<close> is the memory at the addresses the code uses. Every kernel structure lives in
    identity-mapped pages (theory \<open>Paging\<close> proves that of \<open>init_paging\<close>), so for them the
    address is also the physical one.
  \<^item> \<open>trace\<close> lists the port accesses made so far, newest first, and \<open>dev\<close> is the hardware on
    the other side: what a read returns is a function of the accesses before it and of the port.
    Nothing is assumed of \<open>dev\<close> here.
\<close>

datatype port_op =
    In8 u16 | In16 u16 | In32 u16
  | Out8 u16 u8 | Out16 u16 u16 | Out32 u16 u32

record machine =
  mem :: mem
  dev :: "port_op list \<Rightarrow> port_op \<Rightarrow> u32"
  trace :: "port_op list"

section \<open>Ports\<close>

definition inb :: "u16 \<Rightarrow> 'a machine_scheme \<Rightarrow> u8 \<times> 'a machine_scheme" where
  "inb port s = (ucast (dev s (trace s) (In8 port)), s\<lparr>trace := In8 port # trace s\<rparr>)"

text \<open>The C function \<open>inw\<close> reads 16 bits and is declared to return \<open>uint8_t\<close>.\<close>

definition inw :: "u16 \<Rightarrow> 'a machine_scheme \<Rightarrow> u8 \<times> 'a machine_scheme" where
  "inw port s =
     (let result = (ucast (dev s (trace s) (In16 port)) :: u16)
      in (ucast result, s\<lparr>trace := In16 port # trace s\<rparr>))"

definition indw :: "u16 \<Rightarrow> 'a machine_scheme \<Rightarrow> u32 \<times> 'a machine_scheme" where
  "indw port s = (dev s (trace s) (In32 port), s\<lparr>trace := In32 port # trace s\<rparr>)"

definition outb :: "u16 \<Rightarrow> u8 \<Rightarrow> 'a machine_scheme \<Rightarrow> 'a machine_scheme" where
  "outb port b s = s\<lparr>trace := Out8 port b # trace s\<rparr>"

definition outw :: "u16 \<Rightarrow> u16 \<Rightarrow> 'a machine_scheme \<Rightarrow> 'a machine_scheme" where
  "outw port w s = s\<lparr>trace := Out16 port w # trace s\<rparr>"

definition outdw :: "u16 \<Rightarrow> u32 \<Rightarrow> 'a machine_scheme \<Rightarrow> 'a machine_scheme" where
  "outdw port d s = s\<lparr>trace := Out32 port d # trace s\<rparr>"

lemma out_frame [frame_simps]:
  "mem (outb p b s) = mem s" "dev (outb p b s) = dev s"
  "mem (outw p w s) = mem s" "dev (outw p w s) = dev s"
  "mem (outdw p d s) = mem s" "dev (outdw p d s) = dev s"
  "machine.more (outb p b s) = machine.more s"
  "machine.more (outw p w s) = machine.more s"
  "machine.more (outdw p d s) = machine.more s"
  by (simp_all add: outb_def outw_def outdw_def)

section \<open>Memory accesses and the byte loops on the machine\<close>

definition store8 :: "u32 \<Rightarrow> u8 \<Rightarrow> 'a machine_scheme \<Rightarrow> 'a machine_scheme" where
  "store8 a v s = s\<lparr>mem := st8 (mem s) a v\<rparr>"

definition store16 :: "u32 \<Rightarrow> u16 \<Rightarrow> 'a machine_scheme \<Rightarrow> 'a machine_scheme" where
  "store16 a v s = s\<lparr>mem := st16 (mem s) a v\<rparr>"

definition store32 :: "u32 \<Rightarrow> u32 \<Rightarrow> 'a machine_scheme \<Rightarrow> 'a machine_scheme" where
  "store32 a v s = s\<lparr>mem := st32 (mem s) a v\<rparr>"

definition memcpy :: "u32 \<Rightarrow> u32 \<Rightarrow> u32 \<Rightarrow> 'a machine_scheme \<Rightarrow> 'a machine_scheme" where
  "memcpy dest src n s = s\<lparr>mem := mem_copy dest src n (mem s)\<rparr>"

definition memset :: "u32 \<Rightarrow> u8 \<Rightarrow> u32 \<Rightarrow> 'a machine_scheme \<Rightarrow> 'a machine_scheme" where
  "memset dest c n s = s\<lparr>mem := mem_set dest c n (mem s)\<rparr>"

section \<open>The register frame\<close>

record regs =
  r_gs :: u32
  r_fs :: u32
  r_es :: u32
  r_ds :: u32
  r_edi :: u32
  r_esi :: u32
  r_ebp :: u32
  r_esp :: u32
  r_ebx :: u32
  r_edx :: u32
  r_ecx :: u32
  r_eax :: u32
  r_int_no :: u32
  r_err_code :: u32
  r_eip :: u32
  r_cs :: u32
  r_eflags :: u32
  r_useresp :: u32
  r_ss :: u32

definition copy_regs :: "regs \<Rightarrow> regs \<Rightarrow> regs" where
  "copy_regs new_regs r = r\<lparr>
     r_gs := r_gs new_regs, r_fs := r_fs new_regs, r_ds := r_ds new_regs, r_es := r_es new_regs,
     r_eip := r_eip new_regs, r_cs := r_cs new_regs, r_eflags := r_eflags new_regs,
     r_useresp := r_useresp new_regs, r_ss := r_ss new_regs, r_edi := r_edi new_regs,
     r_esi := r_esi new_regs, r_ebp := r_ebp new_regs, r_esp := r_esp new_regs,
     r_ebx := r_ebx new_regs, r_edx := r_edx new_regs, r_ecx := r_ecx new_regs,
     r_eax := r_eax new_regs, r_int_no := r_int_no new_regs, r_err_code := r_err_code new_regs\<rparr>"

text \<open>\<open>get_current_regs\<close> returns a local structure that \<open>load_regs\<close> is to fill; \<open>load_regs\<close> of \<open>registers.asm\<close>
  has no instructions of its own and runs into \<open>get_eflags\<close>, which writes no memory but the stack, so the
  result is what the stack held.\<close>

definition get_current_regs :: "regs \<Rightarrow> regs" where
  "get_current_regs current_regs = current_regs"

end
