(* ===== verification/Screen.thy ===== *)
theory Screen
  imports System
begin

text \<open>
  \<open>p_mode/drivers/screen/screen.c\<close>: the text console. The state is the cursor \<open>(cx, cy)\<close>;
  the characters are 16-bit cells of video memory at \<open>0xB8000\<close>, and every change of the cursor
  is sent to the CRT controller ports.

  A C string argument is the list of its bytes; reading stops at a zero byte or at the end of
  the list, where C has the terminating zero.
\<close>

record screen = machine +
  cx :: int
  cy :: int

definition VIDEO_MEMORY :: u32 where "VIDEO_MEMORY = 0xB8000"
definition GRAY_ON_CYAN :: u16 where "GRAY_ON_CYAN = 0x9000"
definition ROWS :: nat where "ROWS = 25"
definition COLUMNS :: nat where "COLUMNS = 80"

text \<open>A string literal of the source.\<close>

definition str :: "string \<Rightarrow> u8 list" where
  "str cs = map of_char cs"

section \<open>The cursor and scrolling\<close>

definition move_cursor :: "u8 \<Rightarrow> u8 \<Rightarrow> 'a machine_scheme \<Rightarrow> 'a machine_scheme" where
  "move_cursor x y s =
     (let pos = (ucast y * of_nat COLUMNS + ucast x :: u16)
      in outb 0x3D5 (ucast (drop_bit 8 pos AND 0xFF))
          (outb 0x3D4 0x0E
            (outb 0x3D5 (ucast (pos AND 0xFF))
              (outb 0x3D4 0x0F s))))"

definition update_cursor :: "'a screen_scheme \<Rightarrow> 'a screen_scheme" where
  "update_cursor s = move_cursor (word_of_int (cx s)) (word_of_int (cy s)) s"

text \<open>One round of the \<open>while\<close> of \<open>scroll_if_needed\<close>: rows 1 to 24 move up, row 24 is
  blanked.\<close>

definition scroll_row :: "nat \<Rightarrow> 'a machine_scheme \<Rightarrow> 'a machine_scheme" where
  "scroll_row i = memcpy (VIDEO_MEMORY + of_nat ((i - 1) * COLUMNS * 2))
     (VIDEO_MEMORY + of_nat (i * COLUMNS * 2)) (of_nat (COLUMNS * 2))"

definition blank_cell :: "nat \<Rightarrow> 'a machine_scheme \<Rightarrow> 'a machine_scheme" where
  "blank_cell i = store16 (VIDEO_MEMORY + of_nat ((ROWS - 1) * COLUMNS * 2) + of_nat (2 * i))
     (GRAY_ON_CYAN OR 0x20)"

definition scroll_once :: "'a screen_scheme \<Rightarrow> 'a screen_scheme" where
  "scroll_once s =
     (let s = fold scroll_row [1..<ROWS] s;
          s = fold blank_cell [0..<COLUMNS] s
      in s\<lparr>cy := cy s - 1\<rparr>)"

lemma cy_fold_scroll_row [simp]: "cy (fold scroll_row is s) = cy s"
  by (induction "is" arbitrary: s) (simp_all add: scroll_row_def memcpy_def)

lemma cy_fold_blank_cell [simp]: "cy (fold blank_cell is s) = cy s"
  by (induction "is" arbitrary: s) (simp_all add: blank_cell_def store16_def)

function scroll_if_needed :: "'a screen_scheme \<Rightarrow> 'a screen_scheme" where
  "scroll_if_needed s = (if int ROWS \<le> cy s then scroll_if_needed (scroll_once s) else s)"
  by pat_completeness auto
termination
  by (relation "measure (\<lambda>s. nat (cy s))") (auto simp: scroll_once_def ROWS_def)

declare scroll_if_needed.simps [simp del]

definition init_video :: "'a screen_scheme \<Rightarrow> 'a screen_scheme" where
  "init_video s =
     (let s = fold (\<lambda>i. fold (\<lambda>j. store16 (VIDEO_MEMORY + of_nat (2 * (i * COLUMNS + j)))
                (GRAY_ON_CYAN OR 0x20)) [0..<COLUMNS]) [0..<ROWS] s
      in update_cursor (s\<lparr>cx := 0, cy := 0\<rparr>))"

section \<open>Characters\<close>

text \<open>The loop \<open>while(pos++ % 8 != 0);\<close> of the tab character.\<close>

function tab_loop :: "u16 \<Rightarrow> u16" where
  "tab_loop pos = (if pos mod 8 \<noteq> 0 then tab_loop (pos + 1) else pos + 1)"
  by pat_completeness auto

lemma unat_Suc_mod_8: "unat (pos + 1 :: u16) mod 8 = (unat pos + 1) mod 8"
proof -
  have "unat (pos + 1) = (unat pos + 1) mod 65536"
    by (simp add: unat_word_ariths)
  then show ?thesis by (simp add: mod_mod_cancel)
qed

lemma unat_mod_8: "unat (pos mod 8 :: u16) = unat pos mod 8"
  by (simp add: unat_mod)

termination tab_loop
proof (relation "measure (\<lambda>p. (8 - unat p mod 8) mod 8)")
  fix pos :: u16 assume "pos mod 8 \<noteq> 0"
  then have "unat (pos mod 8) \<noteq> 0" by (simp add: unat_0_iff)
  then have n0: "unat pos mod 8 \<noteq> 0" by (simp add: unat_mod_8)
  have "(8 - (r + 1) mod 8) mod 8 < (8 - r) mod 8" if "r \<noteq> 0" "r < 8" for r :: nat
    using that by (cases "r = 7") auto
  from this [OF n0] have "(8 - unat (pos + 1) mod 8) mod 8 < (8 - unat pos mod 8) mod 8"
    by (simp add: unat_Suc_mod_8 mod_Suc_eq)
  then show "(pos + 1, pos) \<in> measure (\<lambda>p. (8 - unat p mod 8) mod 8)"
    by (simp only: in_measure)
qed simp

declare tab_loop.simps [simp del]

definition putc :: "u8 \<Rightarrow> 'a screen_scheme \<Rightarrow> 'a screen_scheme" where
  "putc character s =
     (let ptr = VIDEO_MEMORY + word_of_int (2 * (cy s * int COLUMNS + cx s))
      in if character = 10 then update_cursor (scroll_if_needed (s\<lparr>cy := cy s + 1, cx := 0\<rparr>))
      else if character = 13 then update_cursor (scroll_if_needed (s\<lparr>cx := 0\<rparr>))
      else if character = 8 then
        (if cx s \<le> 0 \<and> cy s \<le> 0 then s
         else
           let s = store16 (VIDEO_MEMORY + word_of_int ((cy s * int COLUMNS + cx s - 1) * 2))
                     (GRAY_ON_CYAN OR 0x20) s;
               s = s\<lparr>cx := cx s - 1\<rparr>;
               s = (if cx s < 0 then s\<lparr>cx := int COLUMNS - 1, cy := cy s - 1\<rparr> else s)
           in update_cursor (scroll_if_needed s))
      else if character = 9 then
        (let pos = (word_of_int (cy s * int COLUMNS + cx s) :: u16);
             pos = tab_loop (pos + 1)
         in update_cursor (scroll_if_needed
              (s\<lparr>cy := uint (pos div of_nat COLUMNS), cx := uint (pos mod of_nat COLUMNS)\<rparr>)))
      else if character = 127 then
        update_cursor (scroll_if_needed (store16 ptr (GRAY_ON_CYAN OR 0x20) s))
      else
        (let s = store16 ptr (GRAY_ON_CYAN OR ucast character) s;
             s = (if cx s < int COLUMNS - 1 then s\<lparr>cx := cx s + 1\<rparr>
                  else s\<lparr>cx := 0, cy := cy s + 1\<rparr>)
         in update_cursor (scroll_if_needed s)))"

fun puts :: "u8 list \<Rightarrow> 'a screen_scheme \<Rightarrow> 'a screen_scheme" where
  "puts [] s = s"
| "puts (c # cs) s = (if c = 0 then s else puts cs (putc c s))"

section \<open>Numbers\<close>

text \<open>Both number printers divide a power of the base down to the leading digit
  (\<open>while(b > a) b /= base;\<close>) and then print a digit for each power.\<close>

function leading_power :: "u32 \<Rightarrow> u32 \<Rightarrow> u32 \<Rightarrow> u32" where
  "leading_power base b a = (if a < b \<and> 1 < base then leading_power base (b div base) a else b)"
  by pat_completeness auto
termination
proof (relation "measure (\<lambda>(base, b, a). unat b)", simp, clarsimp)
  fix base b a :: u32 assume "a < b" "1 < base"
  then show "unat (b div base) < unat b"
    by (simp add: unat_div word_less_nat_alt)
qed

declare leading_power.simps [simp del]

function puti_digits :: "u32 \<Rightarrow> u32 \<Rightarrow> 'a screen_scheme \<Rightarrow> 'a screen_scheme" where
  "puti_digits a b s =
     (if b \<noteq> 0 then puti_digits (a mod b) (b div 10) (putc (ucast (a div b + 48)) s) else s)"
  by pat_completeness auto
termination
proof (relation "measure (\<lambda>(a, b, s). unat b)", simp, clarsimp)
  fix b :: u32 assume "b \<noteq> 0"
  then show "unat (b div 10) < unat b"
    by (simp add: unat_div unat_gt_0)
qed

definition puti :: "u32 \<Rightarrow> 'a screen_scheme \<Rightarrow> 'a screen_scheme" where
  "puti a s = (if a = 0 then putc 48 s else puti_digits a (leading_power 10 1000000000 a) s)"

function puth_digits :: "u32 \<Rightarrow> u32 \<Rightarrow> 'a screen_scheme \<Rightarrow> 'a screen_scheme" where
  "puth_digits a b s =
     (if b \<noteq> 0 then
        let d = (ucast (a div b) :: u8);
            s = (if 9 < d then putc (64 + (d - 9)) s else putc (ucast (a div b + 48)) s)
        in puth_digits (a mod b) (b div 0x10) s
      else s)"
  by pat_completeness auto
termination
proof (relation "measure (\<lambda>(a, b, s). unat b)", simp, clarsimp)
  fix b :: u32 assume "b \<noteq> 0"
  then show "unat (b div 0x10) < unat b"
    by (simp add: unat_div unat_gt_0)
qed

declare puti_digits.simps [simp del] puth_digits.simps [simp del]

definition puth :: "u32 \<Rightarrow> 'a screen_scheme \<Rightarrow> 'a screen_scheme" where
  "puth a s =
     (let s = puts (str ''0x'') s
      in if a = 0 then putc 48 s else puth_digits a (leading_power 0x10 0x10000000 a) s)"

text \<open>
  \<open>putb\<close> runs \<open>for(i = 31; i >= 0; i--)\<close> with an \<open>uint8_t i\<close>. The shift \<open>1 << i\<close> is
  undefined in C from 32 on; i386 takes the count modulo 32.
\<close>

partial_function (option) putb_loop :: "u32 \<Rightarrow> u8 \<Rightarrow> 'a screen_scheme \<Rightarrow> 'a screen_scheme option" where
  "putb_loop a i s =
     (if 0 \<le> uint i then
        putb_loop a (i - 1) (putc (if a AND push_bit (unat i mod 32) 1 \<noteq> 0 then 49 else 48) s)
      else Some s)"

definition putb :: "u32 \<Rightarrow> 'a screen_scheme \<Rightarrow> 'a screen_scheme option" where
  "putb a s = putb_loop a 31 s"

text \<open>The loop of \<open>putarri\<close> counts to \<open>n\<close> with a \<open>uint16_t\<close>, which never reaches 65536.\<close>

definition putarri :: "u32 list \<Rightarrow> 'a screen_scheme \<Rightarrow> 'a screen_scheme option" where
  "putarri arr s =
     (if length arr < 65536 then Some (fold (\<lambda>a s. puts (str '', '') (puti a s)) arr s) else None)"

section \<open>printf\<close>

text \<open>
  The variable arguments are a list of words and strings. The result is \<open>None\<close> when
  \<open>printf\<close> does not come back (\<open>%b\<close>) and where C gives it no meaning: an argument that is
  missing or of the wrong kind, and a \<open>%\<close> that ends the format, where the code reads past the
  terminating zero.
\<close>

datatype va_arg = VaWord u32 | VaStr "u8 list"

fun printf :: "u8 list \<Rightarrow> va_arg list \<Rightarrow> 'a screen_scheme \<Rightarrow> 'a screen_scheme option" where
  "printf [] args s = Some s"
| "printf [c] args s =
     (if c = 0 then Some s else if c = 37 then None else Some (putc c s))"
| "printf (c # d # fmt) args s =
     (if c = 0 then Some s
      else if c = 37 then
        (if d = 0 then None
         else if d = 100 then
           (case args of VaWord a # args \<Rightarrow> printf fmt args (puti a s) | _ \<Rightarrow> None)
         else if d = 120 then
           (case args of VaWord a # args \<Rightarrow> printf fmt args (puth a s) | _ \<Rightarrow> None)
         else if d = 37 then printf fmt args (putc 37 s)
         else if d = 98 then
           (case args of VaWord a # args \<Rightarrow>
              (case putb a s of None \<Rightarrow> None | Some s \<Rightarrow> printf fmt args s) | _ \<Rightarrow> None)
         else if d = 115 then
           (case args of VaStr a # args \<Rightarrow> printf fmt args (puts a s) | _ \<Rightarrow> None)
         else if d = 99 then
           (case args of VaWord a # args \<Rightarrow> printf fmt args (putc (ucast a) s) | _ \<Rightarrow> None)
         else printf fmt args s)
      else printf (d # fmt) args (putc c s))"

section \<open>Cursor keys\<close>

definition moveCursorUp :: "'a screen_scheme \<Rightarrow> 'a screen_scheme" where
  "moveCursorUp s = update_cursor (if 0 < cy s then s\<lparr>cy := cy s - 1\<rparr> else s)"

definition moveCursorDown :: "'a screen_scheme \<Rightarrow> 'a screen_scheme" where
  "moveCursorDown s = update_cursor (if cy s < int ROWS - 1 then s\<lparr>cy := cy s + 1\<rparr> else s)"

definition moveCursorRight :: "'a screen_scheme \<Rightarrow> 'a screen_scheme" where
  "moveCursorRight s = update_cursor (if cx s < int COLUMNS - 1 then s\<lparr>cx := cx s + 1\<rparr> else s)"

definition moveCursorLeft :: "'a screen_scheme \<Rightarrow> 'a screen_scheme" where
  "moveCursorLeft s = update_cursor (if 0 < cx s then s\<lparr>cx := cx s - 1\<rparr> else s)"

end
