(* ===== verification/ScreenProps.thy ===== *)
theory ScreenProps
  imports Screen
begin

text \<open>
  The console as a client sees it: a grid of 25 rows of 80 cells with a cursor. \<open>console_of\<close>
  reads it off the machine, \<open>console_putc\<close> is what a character does to it, and \<open>putc\<close> is
  proved to refine that. \<open>console_step\<close> is the frame every printing routine keeps: only video
  memory, the cursor and the port trace change, and the cursor stays on the screen.
\<close>

section \<open>Cells of video memory\<close>

definition cell_addr :: "nat \<Rightarrow> u32" where
  "cell_addr k = VIDEO_MEMORY + of_nat (2 * k)"

definition cell :: "mem \<Rightarrow> nat \<Rightarrow> u16" where
  "cell m k = ld16 m (cell_addr k)"

definition video :: "u32 set" where
  "video = region VIDEO_MEMORY 4000"

lemma unat_cell_addr: "k < 2000 \<Longrightarrow> unat (cell_addr k) = 753664 + 2 * k"
  unfolding cell_addr_def VIDEO_MEMORY_def by (subst unat_add_of_nat) simp_all

lemma cell_region_video: "k < 2000 \<Longrightarrow> region (cell_addr k) 2 \<subseteq> video"
  unfolding cell_addr_def video_def
  by (rule region_sub) (simp_all add: VIDEO_MEMORY_def)

lemma cell_disjoint:
  assumes "j < 2000" "k < 2000" "j \<noteq> k"
  shows "region (cell_addr j) 2 \<inter> region (cell_addr k) 2 = {}"
proof (cases "j < k")
  case True
  then show ?thesis using assms by (intro region_disjoint) (simp_all add: unat_cell_addr)
next
  case False
  then show ?thesis using assms by (intro region_disjoint) (simp_all add: unat_cell_addr)
qed

lemma cell_store:
  "j < 2000 \<Longrightarrow> k < 2000 \<Longrightarrow> cell (st16 m (cell_addr j) v) k = (if j = k then v else cell m k)"
  by (cases "j = k") (simp_all add: cell_def mem_simps s16.ld_st_disjoint cell_disjoint)

lemma cell_cong: "k < 2000 \<Longrightarrow> (\<And>x. x \<in> video \<Longrightarrow> m x = m' x) \<Longrightarrow> cell m k = cell m' k"
  unfolding cell_def by (rule s16.ld_cong) (use cell_region_video in blast)

lemma cell_outside_range:
  assumes "k < 2000" and "\<And>x. x \<in> region (cell_addr k) 2 \<Longrightarrow> m' x = m x"
  shows "cell m' k = cell m k"
  unfolding cell_def by (rule s16.ld_cong) (use assms in blast)

section \<open>Scrolling\<close>

lemma scroll_row_frame:
  assumes "1 \<le> i" "i < 25" "x \<notin> video"
  shows "mem (scroll_row i s) x = mem s x"
proof -
  have "region (VIDEO_MEMORY + of_nat ((i - 1) * 160)) 160 \<subseteq> video"
    unfolding video_def using assms by (intro region_sub) (simp_all add: VIDEO_MEMORY_def)
  then have "x \<notin> region (VIDEO_MEMORY + of_nat ((i - 1) * 160)) 160"
    using assms by blast
  then show ?thesis
    by (simp add: scroll_row_def memcpy_def COLUMNS_def mem_copy_frame mult.assoc)
qed

lemma scroll_row_cell:
  assumes i: "1 \<le> i" "i < 25" and k: "k < 2000"
  shows "cell (mem (scroll_row i s)) k =
    (if (i - 1) * 80 \<le> k \<and> k < i * 80 then cell (mem s) (k + 80) else cell (mem s) k)"
proof -
  define d where "d = VIDEO_MEMORY + of_nat ((i - 1) * 160)"
  define src where "src = VIDEO_MEMORY + of_nat (i * 160)"
  have ud: "unat d = 753664 + (i - 1) * 160"
    unfolding d_def VIDEO_MEMORY_def using i by (subst unat_add_of_nat) auto
  have us: "unat src = 753664 + i * 160"
    unfolding src_def VIDEO_MEMORY_def using i by (subst unat_add_of_nat) auto
  have le: "(i - 1) * 160 + 160 \<le> i * 160" using i by (simp add: algebra_simps)
  have disj: "region d 160 \<inter> region src 160 = {}"
    using i ud us by (intro region_disjoint) auto
  have m: "mem (scroll_row i s) = mem_copy d src 160 (mem s)"
    by (simp add: scroll_row_def memcpy_def COLUMNS_def d_def src_def mult.assoc)
  show ?thesis
  proof (cases "(i - 1) * 80 \<le> k \<and> k < i * 80")
    case True
    define j where "j = k - (i - 1) * 80"
    have i80: "i * 80 = (i - 1) * 80 + 80" using i by (simp add: algebra_simps)
    have j: "k = (i - 1) * 80 + j" "j < 80"
      using True i80 unfolding j_def by linarith+
    have k': "k + 80 < 2000" using True i by auto
    have src_d: "src = d + 160"
    proof -
      have "i * 160 = (i - 1) * 160 + 160" using i by (simp add: algebra_simps)
      then show ?thesis by (simp add: src_def d_def)
    qed
    have ak: "cell_addr k = d + of_nat (2 * j)"
      using i j by (simp add: cell_addr_def d_def algebra_simps)
    have ak': "cell_addr (k + 80) = src + of_nat (2 * j)"
      using ak src_d by (simp add: cell_addr_def algebra_simps)
    have in1: "d + of_nat (2 * j) \<in> region d 160" and in2: "d + of_nat (2 * j + 1) \<in> region d 160"
      using j by (intro region_offset; simp)+
    have "mem_copy d src 160 (mem s) (d + of_nat (2 * j)) = mem s (src + of_nat (2 * j))"
      using disj in1 by (subst mem_copy_eq) simp_all
    moreover have "mem_copy d src 160 (mem s) (d + of_nat (2 * j + 1)) = mem s (src + of_nat (2 * j + 1))"
      using disj in2 by (subst mem_copy_eq) simp_all
    ultimately show ?thesis
      using True by (simp add: m cell_def ld16_def ak ak' algebra_simps)
  next
    case False
    have "region (cell_addr k) 2 \<inter> region d 160 = {}"
    proof (cases "k < (i - 1) * 80")
      case True
      then show ?thesis using k ud i by (intro region_disjoint) (auto simp: unat_cell_addr)
    next
      case F: False
      then have "i * 80 \<le> k" using False by simp
      then have "unat d + 160 \<le> unat (cell_addr k)"
        using k ud le by (simp add: unat_cell_addr)
      then show ?thesis using k by (intro region_disjoint(2)) (auto simp: unat_cell_addr)
    qed
    then have "cell (mem_copy d src 160 (mem s)) k = cell (mem s) k"
      using k by (intro cell_outside_range mem_copy_frame) auto
    with False show ?thesis by (auto simp: m)
  qed
qed

lemma fold_scroll_row:
  assumes "n \<le> 24"
  shows "(\<forall>k<2000. cell (mem (fold scroll_row [1..<Suc n] s)) k =
           (if k < n * 80 then cell (mem s) (k + 80) else cell (mem s) k)) \<and>
         (\<forall>x. x \<notin> video \<longrightarrow> mem (fold scroll_row [1..<Suc n] s) x = mem s x)"
  using assms
proof (induction n)
  case 0
  then show ?case by simp
next
  case (Suc n)
  have e: "fold scroll_row [1..<Suc (Suc n)] s = scroll_row (Suc n) (fold scroll_row [1..<Suc n] s)"
    by simp
  show ?case
    using Suc unfolding e
    by (auto simp: scroll_row_cell scroll_row_frame less_Suc_eq simp del: upt_Suc fold_append)
qed

lemma blank_cell_store: "mem (blank_cell i s) = st16 (mem s) (cell_addr (1920 + i)) 0x9020"
  by (simp add: blank_cell_def store16_def cell_addr_def ROWS_def COLUMNS_def GRAY_ON_CYAN_def
      algebra_simps)

lemma fold_blank_cell:
  assumes "n \<le> 80"
  shows "(\<forall>k<2000. cell (mem (fold blank_cell [0..<n] s)) k =
           (if 1920 \<le> k \<and> k < 1920 + n then 0x9020 else cell (mem s) k)) \<and>
         (\<forall>x. x \<notin> video \<longrightarrow> mem (fold blank_cell [0..<n] s) x = mem s x)"
  using assms
proof (induction n)
  case 0
  then show ?case by auto
next
  case (Suc n)
  have "x \<notin> region (cell_addr (1920 + n)) 2" if "x \<notin> video" for x
    using cell_region_video [of "1920 + n"] Suc.prems that by auto
  with Suc show ?case
    by (auto simp: blank_cell_store cell_store s16.st_frame)
qed

lemma fold_scroll_row_all:
  shows "k < 2000 \<Longrightarrow> cell (mem (fold scroll_row [1..<25] s)) k =
      (if k < 1920 then cell (mem s) (k + 80) else cell (mem s) k)"
    and "x \<notin> video \<Longrightarrow> mem (fold scroll_row [1..<25] s) x = mem s x"
  using fold_scroll_row [of 24 s] by (simp_all del: upt_Suc)

lemma fold_blank_cell_all:
  shows "k < 2000 \<Longrightarrow> cell (mem (fold blank_cell [0..<80] s)) k =
      (if 1920 \<le> k then 0x9020 else cell (mem s) k)"
    and "x \<notin> video \<Longrightarrow> mem (fold blank_cell [0..<80] s) x = mem s x"
  using fold_blank_cell [of 80 s] by (simp_all del: upt_Suc)

lemma scroll_once_cell:
  "k < 2000 \<Longrightarrow> cell (mem (scroll_once s)) k = (if k < 1920 then cell (mem s) (k + 80) else 0x9020)"
  by (simp add: scroll_once_def ROWS_def COLUMNS_def Let_def fold_blank_cell_all
      fold_scroll_row_all [unfolded One_nat_def])

lemma scroll_once_frame: "x \<notin> video \<Longrightarrow> mem (scroll_once s) x = mem s x"
  by (simp add: scroll_once_def ROWS_def COLUMNS_def Let_def fold_blank_cell_all
      fold_scroll_row_all [unfolded One_nat_def])

section \<open>The console\<close>

definition cursor_ok :: "'a screen_scheme \<Rightarrow> bool" where
  "cursor_ok s \<longleftrightarrow> 0 \<le> cx s \<and> cx s < 80 \<and> 0 \<le> cy s \<and> cy s < 25"

record console =
  cells :: "u16 list"
  cursor :: nat

definition console_of :: "'a screen_scheme \<Rightarrow> console" where
  "console_of s = \<lparr>cells = map (cell (mem s)) [0..<2000], cursor = nat (cy s * 80 + cx s)\<rparr>"

text \<open>Going past the last cell scrolls the screen by one row.\<close>

definition console_goto :: "nat \<Rightarrow> console \<Rightarrow> console" where
  "console_goto p con =
     (if p < 2000 then con\<lparr>cursor := p\<rparr>
      else \<lparr>cells = drop 80 (cells con) @ replicate 80 0x9020, cursor = p - 80\<rparr>)"

definition console_set :: "nat \<Rightarrow> u8 \<Rightarrow> console \<Rightarrow> console" where
  "console_set p c con = con\<lparr>cells := (cells con)[p := 0x9000 OR ucast c]\<rparr>"

definition console_putc :: "u8 \<Rightarrow> console \<Rightarrow> console" where
  "console_putc c con =
     (let p = cursor con in
      if c = 10 then console_goto ((p div 80 + 1) * 80) con
      else if c = 13 then con\<lparr>cursor := p div 80 * 80\<rparr>
      else if c = 8 then (if p = 0 then con else (console_set (p - 1) 0x20 con)\<lparr>cursor := p - 1\<rparr>)
      else if c = 9 then console_goto (8 * (p div 8 + 1) + 1) con
      else if c = 127 then console_set p 0x20 con
      else console_goto (p + 1) (console_set p c con))"

lemma tab_arith:
  fixes n :: nat
  shows "n mod 8 = 0 \<Longrightarrow> 8 * ((n + 7) div 8) = n"
    and "n mod 8 \<noteq> 0 \<Longrightarrow> (n + 1 + 7) div 8 = (n + 7) div 8"
proof -
  define q r where "q = n div 8" and "r = n mod 8"
  then have n: "n = 8 * q + r" "r < 8" by simp_all
  then have split: "(n + k) div 8 = q + (r + k) div 8" for k by (simp add: add.assoc)
  show "n mod 8 = 0 \<Longrightarrow> 8 * ((n + 7) div 8) = n"
    using n split [of 7] by (simp add: r_def [symmetric])
  assume "n mod 8 \<noteq> 0"
  then have r0: "0 < r" by (simp add: r_def)
  have "(r + 7) div 8 = 1" "(r + 8) div 8 = 1"
    using n r0 by (auto intro!: div_nat_eqI)
  then show "(n + 1 + 7) div 8 = (n + 7) div 8"
    using split [of 7] split [of 8] by (simp add: add.assoc)
qed

lemma tab_loop_eq: "unat p \<le> 65000 \<Longrightarrow> unat (tab_loop p) = 8 * ((unat p + 7) div 8) + 1"
proof (induction p rule: tab_loop.induct)
  case (1 p)
  then have u: "unat (p + 1) = unat p + 1"
    by (simp add: unat_word_ariths)
  show ?case
  proof (cases "p mod 8 = 0")
    case True
    then have "unat p mod 8 = 0" by (metis unat_mod_8 unat_0)
    moreover have "tab_loop p = p + 1" by (subst tab_loop.simps) (simp add: True)
    ultimately show ?thesis using u tab_arith(1) by metis
  next
    case False
    then have nz: "unat p mod 8 \<noteq> 0" by (metis unat_mod_8 unat_0_iff)
    have "unat p \<noteq> 65000" using nz by auto
    then have "unat (tab_loop (p + 1)) = 8 * ((unat p + 1 + 7) div 8) + 1"
      using "1.IH" [OF False] "1.prems" by (simp add: u)
    moreover have "tab_loop p = tab_loop (p + 1)" by (subst tab_loop.simps) (simp add: False)
    ultimately show ?thesis by (simp only: tab_arith(2) [OF nz])
  qed
qed

lemma update_cursor_frame [frame_simps]:
  "mem (update_cursor s) = mem s" "cx (update_cursor s) = cx s" "cy (update_cursor s) = cy s"
  "dev (update_cursor s) = dev s"
  by (simp_all add: update_cursor_def move_cursor_def outb_def Let_def)

lemma console_of_update_cursor [simp]: "console_of (update_cursor s) = console_of s"
  by (simp add: console_of_def frame_simps)

lemma scroll_once_cursor [simp]: "cx (scroll_once s) = cx s" "cy (scroll_once s) = cy s - 1"
proof -
  have "cx (fold scroll_row is s) = cx s" for "is" and s :: "'a screen_scheme"
    by (induction "is" arbitrary: s) (simp_all add: scroll_row_def memcpy_def)
  moreover have "cx (fold blank_cell is s) = cx s" for "is" and s :: "'a screen_scheme"
    by (induction "is" arbitrary: s) (simp_all add: blank_cell_def store16_def)
  ultimately show "cx (scroll_once s) = cx s" "cy (scroll_once s) = cy s - 1"
    by (simp_all add: scroll_once_def Let_def)
qed

lemma scroll_if_needed_once:
  "cy s < 26 \<Longrightarrow> scroll_if_needed s = (if 25 \<le> cy s then scroll_once s else s)"
  by (subst scroll_if_needed.simps, subst scroll_if_needed.simps) (simp add: ROWS_def)

lemma console_of_scroll_once:
  "0 \<le> cx s \<Longrightarrow> 1 \<le> cy s \<Longrightarrow> console_of (scroll_once s) =
     \<lparr>cells = drop 80 (cells (console_of s)) @ replicate 80 0x9020,
      cursor = cursor (console_of s) - 80\<rparr>"
  by (auto simp: console_of_def scroll_once_cell algebra_simps nat_diff_distrib
      intro!: nth_equalityI simp: nth_append)

text \<open>The position \<open>r * 80 + c\<close> of a cursor in row \<open>r \<le> 25\<close>.\<close>

lemma console_of_goto:
  assumes "console_of s = con" and "cx t = int c" "cy t = int r" "mem t = mem s"
    and "c < 80" "r < 26"
  shows "console_of (scroll_if_needed t) = console_goto (r * 80 + c) con"
proof (cases "r = 25")
  case True
  then show ?thesis
    using assms by (simp add: scroll_if_needed_once console_of_scroll_once console_goto_def)
      (auto simp: console_of_def nat_add_distrib)
next
  case False
  then show ?thesis
    using assms by (auto simp: scroll_if_needed_once console_goto_def console_of_def
        frame_simps nat_add_distrib nat_mult_distrib)
qed

lemma console_of_store:
  assumes "k < 2000"
  shows "console_of (store16 (cell_addr k) (0x9000 OR ucast ch) s) = console_set k ch (console_of s)"
  using assms
  by (auto simp: console_of_def console_set_def store16_def cell_store nth_list_update
      intro!: nth_equalityI)

text \<open>One lemma for each kind of character, from a cursor in row \<open>r\<close> and column \<open>c\<close>.\<close>

definition cursor_at :: "nat \<Rightarrow> nat \<Rightarrow> 'a screen_scheme \<Rightarrow> bool" where
  "cursor_at r c s \<longleftrightarrow> cy s = int r \<and> cx s = int c \<and> r < 25 \<and> c < 80"

lemma cursor_okE:
  assumes "cursor_ok s"
  obtains r c where "cursor_at r c s"
proof -
  have "cursor_at (nat (cy s)) (nat (cx s)) s"
    using assms by (auto simp: cursor_ok_def cursor_at_def)
  then show ?thesis by (rule that)
qed

lemma cursor_atD:
  assumes "cursor_at r c s"
  shows "cursor (console_of s) = r * 80 + c" and "r * 80 + c < 2000"
    and "(r * 80 + c) div 80 = r" and "(r * 80 + c) mod 80 = c"
    and "VIDEO_MEMORY + word_of_int (2 * (cy s * int COLUMNS + cx s)) = cell_addr (r * 80 + c)"
  using assms
  by (simp_all add: cursor_at_def console_of_def nat_add_distrib nat_mult_distrib COLUMNS_def)
    (simp add: cell_addr_def algebra_simps)

lemma store16_cursor [frame_simps]:
  "cx (store16 a v s) = cx s" "cy (store16 a v s) = cy s"
  by (simp_all add: store16_def)

lemma putc_newline:
  assumes "cursor_at r c s"
  shows "console_of (putc 10 s) = console_putc 10 (console_of s)"
proof -
  have "console_of (scroll_if_needed (s\<lparr>cy := int r + 1, cx := 0\<rparr>))
      = console_goto ((r + 1) * 80 + 0) (console_of s)"
    using assms by (intro console_of_goto) (simp_all add: cursor_at_def)
  with assms show ?thesis
    by (simp add: putc_def console_putc_def cursor_atD) (simp add: cursor_at_def)
qed

lemma putc_return:
  assumes "cursor_at r c s"
  shows "console_of (putc 13 s) = console_putc 13 (console_of s)"
proof -
  have "console_of (scroll_if_needed (s\<lparr>cx := 0\<rparr>)) = console_goto (r * 80 + 0) (console_of s)"
    using assms by (intro console_of_goto) (simp_all add: cursor_at_def)
  with assms cursor_atD [OF assms] show ?thesis
    by (simp add: putc_def console_putc_def console_goto_def)
qed

text \<open>Where backspace leaves the cursor: it wraps to the end of the row above.\<close>

lemma putc_8_eq:
  assumes at: "cursor_at r c s" and "r * 80 + c \<noteq> 0"
  shows "putc 8 s = update_cursor (scroll_if_needed
    (let t = store16 (cell_addr (r * 80 + c - 1)) 0x9020 s in
     if c = 0 then t\<lparr>cx := int 79, cy := int (r - 1)\<rparr> else t\<lparr>cx := int (c - 1)\<rparr>))"
proof -
  have "(cy s * int COLUMNS + cx s - 1) * 2 = int (2 * (r * 80 + c - 1))"
    using assms by (cases c; cases r) (simp_all add: cursor_at_def COLUMNS_def)
  then have ptr: "VIDEO_MEMORY + word_of_int ((cy s * int COLUMNS + cx s - 1) * 2)
      = cell_addr (r * 80 + c - 1)"
    by (simp only: cell_addr_def of_int_of_nat_eq)
  show ?thesis
    using assms unfolding putc_def ptr
    by (cases c; cases r) (simp_all add: cursor_at_def GRAY_ON_CYAN_def COLUMNS_def Let_def frame_simps)
qed

lemma putc_backspace:
  assumes at: "cursor_at r c s"
  shows "console_of (putc 8 s) = console_putc 8 (console_of s)"
proof (cases "r * 80 + c = 0")
  case True
  with at cursor_atD [OF at] show ?thesis
    by (simp add: putc_def console_putc_def cursor_at_def)
next
  case False
  define p where "p = r * 80 + c - 1"
  then have p: "r * 80 + c = p + 1" "p < 2000" using False cursor_atD(2) [OF at] by simp_all
  define t where "t = store16 (cell_addr p) 0x9020 s"
  have t: "console_of t = console_set p 0x20 (console_of s)" "cx t = int c" "cy t = int r"
    using console_of_store [OF p(2), of "0x20" s] at
    by (simp_all add: t_def frame_simps cursor_at_def)
  define u where "u = (if c = 0 then t\<lparr>cx := int 79, cy := int (r - 1)\<rparr> else t\<lparr>cx := int (c - 1)\<rparr>)"
  have "console_of (scroll_if_needed u) = console_goto p (console_of t)"
  proof (cases "c = 0")
    case True
    then have "console_of (scroll_if_needed u) = console_goto ((r - 1) * 80 + 79) (console_of t)"
      using at unfolding u_def by (intro console_of_goto) (auto simp: cursor_at_def)
    moreover have "(r - 1) * 80 + 79 = p" using p True by (cases r) simp_all
    ultimately show ?thesis by simp
  next
    case c: False
    then have "console_of (scroll_if_needed u) = console_goto (r * 80 + (c - 1)) (console_of t)"
      using at t unfolding u_def by (intro console_of_goto) (auto simp: cursor_at_def)
    moreover have "r * 80 + (c - 1) = p" using p c by simp
    ultimately show ?thesis by simp
  qed
  moreover have "putc 8 s = update_cursor (scroll_if_needed u)"
    unfolding putc_8_eq [OF at False] p_def [symmetric] t_def [symmetric] u_def Let_def ..
  ultimately show ?thesis
    using t p cursor_atD [OF at] by (simp add: console_putc_def console_goto_def)
qed

lemma putc_tab:
  assumes at: "cursor_at r c s"
  shows "console_of (putc 9 s) = console_putc 9 (console_of s)"
proof -
  define p where "p = r * 80 + c"
  have p: "p < 2000" using cursor_atD(2) [OF at] by (simp add: p_def)
  define q where "q = 8 * (p div 8 + 1) + 1"
  have q: "q < 2080" using p by (simp add: q_def)
  define w where "w = tab_loop (word_of_int (cy s * int COLUMNS + cx s) + 1)"
  have "cy s * int COLUMNS + cx s = int p"
    using at by (simp add: cursor_at_def COLUMNS_def p_def)
  then have "w = tab_loop (word_of_nat (p + 1))"
    by (simp add: w_def add.commute)
  moreover have u: "unat (word_of_nat (p + 1) :: u16) = p + 1"
    using p by (simp add: unat_of_nat del: of_nat_add of_nat_Suc)
  ultimately have "unat w = 8 * ((p + 1 + 7) div 8) + 1"
    using p by (simp only: tab_loop_eq u)
  moreover have "(p + 1 + 7) div 8 = p div 8 + 1" using div_add_self2 [of 8 p] by simp
  ultimately have "unat w = q" by (simp only: q_def)
  then have qd: "uint (w div 80) = int (q div 80)" "uint (w mod 80) = int (q mod 80)"
    by (simp_all add: uint_nat unat_div unat_mod)
  have "q div 80 < 26" using q by (simp add: div_less_iff_less_mult)
  then have "console_of (scroll_if_needed (s\<lparr>cy := int (q div 80), cx := int (q mod 80)\<rparr>))
      = console_goto (q div 80 * 80 + q mod 80) (console_of s)"
    by (intro console_of_goto) simp_all
  moreover have "putc 9 s = update_cursor (scroll_if_needed
      (s\<lparr>cy := uint (w div 80), cx := uint (w mod 80)\<rparr>))"
    unfolding putc_def w_def by (simp add: COLUMNS_def Let_def)
  ultimately show ?thesis
    using cursor_atD(1) [OF at]
    by (simp add: console_putc_def qd p_def [symmetric]) (simp add: q_def)
qed

lemma putc_delete:
  assumes at: "cursor_at r c s"
  shows "console_of (putc 127 s) = console_putc 127 (console_of s)"
proof -
  define p where "p = r * 80 + c"
  note D = cursor_atD [OF at, folded p_def]
  have "console_of (scroll_if_needed (store16 (cell_addr p) 0x9020 s))
      = console_goto (r * 80 + c) (console_of (store16 (cell_addr p) 0x9020 s))"
    using at by (intro console_of_goto) (simp_all add: frame_simps cursor_at_def)
  moreover have "console_of (store16 (cell_addr p) 0x9020 s) = console_set p 0x20 (console_of s)"
    using console_of_store [OF D(2), of "0x20" s] by simp
  ultimately show ?thesis
    using D by (simp add: putc_def console_putc_def GRAY_ON_CYAN_def console_goto_def Let_def
        p_def [symmetric] console_set_def)
qed

lemma putc_print_eq:
  assumes at: "cursor_at r c s" and ch: "ch \<notin> {8, 9, 10, 13, 127}"
  shows "putc ch s = update_cursor (scroll_if_needed
    (let t = store16 (cell_addr (r * 80 + c)) (0x9000 OR ucast ch) s in
     if c < 79 then t\<lparr>cx := int (c + 1)\<rparr> else t\<lparr>cx := int 0, cy := int (r + 1)\<rparr>))"
  using ch at unfolding putc_def cursor_atD(5) [OF at]
  by (simp add: GRAY_ON_CYAN_def COLUMNS_def Let_def frame_simps cursor_at_def algebra_simps)

lemma putc_print:
  assumes at: "cursor_at r c s" and ch: "ch \<notin> {8, 9, 10, 13, 127}"
  shows "console_of (putc ch s) = console_putc ch (console_of s)"
proof -
  define p where "p = r * 80 + c"
  note D = cursor_atD [OF at, folded p_def]
  define t where "t = store16 (cell_addr p) (0x9000 OR ucast ch) s"
  have t: "cx t = int c" "cy t = int r" "console_of t = console_set p ch (console_of s)"
    using console_of_store [OF D(2), of ch s] at
    by (simp_all add: t_def frame_simps cursor_at_def)
  define u where "u = (if c < 79 then t\<lparr>cx := int (c + 1)\<rparr> else t\<lparr>cx := int 0, cy := int (r + 1)\<rparr>)"
  have "console_of (scroll_if_needed u) = console_goto (p + 1) (console_of t)"
  proof (cases "c < 79")
    case True
    then have "console_of (scroll_if_needed u) = console_goto (r * 80 + (c + 1)) (console_of t)"
      using at t by (intro console_of_goto) (simp_all add: cursor_at_def u_def)
    then show ?thesis by (simp add: p_def)
  next
    case False
    then have c: "c = 79" using at by (simp add: cursor_at_def)
    then have "console_of (scroll_if_needed u) = console_goto ((r + 1) * 80 + 0) (console_of t)"
      using at by (intro console_of_goto) (simp_all add: cursor_at_def u_def)
    then show ?thesis by (simp add: p_def c)
  qed
  moreover have "putc ch s = update_cursor (scroll_if_needed u)"
    unfolding putc_print_eq [OF at ch] p_def [symmetric] t_def [symmetric] u_def Let_def ..
  ultimately show ?thesis using ch t D(1) by (simp add: console_putc_def)
qed

lemma console_of_putc:
  assumes "cursor_ok s"
  shows "console_of (putc ch s) = console_putc ch (console_of s)"
  using assms
proof (rule cursor_okE)
  fix r c assume at: "cursor_at r c s"
  consider "ch = 10" | "ch = 13" | "ch = 8" | "ch = 9" | "ch = 127" | "ch \<notin> {8, 9, 10, 13, 127}"
    by blast
  then show ?thesis
    by cases (use at in \<open>simp_all add: putc_newline putc_return putc_backspace putc_tab
        putc_delete putc_print\<close>)
qed

end
