(* ===== verification/ScreenNumbers.thy ===== *)
theory ScreenNumbers
  imports ScreenProps
begin

text \<open>
  What the printing routines leave alone, and what \<open>puti\<close> and \<open>puth\<close> print: the frame
  \<open>console_step\<close> for every routine, through the interface \<open>console_printer\<close>, and the decimal
  and hexadecimal digits of the number.
\<close>

section \<open>The frame of the console\<close>

definition console_frame :: "'a screen_scheme \<Rightarrow> 'a screen_scheme \<Rightarrow> bool" where
  "console_frame s t \<longleftrightarrow>
     t = s\<lparr>mem := mem t, trace := trace t, cx := cx t, cy := cy t\<rparr> \<and>
     (\<forall>a. a \<notin> video \<longrightarrow> mem t a = mem s a)"

definition console_step :: "'a screen_scheme \<Rightarrow> 'a screen_scheme \<Rightarrow> bool" where
  "console_step s t \<longleftrightarrow> console_frame s t \<and> cursor_ok t"

lemma console_frame_refl: "console_frame s s"
  by (simp add: console_frame_def)

lemma console_frame_trans: "console_frame s t \<Longrightarrow> console_frame t u \<Longrightarrow> console_frame s u"
  by (cases s, cases t, cases u) (auto simp: console_frame_def)

lemma console_frame_fields:
  "console_frame s (s\<lparr>cx := x\<rparr>)" "console_frame s (s\<lparr>cy := y\<rparr>)"
  "console_frame s (s\<lparr>cx := x, cy := y\<rparr>)" "console_frame s (s\<lparr>cy := y, cx := x\<rparr>)"
  by (simp_all add: console_frame_def)

lemma console_frame_update_cursor: "console_frame s (update_cursor s)"
  by (simp add: console_frame_def update_cursor_def move_cursor_def outb_def Let_def)

lemma console_frame_store:
  "k < 2000 \<Longrightarrow> console_frame s (store16 (cell_addr k) v s)"
  using cell_region_video [of k]
  by (auto simp: console_frame_def store16_def s16.st_outside)

lemma fold_mem_only:
  fixes s :: "'a machine_scheme"
  assumes "\<And>i s. \<exists>m. f i s = s\<lparr>mem := m\<rparr>"
  shows "\<exists>m. fold f is s = s\<lparr>mem := m\<rparr>"
proof (induction "is" arbitrary: s)
  case Nil
  show ?case by (rule exI [of _ "mem s"]) simp
next
  case (Cons i "is")
  obtain m where m: "f i s = s\<lparr>mem := m\<rparr>" using assms by blast
  obtain m' where "fold f is (f i s) = (f i s)\<lparr>mem := m'\<rparr>" using Cons by blast
  with m show ?case by (intro exI [of _ m']) simp
qed

lemma scroll_once_frame_eq: "console_frame s (scroll_once s)"
proof -
  obtain m where m: "fold scroll_row [1..<ROWS] s = s\<lparr>mem := m\<rparr>"
    using fold_mem_only [of scroll_row "[1..<ROWS]" s] by (auto simp: scroll_row_def memcpy_def)
  obtain m' where "fold blank_cell [0..<COLUMNS] (s\<lparr>mem := m\<rparr>) = s\<lparr>mem := m\<rparr>\<lparr>mem := m'\<rparr>"
    using fold_mem_only [of blank_cell "[0..<COLUMNS]" "s\<lparr>mem := m\<rparr>"]
    by (auto simp: blank_cell_def store16_def)
  with m have "scroll_once s = s\<lparr>mem := m', cy := cy s - 1\<rparr>"
    by (simp add: scroll_once_def Let_def)
  moreover from this have "m' a = mem s a" if "a \<notin> video" for a
    using scroll_once_frame [OF that, of s] by simp
  ultimately show ?thesis by (simp add: console_frame_def)
qed

lemma scroll_step:
  assumes "console_frame s t" "0 \<le> cx t" "cx t < 80" "0 \<le> cy t" "cy t < 26"
  shows "console_step s (update_cursor (scroll_if_needed t))"
proof -
  have "console_frame t (scroll_if_needed t)"
    using assms by (simp add: scroll_if_needed_once scroll_once_frame_eq console_frame_refl)
  with assms(1) have "console_frame s (update_cursor (scroll_if_needed t))"
    by (blast intro: console_frame_trans console_frame_update_cursor)
  moreover have "cursor_ok (update_cursor (scroll_if_needed t))"
    using assms by (simp add: cursor_ok_def frame_simps scroll_if_needed_once)
  ultimately show ?thesis by (simp add: console_step_def)
qed

lemma tab_position:
  assumes "cursor_at r c s"
  shows "uint (tab_loop (word_of_int (cy s * int COLUMNS + cx s) + 1) div of_nat COLUMNS) < 26"
    and "uint (tab_loop (word_of_int (cy s * int COLUMNS + cx s) + 1) mod of_nat COLUMNS) < 80"
proof -
  have "cy s * int COLUMNS + cx s + 1 = int (r * 80 + c + 1)"
    using assms by (simp add: cursor_at_def COLUMNS_def)
  then have e: "word_of_int (cy s * int COLUMNS + cx s) + (1 :: u16) = word_of_nat (r * 80 + c + 1)"
    by (metis of_int_1 of_int_add of_int_of_nat_eq)
  have b: "r * 80 + c < 2000" using assms by (rule cursor_atD)
  then have "unat (word_of_nat (r * 80 + c + 1) :: u16) = r * 80 + c + 1"
    by (simp add: unat_of_nat del: of_nat_add of_nat_Suc of_nat_mult)
  then have "unat (tab_loop (word_of_int (cy s * int COLUMNS + cx s) + 1)) < 2080"
    using b unfolding e by (subst tab_loop_eq) auto
  then show "uint (tab_loop (word_of_int (cy s * int COLUMNS + cx s) + 1) div of_nat COLUMNS) < 26"
    and "uint (tab_loop (word_of_int (cy s * int COLUMNS + cx s) + 1) mod of_nat COLUMNS) < 80"
    by (simp_all add: uint_nat unat_div unat_mod COLUMNS_def div_less_iff_less_mult)
qed

lemma putc_step:
  assumes "cursor_ok s"
  shows "console_step s (putc ch s)"
  using assms
proof (rule cursor_okE)
  fix r c assume at: "cursor_at r c s"
  note D = cursor_atD [OF at]
  note st = console_frame_store [OF D(2), of s]
  note frames = console_frame_fields console_frame_refl
  consider "ch = 10" | "ch = 13" | "ch = 8" "r * 80 + c = 0" | "ch = 8" "r * 80 + c \<noteq> 0" | "ch = 9"
    | "ch = 127" | "ch \<notin> {8, 9, 10, 13, 127}"
    by blast
  then show ?thesis
  proof cases
    case 3
    with at assms show ?thesis
      by (simp add: putc_def cursor_at_def console_step_def console_frame_refl)
  next
    case 4
    define t where "t = store16 (cell_addr (r * 80 + c - 1)) 0x9020 s"
    have "console_frame s t" "cx t = int c" "cy t = int r"
      using D(2) at by (simp_all add: t_def console_frame_store frame_simps cursor_at_def)
    then show ?thesis
      using at unfolding 4(1) putc_8_eq [OF at 4(2)] t_def [symmetric] Let_def
      by (intro scroll_step)
        (auto simp: cursor_at_def intro: console_frame_trans console_frame_fields)
  next
    case 5
    then show ?thesis
      using tab_position [OF at] unfolding putc_def
      by (auto simp: Let_def intro!: scroll_step frames)
  next
    case 6
    then show ?thesis
      using at st unfolding putc_def D(5)
      by (auto simp: cursor_at_def frame_simps Let_def intro!: scroll_step)
  next
    case 7
    define t where "t = store16 (cell_addr (r * 80 + c)) (0x9000 OR ucast ch) s"
    have "console_frame s t" "cx t = int c" "cy t = int r"
      using D(2) at by (simp_all add: t_def console_frame_store frame_simps cursor_at_def)
    then show ?thesis
      using at unfolding putc_print_eq [OF at 7] t_def [symmetric] Let_def
      by (intro scroll_step)
        (auto simp: cursor_at_def intro: console_frame_trans console_frame_fields)
  qed (use at frames in \<open>auto simp: putc_def cursor_at_def Let_def intro!: scroll_step\<close>)
qed

section \<open>The interface of a printing routine\<close>

locale console_printer =
  fixes out :: "'x \<Rightarrow> 'a screen_scheme \<Rightarrow> 'a screen_scheme"
  assumes step: "cursor_ok s \<Longrightarrow> console_step s (out x s)"
begin

lemma fold_step: "cursor_ok s \<Longrightarrow> console_step s (fold out xs s)"
proof (induction xs arbitrary: s)
  case Nil
  then show ?case by (simp add: console_step_def console_frame_refl)
next
  case (Cons x xs)
  then have "console_step s (out x s)" by (intro step)
  moreover from this have "console_step (out x s) (fold out xs (out x s))"
    by (intro Cons.IH) (simp add: console_step_def)
  ultimately show ?case
    by (auto simp: console_step_def intro: console_frame_trans)
qed

lemma keeps_cursor: "cursor_ok s \<Longrightarrow> cursor_ok (out x s)"
  using step by (simp add: console_step_def)

lemma keeps_memory: "cursor_ok s \<Longrightarrow> a \<notin> video \<Longrightarrow> mem (out x s) a = mem s a"
  using step by (auto simp: console_step_def console_frame_def)

end

interpretation putc: console_printer putc
  by unfold_locales (rule putc_step)

lemma puts_fold: "puts cs s = fold putc (takeWhile (\<lambda>c. c \<noteq> 0) cs) s"
  by (induction cs arbitrary: s) simp_all

interpretation puts: console_printer puts
  by unfold_locales (simp add: puts_fold putc.fold_step)

section \<open>Numbers\<close>

text \<open>The digits of a number, most significant first.\<close>

fun digits :: "nat \<Rightarrow> nat \<Rightarrow> nat list" where
  "digits b n = (if n < b \<or> b \<le> 1 then [n] else digits b (n div b) @ [n mod b])"

declare digits.simps [simp del]

definition digit_char :: "nat \<Rightarrow> u8" where
  "digit_char d = (if d < 10 then of_nat (48 + d) else of_nat (55 + d))"

text \<open>\<open>pad b k n\<close>: the \<open>k + 1\<close> digits of \<open>n\<close> from the power \<open>b ^ k\<close> down, as the loops of
  the code produce them.\<close>

fun pad :: "nat \<Rightarrow> nat \<Rightarrow> nat \<Rightarrow> nat list" where
  "pad b 0 n = [n]"
| "pad b (Suc k) n = n div b ^ Suc k # pad b k (n mod b ^ Suc k)"

lemma pad_last: "0 < b \<Longrightarrow> pad b (Suc k) n = pad b k (n div b) @ [n mod b]"
proof (induction k arbitrary: n)
  case 0
  then show ?case by simp
next
  case (Suc k)
  have d: "n div b ^ Suc (Suc k) = n div b div b ^ Suc k"
    by (simp add: div_mult2_eq [symmetric] mult.commute)
  have m: "n mod b ^ Suc (Suc k) div b = n div b mod b ^ Suc k"
    using Suc.prems mod_mult2_eq [of n b "b ^ Suc k"] by simp
  have mm: "n mod b ^ Suc (Suc k) mod b = n mod b"
    by (simp add: mod_mod_cancel)
  have "pad b (Suc (Suc k)) n
      = n div b ^ Suc (Suc k) # (pad b k (n mod b ^ Suc (Suc k) div b) @ [n mod b ^ Suc (Suc k) mod b])"
    using Suc by simp
  also have "\<dots> = pad b (Suc k) (n div b) @ [n mod b]"
    unfolding m mm d by simp
  finally show ?case .
qed

lemma digits_pad:
  assumes "1 < b" and "k = 0 \<or> b ^ k \<le> n" and "n < b ^ Suc k"
  shows "digits b n = pad b k n"
  using assms(2,3)
proof (induction k arbitrary: n)
  case 0
  then show ?case using assms(1) by (simp add: digits.simps)
next
  case (Suc k)
  then have lo: "b ^ Suc k \<le> n" by simp
  have "b \<le> b ^ Suc k" using assms(1) by simp
  then have b: "b \<le> n" using lo by (rule order_trans)
  have "b ^ k \<le> n div b"
    using lo assms(1) by (simp add: less_eq_div_iff_mult_less_eq mult.commute)
  moreover have "n div b < b ^ Suc k"
    using Suc.prems(2) assms(1) by (simp add: div_less_iff_less_mult mult.commute)
  ultimately have "digits b (n div b) = pad b k (n div b)" by (intro Suc.IH) simp_all
  moreover have "digits b n = digits b (n div b) @ [n mod b]"
    using b assms(1) by (subst digits.simps) simp
  ultimately show ?case using assms(1) by (simp only: pad_last)
qed

text \<open>The first loop stops at the greatest power of the base that is not above \<open>a\<close>.\<close>

lemma leading_power_eq:
  assumes base: "1 < B" "unat base = B" and a: "a \<noteq> 0" "unat a < B ^ Suc K"
    and K: "B ^ K < 4294967296"
  shows "\<exists>k\<le>K. leading_power base (of_nat (B ^ K)) a = of_nat (B ^ k) \<and>
           (k = 0 \<or> B ^ k \<le> unat a) \<and> unat a < B ^ Suc k"
  using a(2) K
proof (induction K)
  case 0
  have "unat a \<noteq> 0" using a(1) by (simp add: unat_0_iff)
  then have "\<not> a < 1" by (simp add: word_less_nat_alt)
  then show ?case using 0 by (subst leading_power.simps) simp
next
  case (Suc K)
  have u: "unat (of_nat (B ^ Suc K) :: u32) = B ^ Suc K"
    using Suc.prems(2) by (rule unat_of_nat_32)
  have less: "a < of_nat (B ^ Suc K) \<longleftrightarrow> unat a < B ^ Suc K"
    by (simp add: word_less_nat_alt u del: power_Suc of_nat_power)
  have b1: "1 < base" using base by (simp add: word_less_nat_alt)
  show ?case
  proof (cases "unat a < B ^ Suc K")
    case True
    have K: "B ^ K < 4294967296"
      using Suc.prems(2) base(1) power_increasing [of K "Suc K" B] by linarith
    have "unat (of_nat (B ^ Suc K) div base) = B ^ K"
      using base(1) by (simp only: unat_div u base(2)) simp
    then have "of_nat (B ^ Suc K) div base = of_nat (B ^ K)"
      using K by (simp only: word_unat_eq_iff unat_of_nat_32)
    then have "leading_power base (of_nat (B ^ Suc K)) a = leading_power base (of_nat (B ^ K)) a"
      using True less b1 by (subst leading_power.simps) (simp del: power_Suc of_nat_power)
    with Suc.IH [OF True K] show ?thesis by (auto intro: le_SucI)
  next
    case False
    then have "leading_power base (of_nat (B ^ Suc K)) a = of_nat (B ^ Suc K)"
      using less by (subst leading_power.simps) (simp del: power_Suc of_nat_power)
    with False Suc.prems show ?thesis by auto
  qed
qed

text \<open>The second loop prints the digits from that power down.\<close>

lemma small_digit:
  assumes "d < 16"
  shows "ucast (of_nat d + 48 :: u32) = (of_nat (48 + d) :: u8)"
    and "(ucast (of_nat d :: u32) :: u8) = of_nat d" and "unat (of_nat d :: u8) = d"
proof -
  show "(ucast (of_nat d :: u32) :: u8) = of_nat d" and "unat (of_nat d :: u8) = d"
    using assms by (simp_all add: word_unat_eq_iff unsigned_ucast_eq take_bit_eq_mod unat_of_nat)
  show "ucast (of_nat d + 48 :: u32) = (of_nat (48 + d) :: u8)"
    using assms by (simp add: word_unat_eq_iff unsigned_ucast_eq take_bit_eq_mod unat_of_nat unat_word_ariths)
qed

lemma power_step:
  assumes "0 < B" and "B ^ k < 4294967296" and "unat a < B ^ Suc k"
  shows "a div of_nat (B ^ k) = of_nat (unat a div B ^ k)"
    and "unat (a mod of_nat (B ^ k) :: u32) = unat a mod B ^ k"
    and "unat a div B ^ k < B"
  using assms
  by (simp_all add: word_unat_eq_iff unat_div unat_mod unat_of_nat_32 div_less_iff_less_mult
      le_less_trans [OF div_le_dividend unat_less_2p32] del: of_nat_power)

lemma power_div_base:
  assumes "1 < B" "unat base = B" "B ^ Suc k < 4294967296"
  shows "of_nat (B ^ Suc k) div base = (of_nat (B ^ k) :: u32)"
proof -
  have "B ^ k < 4294967296"
    using assms power_increasing [of k "Suc k" B] by linarith
  then have "unat (of_nat (B ^ Suc k) div base) = unat (of_nat (B ^ k) :: u32)"
    using assms by (simp only: unat_div unat_of_nat_32) simp
  then show ?thesis by (simp only: word_unat_eq_iff)
qed

lemma power_not_0: "0 < B \<Longrightarrow> B ^ k < 4294967296 \<Longrightarrow> of_nat (B ^ k) \<noteq> (0 :: u32)"
  by (simp only: word_unat_eq_iff unat_of_nat_32 unat_0) simp

lemma puti_digits_eq:
  assumes "10 ^ k < (4294967296 :: nat)" and "unat a < 10 ^ Suc k"
  shows "puti_digits a (of_nat (10 ^ k)) s = fold putc (map (\<lambda>d. of_nat (48 + d)) (pad 10 k (unat a))) s"
  using assms
proof (induction k arbitrary: a s)
  case 0
  have "puti_digits a 1 s = puti_digits 0 0 (putc (ucast (a + 48)) s)"
    by (subst puti_digits.simps) (simp add: word_unat_eq_iff unat_mod unat_div)
  moreover have "(ucast (a + 48) :: u8) = of_nat (48 + unat a)"
    using small_digit(1) [of "unat a"] 0 by simp
  ultimately show ?case by (simp add: puti_digits.simps [of 0 0])
next
  case (Suc k)
  let ?b = "of_nat (10 ^ Suc k) :: u32"
  note step = power_step [OF _ Suc.prems]
  have "puti_digits a ?b s
      = puti_digits (a mod ?b) (?b div 10) (putc (ucast (a div ?b + 48)) s)"
    using power_not_0 [OF _ Suc.prems(1)] by (subst puti_digits.simps) simp
  also have "?b div 10 = of_nat (10 ^ k)"
    using Suc.prems(1) by (intro power_div_base) simp_all
  also have "(ucast (a div ?b + 48) :: u8) = of_nat (48 + unat a div 10 ^ Suc k)"
    unfolding step(1) [OF zero_less_numeral] using step(3) by (intro small_digit) simp
  finally show ?case
    using Suc.IH [of "a mod ?b"] Suc.prems step(2) by simp
qed

lemma hex_char:
  assumes "d < 16"
  shows "(if 9 < (of_nat d :: u8) then putc (64 + (of_nat d - 9)) s
          else putc (ucast (of_nat d + 48 :: u32)) s) = putc (digit_char d) s"
proof -
  have "9 < (of_nat d :: u8) \<longleftrightarrow> 9 < d"
    using assms by (simp add: word_less_nat_alt small_digit)
  then show ?thesis
    using small_digit(1) [OF assms] by (auto simp: digit_char_def algebra_simps)
qed

lemma puth_digits_step:
  assumes d: "d < 16" and q: "a div b = of_nat d" and "b \<noteq> 0"
  shows "puth_digits a b s = puth_digits (a mod b) (b div 16) (putc (digit_char d) s)"
  using assms(3) hex_char [OF d, of s] small_digit(2) [OF d]
  by (subst puth_digits.simps) (simp only: Let_def q, simp)

lemma puth_digits_eq:
  assumes "16 ^ k < (4294967296 :: nat)" and "unat a < 16 ^ Suc k"
  shows "puth_digits a (of_nat (16 ^ k)) s = fold putc (map digit_char (pad 16 k (unat a))) s"
  using assms
proof (induction k arbitrary: a s)
  case 0
  then have "puth_digits a 1 s = puth_digits 0 0 (putc (digit_char (unat a)) s)"
    by (subst puth_digits_step [of "unat a"]) (simp_all add: word_unat_eq_iff unat_mod unat_div)
  then show ?case by (simp add: puth_digits.simps [of 0 0])
next
  case (Suc k)
  let ?b = "of_nat (16 ^ Suc k) :: u32"
  note step = power_step [OF _ Suc.prems]
  have "puth_digits a ?b s
      = puth_digits (a mod ?b) (?b div 16) (putc (digit_char (unat a div 16 ^ Suc k)) s)"
    using step(1,3) power_not_0 [OF _ Suc.prems(1)] by (intro puth_digits_step) simp_all
  also have "?b div 16 = of_nat (16 ^ k)"
    using Suc.prems(1) by (intro power_div_base) simp_all
  finally show ?case
    using Suc.IH [of "a mod ?b"] Suc.prems step(2) by simp
qed

lemma puti_eq: "puti a s = fold putc (map (\<lambda>d. of_nat (48 + d)) (digits 10 (unat a))) s"
proof (cases "a = 0")
  case True
  then show ?thesis by (simp add: puti_def digits.simps)
next
  case False
  obtain k where k: "k \<le> 9" "leading_power 10 (of_nat (10 ^ 9)) a = of_nat (10 ^ k)"
    "k = 0 \<or> 10 ^ k \<le> unat a" "unat a < 10 ^ Suc k"
    using leading_power_eq [of 10 10 a 9] False unat_less_2p32 [of a] by auto
  have "(10 :: nat) ^ k \<le> 10 ^ 9" using k(1) by (intro power_increasing) simp_all
  then have "puti_digits a (of_nat (10 ^ k)) s
      = fold putc (map (\<lambda>d. of_nat (48 + d)) (pad 10 k (unat a))) s"
    using k(4) by (intro puti_digits_eq) simp_all
  moreover have "digits 10 (unat a) = pad 10 k (unat a)"
    using k by (intro digits_pad) simp_all
  ultimately show ?thesis using False k(2) by (simp add: puti_def)
qed

lemma puth_eq:
  "puth a s = fold putc (map digit_char (digits 16 (unat a))) (puts (str ''0x'') s)"
proof (cases "a = 0")
  case True
  then show ?thesis by (simp add: puth_def digits.simps digit_char_def)
next
  case False
  obtain k where k: "k \<le> 7" "leading_power 16 (of_nat (16 ^ 7)) a = of_nat (16 ^ k)"
    "k = 0 \<or> 16 ^ k \<le> unat a" "unat a < 16 ^ Suc k"
    using leading_power_eq [of 16 16 a 7] False unat_less_2p32 [of a] by auto
  have "(16 :: nat) ^ k \<le> 16 ^ 7" using k(1) by (intro power_increasing) simp_all
  then have "puth_digits a (of_nat (16 ^ k)) t
      = fold putc (map digit_char (pad 16 k (unat a))) t" for t :: "'a screen_scheme"
    using k(4) by (intro puth_digits_eq) simp_all
  moreover have "digits 16 (unat a) = pad 16 k (unat a)"
    using k by (intro digits_pad) simp_all
  ultimately show ?thesis using False k(2) by (simp add: puth_def)
qed

interpretation puti: console_printer puti
  by unfold_locales (simp add: puti_eq putc.fold_step)

interpretation puth: console_printer puth
proof unfold_locales
  fix s :: "'a screen_scheme" and a
  assume s: "cursor_ok s"
  let ?t = "puts (str ''0x'') s"
  have "console_step s ?t" using s by (rule puts.step)
  moreover from this have "console_step ?t (puth a s)"
    unfolding puth_eq by (intro putc.fold_step) (simp add: console_step_def)
  ultimately show "console_step s (puth a s)"
    by (auto simp: console_step_def intro: console_frame_trans)
qed

end
