(* ===== verification/KHeap.thy ===== *)
theory KHeap
  imports ScreenNumbers
begin

text \<open>
  \<open>p_mode/memory_management/kernel/kheap.c\<close>: the kernel's bump allocator. \<open>place_addr\<close> is the
  first free address; nothing is ever given back. The lemmas say where a block lies: a block
  starts at or above the old \<open>place_addr\<close>, ends at the new one, and blocks handed out one after
  the other are disjoint.
\<close>

record kheap = screen +
  place_addr :: u32

text \<open>The initial value of the global.\<close>

definition place_addr_init :: u32 where "place_addr_init = 0xF0000"

function align_loop :: "u32 \<Rightarrow> u32" where
  "align_loop p = (if p mod 0x1000 \<noteq> 0 then align_loop (p + 1) else p)"
  by pat_completeness auto

lemma unat_Suc_mod_page: "unat (p + 1 :: u32) mod 4096 = (unat p + 1) mod 4096"
proof -
  have "unat (p + 1) = (unat p + 1) mod 4294967296"
    by (simp add: unat_word_ariths)
  then show ?thesis by (simp add: mod_mod_cancel)
qed

lemma mod_page_0_iff: "p mod 0x1000 = 0 \<longleftrightarrow> unat (p :: u32) mod 4096 = 0"
  by (simp add: word_unat_eq_iff unat_mod)

lemma page_distance:
  assumes "r \<noteq> 0" "r < 4096"
  shows "(4096 - (r + 1) mod 4096) mod 4096 < (4096 - r) mod (4096 :: nat)"
  using assms by (cases "r = 4095") auto

termination align_loop
proof (relation "measure (\<lambda>p. (4096 - unat p mod 4096) mod 4096)")
  fix p :: u32 assume "p mod 0x1000 \<noteq> 0"
  then have "unat p mod 4096 \<noteq> 0" by (simp add: mod_page_0_iff)
  from page_distance [OF this] show "(p + 1, p) \<in> measure (\<lambda>p. (4096 - unat p mod 4096) mod 4096)"
    by (simp add: in_measure unat_Suc_mod_page mod_Suc_eq)
qed simp

declare align_loop.simps [simp del]

definition kmalloc_all :: "u32 \<Rightarrow> bool \<Rightarrow> u32 \<Rightarrow> 'a kheap_scheme \<Rightarrow> u32 \<times> 'a kheap_scheme" where
  "kmalloc_all sz align physAddr s =
     (let s = (if align \<and> place_addr s mod 0x1000 \<noteq> 0
               then s\<lparr>place_addr := align_loop (place_addr s)\<rparr> else s);
          s = (if physAddr \<noteq> 0 then store32 physAddr (place_addr s) s else s);
          toRet = place_addr s
      in (toRet, s\<lparr>place_addr := place_addr s + sz\<rparr>))"

definition kmalloc_a :: "u32 \<Rightarrow> 'a kheap_scheme \<Rightarrow> u32 \<times> 'a kheap_scheme" where
  "kmalloc_a sz = kmalloc_all sz True 0"

definition kmalloc_ap :: "u32 \<Rightarrow> u32 \<Rightarrow> 'a kheap_scheme \<Rightarrow> u32 \<times> 'a kheap_scheme" where
  "kmalloc_ap sz physAddr = kmalloc_all sz True physAddr"

definition kmalloc :: "u32 \<Rightarrow> 'a kheap_scheme \<Rightarrow> u32 \<times> 'a kheap_scheme" where
  "kmalloc sz = kmalloc_all sz False 0"

section \<open>Alignment\<close>

text \<open>The least multiple of the page size that is not below \<open>n\<close>.\<close>

definition page_up :: "nat \<Rightarrow> nat" where
  "page_up n = (n + 4095) div 4096 * 4096"

lemma page_up_ge: "n \<le> page_up n" and page_up_lt: "page_up n < n + 4096"
  and page_up_mod: "page_up n mod 4096 = 0"
proof -
  have "(n + 4095) div 4096 * 4096 + (n + 4095) mod 4096 = n + 4095"
    and "(n + 4095) mod 4096 < 4096"
    by (rule div_mult_mod_eq, simp)
  then show "n \<le> page_up n" "page_up n < n + 4096"
    unfolding page_up_def by linarith+
qed (simp add: page_up_def)

lemma page_up_aligned [simp]: "n mod 4096 = 0 \<Longrightarrow> page_up n = n"
proof -
  assume "n mod 4096 = 0"
  then obtain q where "n = 4096 * q" by (auto elim!: dvdE simp: mod_eq_0_iff_dvd)
  then show ?thesis by (simp add: page_up_def)
qed

lemma page_up_Suc: "n mod 4096 \<noteq> 0 \<Longrightarrow> page_up (Suc n) = page_up n"
proof -
  assume n: "n mod 4096 \<noteq> 0"
  define q r where "q = n div 4096" and "r = n mod 4096"
  then have n: "n + 4095 = (r + 4095) + q * 4096" "Suc n + 4095 = (r + 4096) + q * 4096"
    "r < 4096" "0 < r" using n by simp_all
  moreover have "(r + 4095) div 4096 = 1" "(r + 4096) div 4096 = 1"
    using n by (auto intro!: div_nat_eqI)
  ultimately show ?thesis by (simp only: page_up_def n(1,2) div_mult_self1)
qed

lemma align_loop_eq:
  "page_up (unat p) < 4294967296 \<Longrightarrow> unat (align_loop p) = page_up (unat p)"
proof (induction p rule: align_loop.induct)
  case (1 p)
  show ?case
  proof (cases "p mod 0x1000 = 0")
    case True
    then show ?thesis by (subst align_loop.simps) (simp add: mod_page_0_iff)
  next
    case False
    then have m: "unat p mod 4096 \<noteq> 0" by (simp add: mod_page_0_iff)
    then have "unat p \<noteq> page_up (unat p)" using page_up_mod by metis
    then have "unat (p + 1) = unat p + 1"
      using 1(2) page_up_ge [of "unat p"] by (simp add: unat_word_ariths)
    then have "unat (align_loop (p + 1)) = page_up (unat p)"
      using 1(1) [OF False] 1(2) page_up_Suc [OF m] by simp
    then show ?thesis using False by (subst align_loop.simps) simp
  qed
qed

section \<open>The interface of an allocator\<close>

text \<open>
  \<open>fits sz s\<close> says that the address space has room for the block; \<open>start sz s\<close> is where it
  begins.
\<close>

locale bump_allocator =
  fixes alloc :: "u32 \<Rightarrow> 'a kheap_scheme \<Rightarrow> u32 \<times> 'a kheap_scheme"
    and start :: "'a kheap_scheme \<Rightarrow> nat"
  assumes alloc_eq: "start s < 4294967296 \<Longrightarrow>
      alloc sz s = (of_nat (start s), s\<lparr>place_addr := of_nat (start s) + sz\<rparr>)"
    and start_ge: "unat (place_addr s) \<le> start s"
begin

abbreviation fits :: "u32 \<Rightarrow> 'a kheap_scheme \<Rightarrow> bool" where
  "fits sz s \<equiv> start s + unat sz < 4294967296"

lemma block_bounds:
  assumes "fits sz s" and "alloc sz s = (p, t)"
  shows "unat p = start s" and "unat (place_addr s) \<le> unat p"
    and "unat (place_addr t) = unat p + unat sz"
    and "t = s\<lparr>place_addr := place_addr t\<rparr>"
proof -
  have "alloc sz s = (of_nat (start s), s\<lparr>place_addr := of_nat (start s) + sz\<rparr>)"
    using assms(1) by (intro alloc_eq) simp
  with assms(2) have p: "p = of_nat (start s)" "t = s\<lparr>place_addr := of_nat (start s) + sz\<rparr>"
    by auto
  show u: "unat p = start s" using assms(1) by (simp add: p unat_of_nat_32)
  then show "unat (place_addr s) \<le> unat p" by (simp add: start_ge)
  show "unat (place_addr t) = unat p + unat sz"
    using assms(1) u p by (simp add: unat_add_no_wrap)
  show "t = s\<lparr>place_addr := place_addr t\<rparr>" by (simp add: p)
qed

text \<open>The block lies above everything below the old \<open>place_addr\<close>, in particular above every
  block handed out before.\<close>

lemma block_above:
  assumes "fits sz s" and "alloc sz s = (p, t)" and "unat b + n \<le> unat (place_addr s)"
  shows "region b n \<inter> region p (unat sz) = {}"
  using block_bounds [OF assms(1,2)] assms(1,3) by (intro region_disjoint) simp_all

end

lemma kmalloc_a_eq:
  assumes "page_up (unat (place_addr s)) < 4294967296"
  shows "kmalloc_a sz s = (of_nat (page_up (unat (place_addr s))),
     s\<lparr>place_addr := of_nat (page_up (unat (place_addr s))) + sz\<rparr>)"
proof -
  have "of_nat (page_up (unat (place_addr s))) = align_loop (place_addr s)"
    by (simp add: align_loop_eq [OF assms, symmetric])
  moreover have "align_loop (place_addr s) = place_addr s" if "place_addr s mod 0x1000 = 0"
    using that by (subst align_loop.simps) simp
  ultimately show ?thesis by (simp add: kmalloc_a_def kmalloc_all_def Let_def)
qed

lemma kmalloc_eq: "kmalloc sz s = (place_addr s, s\<lparr>place_addr := place_addr s + sz\<rparr>)"
  by (simp add: kmalloc_def kmalloc_all_def)

interpretation kmalloc: bump_allocator kmalloc "\<lambda>s. unat (place_addr s)"
  by unfold_locales (simp_all add: kmalloc_eq)

interpretation kmalloc_a: bump_allocator kmalloc_a "\<lambda>s. page_up (unat (place_addr s))"
  by unfold_locales (simp_all add: kmalloc_a_eq page_up_ge)

end
