(* ===== verification/Idt.thy ===== *)
theory Idt
  imports KHeap
begin

text \<open>
  \<open>p_mode/interrupts/idt.c\<close>, and the parts of \<open>isrs.c\<close> and \<open>irq.c\<close> that install gates and
  handlers: the interrupt descriptor table, an array of 256 packed 8-byte entries in kernel
  memory, the array \<open>fault_handlers\<close> of 32 pointers, and the table \<open>irq_routines\<close> of 16
  pointers. A function pointer is its address; the addresses the linker chooses (those of the
  assembly stubs of \<open>idt.asm\<close> among them) are a parameter of the model, the record \<open>symbols\<close>.
\<close>

record symbols =
  sym_isr :: "nat \<Rightarrow> u32"
  sym_irq :: "nat \<Rightarrow> u32"
  sym_page_fault_handler :: u32
  sym_divideByZero :: u32
  sym_timer_handler :: u32
  sym_keyboard_handler :: u32

record ints = kheap +
  idt :: u32
  idtp_limit :: u16
  idtp_base :: u32
  idtr :: "(u16 \<times> u32) option"
  interrupts_on :: bool
  fault_handlers :: u32
  irq_routines :: "u32 list"

section \<open>Gates\<close>

definition idt_set_gate :: "u8 \<Rightarrow> u32 \<Rightarrow> u16 \<Rightarrow> u8 \<Rightarrow> 'a ints_scheme \<Rightarrow> 'a ints_scheme" where
  "idt_set_gate num base sel flags s =
     (let e = idt s + 8 * ucast num;
          s = store16 (e + 6) (ucast (drop_bit 16 base AND 0xFFFF)) s;
          s = store16 e (ucast (base AND 0xFFFF)) s;
          s = store16 (e + 2) sel s;
          s = store8 (e + 5) flags s
      in store8 (e + 4) 0 s)"

definition isrs_install :: "symbols \<Rightarrow> 'a ints_scheme \<Rightarrow> 'a ints_scheme" where
  "isrs_install syms s =
     (let (p, s) = kmalloc (4 * 32) s;
          s = s\<lparr>fault_handlers := p\<rparr>;
          s = memset p 0 (4 * 32) s
      in fold (\<lambda>n. idt_set_gate (of_nat n) (sym_isr syms n) 0x08 0x8E) [0..<32] s)"

definition register_fault_handler :: "u32 \<Rightarrow> u32 \<Rightarrow> 'a ints_scheme \<Rightarrow> 'a ints_scheme" where
  "register_fault_handler fault_no fnc s = store32 (fault_handlers s + 4 * fault_no) fnc s"

section \<open>Hardware interrupts\<close>

definition irq_remap :: "'a machine_scheme \<Rightarrow> 'a machine_scheme" where
  "irq_remap s =
     outb 0xA1 0x0 (outb 0x21 0x0
       (outb 0xA1 0x01 (outb 0x21 0x01
         (outb 0xA1 0x02 (outb 0x21 0x04
           (outb 0xA1 0x28 (outb 0x21 0x20
             (outb 0xA0 0x11 (outb 0x20 0x11 s)))))))))"

definition irq_install :: "symbols \<Rightarrow> 'a ints_scheme \<Rightarrow> 'a ints_scheme" where
  "irq_install syms s =
     fold (\<lambda>n. idt_set_gate (of_nat (32 + n)) (sym_irq syms n) 0x08 0x8E) [0..<16] (irq_remap s)"

text \<open>\<open>irq_routines[irq] = handler\<close>, with the index in the array; C leaves the write undefined
  elsewhere, and the model then gives no result.\<close>

definition irq_install_handler :: "u8 \<Rightarrow> u32 \<Rightarrow> 'a ints_scheme \<Rightarrow> 'a ints_scheme option" where
  "irq_install_handler irq handler s =
     (if unat irq < length (irq_routines s)
      then Some (s\<lparr>irq_routines := (irq_routines s)[unat irq := handler]\<rparr>) else None)"

definition irq_uninstall_handler :: "u8 \<Rightarrow> 'a ints_scheme \<Rightarrow> 'a ints_scheme option" where
  "irq_uninstall_handler irq s =
     (if unat irq < length (irq_routines s)
      then Some (s\<lparr>irq_routines := (irq_routines s)[unat irq := 0]\<rparr>) else None)"

text \<open>\<open>idt_load\<close> is two instructions of \<open>idt.asm\<close>: \<open>lidt\<close> of \<open>idtp\<close>, then \<open>sti\<close>.\<close>

definition idt_install :: "symbols \<Rightarrow> 'a ints_scheme \<Rightarrow> 'a ints_scheme" where
  "idt_install syms s =
     (let (p, s) = kmalloc_a (8 * 0x100) s;
          s = s\<lparr>idt := p\<rparr>;
          s = memset p 0 (8 * 0x100) s;
          s = s\<lparr>idtp_limit := 8 * 0x100 - 1, idtp_base := p\<rparr>;
          s = isrs_install syms s;
          s = irq_install syms s
      in s\<lparr>idtr := Some (idtp_limit s, idtp_base s), interrupts_on := True\<rparr>)"

end
