(* ===== verification/Paging.thy ===== *)
theory Paging
  imports Idt
begin

text \<open>
  \<open>p_mode/memory_management/kernel/paging.c\<close>: the bitset \<open>frames\<close> of allocated physical
  frames, page directories and page tables in memory, and the control registers. A directory is
  1024 words at a page boundary; the entry of a table is its address with the flags present (1),
  writeable (2) and user (4) in the low bits, and so is the entry of a page.
\<close>

definition PAGE_SIZE :: u32 where "PAGE_SIZE = 4096"
definition TABLES_PER_DIRECTORY :: u32 where "TABLES_PER_DIRECTORY = 1024"
definition PAGES_PER_TABLE :: u32 where "PAGES_PER_TABLE = 1024"
definition KERNEL_MEM_END :: u32 where "KERNEL_MEM_END = 0xFF0000"

definition TABLE_INDEX_FROM_VIRTUAL_ADDRESS :: "u32 \<Rightarrow> u32" where
  "TABLE_INDEX_FROM_VIRTUAL_ADDRESS a = drop_bit 22 a"

definition PAGE_INDEX_FROM_VIRTUAL_ADDRESS :: "u32 \<Rightarrow> u32" where
  "PAGE_INDEX_FROM_VIRTUAL_ADDRESS a = drop_bit 12 a AND 0x3FF"

record paging = ints +
  frames :: u32
  kernel_directory :: u32
  current_dir :: u32
  cr0 :: u32
  cr2 :: u32
  cr3 :: u32

section \<open>The bitset of frames\<close>

definition nframes :: u32 where "nframes = PAGES_PER_TABLE * TABLES_PER_DIRECTORY"

definition INDEX_FROM_BIT :: "u32 \<Rightarrow> u32" where "INDEX_FROM_BIT a = a div 32"
definition OFFSET_FROM_BIT :: "u32 \<Rightarrow> u32" where "OFFSET_FROM_BIT a = a mod 32"
definition INDEX_FROM_ADDRESS :: "u32 \<Rightarrow> u32" where
  "INDEX_FROM_ADDRESS a = INDEX_FROM_BIT (a div PAGE_SIZE)"
definition OFFSET_FROM_ADDRESS :: "u32 \<Rightarrow> u32" where
  "OFFSET_FROM_ADDRESS a = OFFSET_FROM_BIT (a div PAGE_SIZE)"

definition write_bitset :: "u32 \<Rightarrow> u32 \<Rightarrow> 'a paging_scheme \<Rightarrow> 'a paging_scheme" where
  "write_bitset phys_addr toWrite s =
     (let b = push_bit (unat (OFFSET_FROM_ADDRESS phys_addr)) 1;
          a = (if toWrite \<noteq> 0 then b else NOT b);
          p = frames s + 4 * INDEX_FROM_ADDRESS phys_addr
      in if toWrite \<noteq> 0 then store32 p (ld32 (mem s) p OR a) s
         else store32 p (ld32 (mem s) p AND a) s)"

definition get_bitset :: "u32 \<Rightarrow> 'a paging_scheme \<Rightarrow> u32" where
  "get_bitset phys_addr s =
     (let k = unat (OFFSET_FROM_ADDRESS phys_addr)
      in drop_bit k (ld32 (mem s) (frames s + 4 * INDEX_FROM_ADDRESS phys_addr) AND push_bit k 1))"

text \<open>The two loops of \<open>first_free_frame\<close>, over the words of the bitset and over the bits of a
  word.\<close>

function free_bit :: "u32 \<Rightarrow> nat \<Rightarrow> nat option" where
  "free_bit w j =
     (if j < 32 then (if w AND push_bit j 1 = 0 then Some j else free_bit w (Suc j)) else None)"
  by pat_completeness auto
termination
  by (relation "measure (\<lambda>(w, j). 32 - j)") auto

function scan_frames :: "mem \<Rightarrow> u32 \<Rightarrow> nat \<Rightarrow> u32 option" where
  "scan_frames m fr i =
     (if i < unat (INDEX_FROM_BIT nframes) then
        let w = ld32 m (fr + 4 * of_nat i) in
        if w \<noteq> 0xFFFFFFFF then
          (case free_bit w 0 of
             Some j \<Rightarrow> Some ((of_nat i * 32 + of_nat j) * PAGE_SIZE)
           | None \<Rightarrow> scan_frames m fr (Suc i))
        else scan_frames m fr (Suc i)
      else None)"
  by pat_completeness auto
termination
  by (relation "measure (\<lambda>(m, fr, i). unat (INDEX_FROM_BIT nframes) - i)") auto

declare free_bit.simps [simp del] scan_frames.simps [simp del]

definition nl :: char where "nl = CHR 0x0A"

definition first_free_frame :: "'a paging_scheme \<Rightarrow> (u32, 'a paging_scheme) result" where
  "first_free_frame s =
     (case scan_frames (mem s) (frames s) 0 of
        Some a \<Rightarrow> Some (Ret a s)
      | None \<Rightarrow> Some (Halt (puts (str (''No free frames! System Halted!'' @ [nl])) s)))"

section \<open>Mapping pages\<close>

definition page_entry_flags :: "bool \<Rightarrow> bool \<Rightarrow> u32" where
  "page_entry_flags is_writeable is_kernel =
     (if is_writeable then 2 else 0) + (if is_kernel then 0 else 4) + 1"

text \<open>The address of the entry \<open>directory[tableIndex]\<close>, and of \<open>table_ptr[pageIndex]\<close> for the
  table that the entry names.\<close>

definition dir_entry :: "u32 \<Rightarrow> u32 \<Rightarrow> u32" where
  "dir_entry directory vaddr = directory + 4 * TABLE_INDEX_FROM_VIRTUAL_ADDRESS vaddr"

definition table_entry :: "mem \<Rightarrow> u32 \<Rightarrow> u32 \<Rightarrow> u32" where
  "table_entry m directory vaddr =
     (ld32 m (dir_entry directory vaddr) AND 0xFFFFF000) + 4 * PAGE_INDEX_FROM_VIRTUAL_ADDRESS vaddr"

definition add_frame_to_kernel_dir :: "u32 \<Rightarrow> 'a paging_scheme \<Rightarrow> 'a paging_scheme" where
  "add_frame_to_kernel_dir frame_addr s =
     (let e = dir_entry (kernel_directory s) frame_addr;
          s = (if ld32 (mem s) e AND 1 = 0 then
                 let (table, s) = kmalloc_a (4 * PAGES_PER_TABLE) s;
                     s = store32 e table s
                 in store32 e (ld32 (mem s) e OR (0x1 + 0x2)) s
               else s);
          p = table_entry (mem s) (kernel_directory s) frame_addr
      in if ld32 (mem s) p AND 1 \<noteq> 0 then s else store32 p (frame_addr OR (0x1 + 0x2)) s)"

text \<open>The end of \<open>alloc_page_pr\<close>, once the table is there.\<close>

definition map_frame :: "u32 \<Rightarrow> u32 \<Rightarrow> u32 \<Rightarrow> bool \<Rightarrow> bool \<Rightarrow> 'a paging_scheme \<Rightarrow> 'a paging_scheme" where
  "map_frame directory vaddr phys_addr is_writeable is_kernel s =
     (let entry = phys_addr OR page_entry_flags is_writeable is_kernel;
          s = store32 (table_entry (mem s) directory vaddr) entry s;
          s = write_bitset phys_addr 1 s
      in if directory \<noteq> kernel_directory s then add_frame_to_kernel_dir phys_addr s else s)"

text \<open>The new table of \<open>alloc_page_pr\<close>: aligned for the kernel's directory only.\<close>

definition new_table :: "u32 \<Rightarrow> u32 \<Rightarrow> bool \<Rightarrow> bool \<Rightarrow> 'a paging_scheme \<Rightarrow> 'a paging_scheme" where
  "new_table directory vaddr is_writeable is_kernel s =
     (let e = dir_entry directory vaddr;
          (table_addr, s) = (if directory = kernel_directory s then kmalloc_a (4 * PAGES_PER_TABLE) s
                             else kmalloc (4 * PAGES_PER_TABLE) s);
          s = store32 e (table_addr OR ((if is_writeable then 2 else 0) OR (if is_kernel then 0 else 4) OR 1)) s
      in memset (ld32 (mem s) e AND 0xFFFFF000) 0 (PAGES_PER_TABLE * 4) s)"

definition alloc_page_pr ::
  "u32 \<Rightarrow> u32 \<Rightarrow> u32 \<Rightarrow> u32 \<Rightarrow> u32 \<Rightarrow> u32 \<Rightarrow> 'a paging_scheme \<Rightarrow> (u32, 'a paging_scheme) result" where
  "alloc_page_pr directory vaddr phys_addr is_writeable is_kernel is_privileged s =
     (if ld32 (mem s) (frames s + 4 * INDEX_FROM_ADDRESS phys_addr)
           AND push_bit (unat (OFFSET_FROM_ADDRESS phys_addr)) 1 \<noteq> 0 then
        Some (Ret (-1) (puts (str ('' is not free.'' @ [nl])) (puth phys_addr
          (puts (str (nl # ''Physical page: '')) s))))
      else if ld32 (mem s) (dir_entry directory vaddr) AND 1 = 0 then
        and_then (first_free_frame (new_table directory vaddr (is_writeable \<noteq> 0) (is_kernel \<noteq> 0) s))
          (\<lambda>phys_addr s.
            if phys_addr = -1 then
              (case printf (str (''No free frames left after allocating table_index %d of directory %x''
                      @ [nl]))
                  [VaWord (TABLE_INDEX_FROM_VIRTUAL_ADDRESS vaddr), VaWord directory] s of
                 None \<Rightarrow> None | Some s \<Rightarrow> Some (Ret (-1) s))
            else Some (Ret phys_addr
                   (map_frame directory vaddr phys_addr (is_writeable \<noteq> 0) (is_kernel \<noteq> 0) s)))
      else Some (Ret phys_addr
             (map_frame directory vaddr phys_addr (is_writeable \<noteq> 0) (is_kernel \<noteq> 0) s)))"

definition alloc_page :: "u32 \<Rightarrow> u32 \<Rightarrow> u32 \<Rightarrow> u32 \<Rightarrow> 'a paging_scheme \<Rightarrow> (u32, 'a paging_scheme) result" where
  "alloc_page directory vaddr is_writeable is_kernel s =
     and_then (first_free_frame s)
       (\<lambda>frame s. alloc_page_pr directory vaddr frame is_writeable is_kernel 0 s)"

definition free_page :: "u32 \<Rightarrow> u32 \<Rightarrow> 'a paging_scheme \<Rightarrow> 'a paging_scheme" where
  "free_page directory vaddr s =
     (let table = ld32 (mem s) (dir_entry directory vaddr);
          phys_addr = ld32 (mem s) (table + 4 * PAGE_INDEX_FROM_VIRTUAL_ADDRESS vaddr)
                        AND NOT 0xFFFFF000
      in write_bitset phys_addr 0 s)"

definition get_page :: "u32 \<Rightarrow> u32 \<Rightarrow> 'a paging_scheme \<Rightarrow> u32" where
  "get_page directory vaddr s = ld32 (mem s) (table_entry (mem s) directory vaddr)"

section \<open>Directories\<close>

definition switch_page_directory :: "u32 \<Rightarrow> 'a paging_scheme \<Rightarrow> 'a paging_scheme" where
  "switch_page_directory dir s = s\<lparr>current_dir := dir, cr3 := dir\<rparr>"

definition enable_paging :: "'a paging_scheme \<Rightarrow> 'a paging_scheme" where
  "enable_paging s = s\<lparr>cr0 := cr0 s OR 0x80000000\<rparr>"

text \<open>The loop \<open>while(i < KERNEL_MEM_END) { ...; i += PAGE_SIZE; }\<close> of \<open>init_paging\<close>.\<close>

function map_kernel :: "u32 \<Rightarrow> 'a paging_scheme \<Rightarrow> (unit, 'a paging_scheme) result" where
  "map_kernel i s =
     (if i < KERNEL_MEM_END then
        and_then (alloc_page (kernel_directory s) i 1 1 s) (\<lambda>_ s. map_kernel (i + PAGE_SIZE) s)
      else Some (Ret () s))"
  by pat_completeness auto

lemma kernel_loop_decreases:
  "i < KERNEL_MEM_END \<Longrightarrow> 0xFF0000 - unat (i + PAGE_SIZE) < 0xFF0000 - unat i"
  by (simp add: KERNEL_MEM_END_def PAGE_SIZE_def word_less_nat_alt unat_add_no_wrap)

termination map_kernel
  by (relation "measure (\<lambda>(i, s). 0xFF0000 - unat i)") (use kernel_loop_decreases in auto)

declare map_kernel.simps [simp del]

definition init_paging :: "symbols \<Rightarrow> 'a paging_scheme \<Rightarrow> (unit, 'a paging_scheme) result" where
  "init_paging syms s =
     (let (kd, s) = kmalloc_a (4 * TABLES_PER_DIRECTORY) s;
          s = s\<lparr>kernel_directory := kd\<rparr>;
          s = memset kd 0 (4 * TABLES_PER_DIRECTORY) s;
          (fr, s) = kmalloc_a (4 * INDEX_FROM_BIT nframes) s;
          s = s\<lparr>frames := fr\<rparr>;
          s = memset fr 0 (INDEX_FROM_BIT (4 * nframes)) s
      in and_then (map_kernel 0 s) (\<lambda>_ s.
           let s = switch_page_directory (kernel_directory s) s;
               s = register_fault_handler 14 (sym_page_fault_handler syms) s
           in Some (Ret () (enable_paging s))))"

text \<open>One round of the loop of \<open>get_new_kernel_mapped_dir\<close>, for the new directory \<open>d\<close>.\<close>

definition mirror_page :: "u32 \<Rightarrow> u32 \<Rightarrow> 'a paging_scheme \<Rightarrow> 'a paging_scheme" where
  "mirror_page d i s =
     (let e = dir_entry d i;
          s = (if ld32 (mem s) e AND 1 = 0 then
                 let (table, s) = kmalloc_a (4 * PAGES_PER_TABLE) s;
                     s = store32 e table s
                 in store32 e (ld32 (mem s) e OR (0x1 + 0x2)) s
               else s)
      in store32 (table_entry (mem s) d i) (i OR (0x1 + 0x2)) s)"

function mirror_kernel :: "u32 \<Rightarrow> u32 \<Rightarrow> 'a paging_scheme \<Rightarrow> 'a paging_scheme" where
  "mirror_kernel d i s =
     (if i < KERNEL_MEM_END then mirror_kernel d (i + PAGE_SIZE) (mirror_page d i s) else s)"
  by pat_completeness auto

termination mirror_kernel
  by (relation "measure (\<lambda>(d, i, s). 0xFF0000 - unat i)") (use kernel_loop_decreases in auto)

declare mirror_kernel.simps [simp del]

definition get_new_kernel_mapped_dir :: "'a paging_scheme \<Rightarrow> u32 \<times> 'a paging_scheme" where
  "get_new_kernel_mapped_dir s =
     (let (new_dir, s) = kmalloc_a (4 * TABLES_PER_DIRECTORY) s;
          s = memset new_dir 0 (4 * TABLES_PER_DIRECTORY) s
      in (new_dir, mirror_kernel new_dir 0 s))"

section \<open>Diagnostics\<close>

text \<open>\<open>print_regs\<close> of \<open>system.c\<close>.\<close>

definition print_regs :: "regs \<Rightarrow> 'a screen_scheme \<Rightarrow> 'a screen_scheme option" where
  "print_regs r = printf
     (str (''CS: %x'' @ [CHR 0x09] @ ''DS: %x'' @ [CHR 0x09] @ ''ES: %x'' @ [CHR 0x09] @ ''FS: %x'' @ [nl]
       @ ''GS: %x'' @ [CHR 0x09] @ ''EDI: %x'' @ [CHR 0x09] @ ''ESI: %x'' @ [CHR 0x09] @ ''EBP: %x''
       @ [CHR 0x09] @ ''ESP: %x'' @ [nl]
       @ ''EBX: %x'' @ [CHR 0x09] @ ''EDX: %x'' @ [CHR 0x09] @ ''ECX: %x'' @ [CHR 0x09] @ ''EAX: %x'' @ [nl]
       @ ''INT_NO: %x'' @ [CHR 0x09] @ ''ERR_CODE: %x'' @ [CHR 0x09] @ ''EIP: %x'' @ [nl]
       @ ''EFLAGS: %x'' @ [CHR 0x09] @ ''USERESP: %x'' @ [CHR 0x09] @ ''SS: %x'' @ [CHR 0x09]))
     (map VaWord [r_cs r, r_ds r, r_es r, r_fs r, r_gs r, r_edi r, r_esi r, r_ebp r, r_esp r, r_ebx r,
       r_edx r, r_ecx r, r_eax r, r_int_no r, r_err_code r, r_eip r, r_eflags r, r_useresp r, r_ss r])"

text \<open>\<open>page_fault_handler\<close> prints its report and then stops the machine.\<close>

definition page_fault_handler :: "regs \<Rightarrow> 'a paging_scheme \<Rightarrow> (unit, 'a paging_scheme) result" where
  "page_fault_handler r s =
     (let errcode = r_err_code r; fault = cr2 s;
          say = (\<lambda>fmt args so. Option.bind so (printf (str fmt) args));
          flag = (\<lambda>k yes no. VaStr (str (if errcode AND k \<noteq> 0 then yes else no)));
          so = say (nl # ''Faulty Directory: %x'') [VaWord (cr3 s)] (Some s);
          so = say (nl # ''The fault occurred at: %x'') [VaWord fault] so;
          so = say (nl # ''The page was %spresent'' @ [nl]) [flag 1 '''' ''not ''] so;
          so = say ''The fault was a %s'' [flag 2 (''write'' @ [nl]) (''read'' @ [nl])] so;
          so = say ''Processor was running in %s'' [flag 4 (''user mode'' @ [nl]) (''kernel mode'' @ [nl])] so;
          so = say (''Reserved bits were %soverwritten.'' @ [nl]) [flag 8 ''being '' ''not being ''] so;
          so = say (''The fault %sduring an instruction fetch.'' @ [nl])
                 [flag 16 ''occurred '' ''did not occur ''] so;
          so = Option.bind so (\<lambda>s. printf (str ''Bitset at that address: %d'') [VaWord (get_bitset fault s)] s);
          so = Option.bind so (\<lambda>s. printf (str (nl # ''Page for that address: %x''))
                 [VaWord (get_page (current_dir s) fault s)] s);
          so = Option.bind so (print_regs r);
          so = say (nl # ''System Halted!'') [] so
      in case so of None \<Rightarrow> None | Some s \<Rightarrow> Some (Halt s))"

text \<open>The inner and the outer loop of \<open>print_dir\<close>.\<close>

fun print_table :: "u32 \<Rightarrow> nat \<Rightarrow> nat \<Rightarrow> u32 \<Rightarrow> 'a paging_scheme \<Rightarrow> (u32 \<times> 'a paging_scheme) option" where
  "print_table table j 0 virtual_addr s = Some (virtual_addr, s)"
| "print_table table j (Suc n) virtual_addr s =
     (let entry = ld32 (mem s) (table + 4 * of_nat j);
          so = (if entry \<noteq> 0 then printf (str (''Page for Virtual Mapping %x is %x'' @ [nl]))
                  [VaWord virtual_addr, VaWord entry] s else Some s)
      in Option.bind so (print_table table (Suc j) n (virtual_addr + PAGE_SIZE)))"

fun print_tables :: "u32 \<Rightarrow> nat \<Rightarrow> nat \<Rightarrow> u32 \<Rightarrow> 'a paging_scheme \<Rightarrow> 'a paging_scheme option" where
  "print_tables directory i 0 virtual_addr s = Some s"
| "print_tables directory i (Suc n) virtual_addr s =
     (let table = ld32 (mem s) (directory + 4 * of_nat i) AND 0xFFFFF000
      in if table \<noteq> 0 then
           Option.bind (print_table table 0 (unat PAGES_PER_TABLE) virtual_addr s)
             (\<lambda>(virtual_addr, s). print_tables directory (Suc i) n virtual_addr s)
         else print_tables directory (Suc i) n (virtual_addr + PAGE_SIZE * PAGES_PER_TABLE) s)"

definition print_dir :: "u32 \<Rightarrow> 'a paging_scheme \<Rightarrow> 'a paging_scheme option" where
  "print_dir directory = print_tables (directory AND 0xFFFFF000) 0 (unat TABLES_PER_DIRECTORY) 0"

end
