(* ===== verification/Heap.thy ===== *)
theory Heap
  imports Paging
begin

text \<open>
  \<open>include/process.h\<close> and \<open>p_mode/memory_management/kernel/heap.c\<close>: the heap of a process, a
  chain of blocks from \<open>heap_stack_boundary\<close> to its end, each a packed 6-byte header (\<open>is_free\<close>,
  16 bits; \<open>size\<close>, 32 bits) and \<open>size\<close> bytes of payload. The addresses are those of the current
  directory, which \<open>heap.h\<close> requires to be the one of the process; \<open>mem\<close> is the memory as that
  directory shows it. The operations that only move headers are functions on \<open>mem\<close>; a block
  pointer is its address, and 0 is \<open>NULL\<close>.
\<close>

record process =
  heap_stack_boundary :: u32
  heap_size :: u32
  page_directory :: u32
  pid :: u32
  last_state_regs :: regs
  priority_level :: u8

section \<open>Blocks\<close>

definition sizeof_block :: u32 where "sizeof_block = 6"

definition block_is_free :: "mem \<Rightarrow> u32 \<Rightarrow> u16" where
  "block_is_free m info = ld16 m info"

definition block_size :: "mem \<Rightarrow> u32 \<Rightarrow> u32" where
  "block_size m info = ld32 m (info + 2)"

definition set_is_free :: "u32 \<Rightarrow> u16 \<Rightarrow> mem \<Rightarrow> mem" where
  "set_is_free info v m = st16 m info v"

definition set_size :: "u32 \<Rightarrow> u32 \<Rightarrow> mem \<Rightarrow> mem" where
  "set_size info v m = st32 m (info + 2) v"

definition divide_block :: "u32 \<Rightarrow> u32 \<Rightarrow> mem \<Rightarrow> u32 \<times> mem" where
  "divide_block info new_bytes m =
     (if block_size m info - sizeof_block < new_bytes then (0, m)
      else let new_info = info + sizeof_block + new_bytes;
               m = set_size new_info (block_size m info - sizeof_block - new_bytes) m;
               m = set_size info new_bytes m
           in (new_info, m))"

section \<open>First fit\<close>

text \<open>The end of the aligned case, on the block cut off at an aligned address.\<close>

definition claim_aligned :: "u32 \<Rightarrow> u32 \<Rightarrow> u32 \<Rightarrow> mem \<Rightarrow> mem" where
  "claim_aligned new_info bytes block_end m =
     (let m = set_is_free new_info 0 m
      in if bytes + sizeof_block < block_size m new_info then
           let info_2 = new_info + sizeof_block + bytes;
               m = set_is_free info_2 1 m;
               m = set_size info_2 (block_end - info_2 - sizeof_block) m
           in set_size new_info bytes m
         else m)"

text \<open>The loop over aligned addresses in a free block: \<open>Some None\<close> is its end without a result,
  \<open>None\<close> that it never ends.\<close>

partial_function (option) find_aligned ::
  "u32 \<Rightarrow> u32 \<Rightarrow> u32 \<Rightarrow> u32 \<Rightarrow> mem \<Rightarrow> (u32 \<times> mem) option option" where
  "find_aligned info bytes block_end next_aligned_addr m =
     (if bytes \<le> block_end - next_aligned_addr then
        (if next_aligned_addr - info \<le> 2 * sizeof_block then
           find_aligned info bytes block_end (next_aligned_addr + 0x1000) m
         else
           (case divide_block info (next_aligned_addr - info - 2 * sizeof_block) m of
              (new_info, m) \<Rightarrow>
                if new_info \<noteq> 0 then Some (Some (new_info, claim_aligned new_info bytes block_end m))
                else find_aligned info bytes block_end (next_aligned_addr + 0x1000) m))
      else Some None)"

text \<open>The last branch of the loop: take the block, and cut off what is not needed.\<close>

definition claim_block :: "u32 \<Rightarrow> u32 \<Rightarrow> mem \<Rightarrow> mem" where
  "claim_block info bytes m =
     (let m = set_is_free info 0 m;
          (new_info, m) = divide_block info bytes m
      in if new_info \<noteq> 0 then set_is_free new_info 1 m else m)"

text \<open>The loop of \<open>get_free_block\<close>. The test for an aligned block is
  \<open>effective_addr + sizeof(block) % 0x1000 == 0\<close>, where \<open>%\<close> binds first.\<close>

partial_function (option) find_block ::
  "u32 \<Rightarrow> u32 \<Rightarrow> u32 \<Rightarrow> u8 \<Rightarrow> u32 \<Rightarrow> mem \<Rightarrow> (u32 \<times> mem) option" where
  "find_block start hsize bytes align i m =
     (if i < hsize then
        let effective_addr = start + i in
        if block_is_free m effective_addr \<noteq> 0 \<and> bytes \<le> block_size m effective_addr then
          (if align \<noteq> 0 then
             (if effective_addr + sizeof_block mod 0x1000 = 0 then Some (effective_addr, m)
              else
                (case find_aligned effective_addr bytes
                   (effective_addr + sizeof_block + block_size m effective_addr)
                   (push_bit 12 (drop_bit 12 (effective_addr + sizeof_block) + 1)) m of
                   None \<Rightarrow> None
                 | Some None \<Rightarrow>
                     find_block start hsize bytes align
                       (i + (sizeof_block + block_size m effective_addr)) m
                 | Some (Some r) \<Rightarrow> Some r))
           else Some (effective_addr, claim_block effective_addr bytes m))
        else find_block start hsize bytes align (i + (sizeof_block + block_size m effective_addr)) m
      else Some (0, m))"

definition get_free_block :: "process \<Rightarrow> u32 \<Rightarrow> u8 \<Rightarrow> mem \<Rightarrow> (u32 \<times> mem) option" where
  "get_free_block p bytes align m =
     find_block (heap_stack_boundary p) (heap_size p) bytes align 0 m"

section \<open>Coalescing\<close>

partial_function (option) unite_loop ::
  "u32 \<Rightarrow> u32 \<Rightarrow> u32 \<Rightarrow> u32 \<Rightarrow> mem \<Rightarrow> mem option" where
  "unite_loop start hsize prev_info i m =
     (if i < hsize then
        let info = start + i;
            merge = (block_is_free m info \<noteq> 0 \<and> block_is_free m prev_info \<noteq> 0);
            m = (if merge then set_size prev_info (block_size m prev_info + (sizeof_block + block_size m info)) m
                 else m)
        in unite_loop start hsize (if merge then prev_info else info)
             (i + (sizeof_block + block_size m info)) m
      else Some m)"

definition unite_free_blocks :: "process \<Rightarrow> mem \<Rightarrow> mem option" where
  "unite_free_blocks p m =
     unite_loop (heap_stack_boundary p) (heap_size p) (heap_stack_boundary p)
       (block_size m (heap_stack_boundary p) + sizeof_block) m"

definition initialise_heap :: "process \<Rightarrow> mem \<Rightarrow> mem" where
  "initialise_heap p m =
     (let info = heap_stack_boundary p;
          m = set_size info (heap_size p - sizeof_block) m
      in set_is_free info 1 m)"

partial_function (option) print_blocks ::
  "u32 \<Rightarrow> u32 \<Rightarrow> u32 \<Rightarrow> 'a screen_scheme \<Rightarrow> 'a screen_scheme option" where
  "print_blocks start hsize i s =
     (if i < hsize then
        let info = i + start in
        (case printf (str (''Effective Addr: %x'' @ [CHR 0x09] @ ''Info is_free: %d'' @ [CHR 0x09]
                 @ ''size: %x'' @ [nl]))
            [VaWord info, VaWord (ucast (block_is_free (mem s) info)), VaWord (block_size (mem s) info)] s of
           None \<Rightarrow> None
         | Some s \<Rightarrow> print_blocks start hsize (i + (sizeof_block + block_size (mem s) info)) s)
      else Some s)"

definition print_heap_summuary :: "process \<Rightarrow> 'a screen_scheme \<Rightarrow> 'a screen_scheme option" where
  "print_heap_summuary p s =
     (case printf (str (nl # ''Heap size: %x'' @ [nl])) [VaWord (heap_size p)] s of
        None \<Rightarrow> None
      | Some s \<Rightarrow> print_blocks (heap_stack_boundary p) (heap_size p) 0 s)"

section \<open>malloc and free\<close>

definition alloc_new_page :: "process \<Rightarrow> 'a paging_scheme \<Rightarrow> (u32, 'a paging_scheme) result" where
  "alloc_new_page p s =
     and_then (alloc_page (page_directory p) (heap_size p + heap_stack_boundary p) 1
                (if page_directory p = kernel_directory s then 1 else 0) s)
       (\<lambda>_ s. Some (Ret (heap_size p + heap_stack_boundary p) s))"

text \<open>What the loop of \<open>malloc\<close> does when no block fits: one more page, as a free block.\<close>

definition grow_heap :: "process \<Rightarrow> 'a paging_scheme \<Rightarrow> (process, 'a paging_scheme) result" where
  "grow_heap p s =
     and_then (alloc_new_page p s) (\<lambda>_ s.
       let info = heap_stack_boundary p + heap_size p;
           m = set_size info (PAGE_SIZE - sizeof_block) (mem s);
           m = set_is_free info 1 m;
           p = p\<lparr>heap_size := heap_size p + PAGE_SIZE\<rparr>
       in case unite_free_blocks p m of
            None \<Rightarrow> None
          | Some m \<Rightarrow> Some (Ret p (s\<lparr>mem := m\<rparr>)))"

partial_function (option) malloc_loop ::
  "u32 \<Rightarrow> u8 \<Rightarrow> process \<Rightarrow> 'a paging_scheme \<Rightarrow> (u32 \<times> process, 'a paging_scheme) result" where
  "malloc_loop bytes align p s =
     (case get_free_block p bytes align (mem s) of
        None \<Rightarrow> None
      | Some (a, m) \<Rightarrow>
          if a \<noteq> 0 then Some (Ret (a + sizeof_block, p) (s\<lparr>mem := m\<rparr>))
          else
            (case grow_heap p (s\<lparr>mem := m\<rparr>) of
               None \<Rightarrow> None
             | Some (Halt s) \<Rightarrow> Some (Halt s)
             | Some (Ret p s) \<Rightarrow> malloc_loop bytes align p s))"

definition malloc :: "u32 \<Rightarrow> process \<Rightarrow> u8 \<Rightarrow> 'a paging_scheme \<Rightarrow> (u32 \<times> process, 'a paging_scheme) result" where
  "malloc bytes p align s =
     (if bytes = 0 then Some (Ret (0, p) s) else malloc_loop bytes align p s)"

definition free_block :: "process \<Rightarrow> u32 \<Rightarrow> mem \<Rightarrow> mem option" where
  "free_block p mem_ptr m = unite_free_blocks p (set_is_free (mem_ptr - sizeof_block) 1 m)"

end
