(* ===== verification/ScreenSpec.thy ===== *)
theory ScreenSpec
  imports ScreenNumbers
begin

text \<open>
  What the screen driver promises: the abstract console it implements, what a printing routine may
  change, the numbers it prints, and which calls of \<open>printf\<close> come back.
\<close>

section \<open>Values of digit lists\<close>

definition digits_value :: "nat \<Rightarrow> nat list \<Rightarrow> nat" where
  "digits_value b ds = foldl (\<lambda>n d. b * n + d) 0 ds"

lemma digits_value_snoc: "digits_value b (ds @ [d]) = b * digits_value b ds + d"
  by (simp add: digits_value_def)

lemma digits_correct:
  assumes "1 < b"
  shows "digits_value b (digits b n) = n" "\<forall>d \<in> set (digits b n). d < b"
    "digits b n \<noteq> []" "n \<noteq> 0 \<Longrightarrow> hd (digits b n) \<noteq> 0"
proof -
  have "digits_value b (digits b n) = n \<and> (\<forall>d \<in> set (digits b n). d < b) \<and> digits b n \<noteq> [] \<and>
    (n \<noteq> 0 \<longrightarrow> hd (digits b n) \<noteq> 0)"
  proof (induction n rule: less_induct)
    case (less n)
    show ?case
    proof (cases "n < b")
      case True
      then show ?thesis by (subst (1 2 3 4) digits.simps) (simp add: digits_value_def)
    next
      case False
      with assms have "n div b < n" "n div b \<noteq> 0" by (simp_all add: div_eq_0_iff)
      with less.IH [of "n div b"] False assms show ?thesis
        by (subst (1 2 3 4) digits.simps) (simp add: digits_value_snoc)
    qed
  qed
  then show "digits_value b (digits b n) = n" "\<forall>d \<in> set (digits b n). d < b"
    "digits b n \<noteq> []" "n \<noteq> 0 \<Longrightarrow> hd (digits b n) \<noteq> 0" by simp_all
qed

section \<open>printf\<close>

text \<open>A format is well formed for a list of arguments when every directive finds an argument of its
  kind, there is no \<open>%b\<close>, and no \<open>%\<close> ends it.\<close>

fun format_ok :: "u8 list \<Rightarrow> va_arg list \<Rightarrow> bool" where
  "format_ok [] args \<longleftrightarrow> True"
| "format_ok [c] args \<longleftrightarrow> c \<noteq> 37"
| "format_ok (c # d # fmt) args \<longleftrightarrow>
     (if c = 0 then True
      else if c = 37 then
        (if d = 0 \<or> d = 98 then False
         else if d = 100 \<or> d = 120 \<or> d = 99 then
           (case args of VaWord a # args \<Rightarrow> format_ok fmt args | _ \<Rightarrow> False)
         else if d = 115 then
           (case args of VaStr a # args \<Rightarrow> format_ok fmt args | _ \<Rightarrow> False)
         else format_ok fmt args)
      else format_ok (d # fmt) args)"

lemma putb_loop_None: "putb_loop a i s \<noteq> Some t"
proof
  assume "putb_loop a i s = Some t"
  then show False
    by (induction a i s t rule: putb_loop.raw_induct [rotated, consumes 1]) simp
qed

lemma putb_loop_eq_None: "putb_loop a i s = None"
  by (cases "putb_loop a i s") (simp_all add: putb_loop_None)

lemma console_step_refl: "cursor_ok s \<Longrightarrow> console_step s s"
  by (simp add: console_step_def console_frame_refl)

lemma console_step_trans: "console_step s t \<Longrightarrow> console_step t u \<Longrightarrow> console_step s u"
  by (auto simp: console_step_def intro: console_frame_trans)

lemma console_step_ok: "console_step s t \<Longrightarrow> cursor_ok t"
  by (simp add: console_step_def)

text \<open>Printing something and going on.\<close>

lemma print_step:
  "console_step s u \<Longrightarrow> (cursor_ok u \<Longrightarrow> console_step u t) \<Longrightarrow> console_step s t"
  by (blast intro: console_step_trans console_step_ok)

lemma printf_step: "printf fmt args s = Some t \<Longrightarrow> cursor_ok s \<Longrightarrow> console_step s t"
proof (induction fmt args s arbitrary: t rule: printf.induct)
  case (1 args s)
  then show ?case by (simp add: console_step_refl)
next
  case (2 c args s)
  then show ?case by (auto simp: console_step_refl putc.step split: if_splits)
next
  case (3 c d fmt args s)
  note IH = 3(1-8)
  note ok = 3(10) and pr = 3(9)
  consider "c = 0" | "c \<noteq> 0" "c \<noteq> 37" | "c = 37" by blast
  then show ?case
  proof cases
    case 1
    with ok pr show ?thesis by (simp add: console_step_refl)
  next
    case 2
    with pr have "printf (d # fmt) args (putc c s) = Some t" by simp
    then have "cursor_ok (putc c s) \<Longrightarrow> console_step (putc c s) t" using IH(8) 2 by simp
    then show ?thesis by (rule print_step [OF putc.step [OF ok]])
  next
    case 3
    have word: "\<exists>a as. args = VaWord a # as" if "d \<in> {98, 99, 100, 120}"
      using that pr 3 by (cases args; cases "hd args") auto
    have string: "\<exists>a as. args = VaStr a # as" if "d = 115"
      using that pr 3 by (cases args; cases "hd args") auto
    consider "d = 0 \<or> d = 98" | "d = 100" | "d = 120" | "d = 37" | "d = 115" | "d = 99"
      | "d \<notin> {0, 37, 98, 99, 100, 115, 120}" by blast
    then show ?thesis
    proof cases
      case 1
      then show ?thesis using pr 3 word by (auto simp: putb_def putb_loop_eq_None)
    next
      case 2
      then obtain a as where "args = VaWord a # as" using word by auto
      then have "cursor_ok (puti a s) \<Longrightarrow> console_step (puti a s) t" using IH(1) pr 2 3 by simp
      then show ?thesis by (rule print_step [OF puti.step [OF ok]])
    next
      case x: 3
      then obtain a as where "args = VaWord a # as" using word by auto
      then have "cursor_ok (puth a s) \<Longrightarrow> console_step (puth a s) t" using IH(2) pr x 3 by simp
      then show ?thesis by (rule print_step [OF puth.step [OF ok]])
    next
      case 4
      then have "cursor_ok (putc 37 s) \<Longrightarrow> console_step (putc 37 s) t" using IH(3) pr 3 by simp
      then show ?thesis by (rule print_step [OF putc.step [OF ok]])
    next
      case 5
      then obtain a as where "args = VaStr a # as" using string by auto
      then have "cursor_ok (puts a s) \<Longrightarrow> console_step (puts a s) t" using IH(5) pr 5 3 by simp
      then show ?thesis by (rule print_step [OF puts.step [OF ok]])
    next
      case 6
      then obtain a as where "args = VaWord a # as" using word by auto
      then have "cursor_ok (putc (ucast a) s) \<Longrightarrow> console_step (putc (ucast a) s) t" using IH(6) pr 6 3 by simp
      then show ?thesis by (rule print_step [OF putc.step [OF ok]])
    next
      case 7
      then show ?thesis using IH(7) pr 3 ok by simp
    qed
  qed
qed

text \<open>Well-formed formats are printed to the end.\<close>

lemma printf_returns: "format_ok fmt args \<Longrightarrow> \<exists>t. printf fmt args s = Some t"
  by (induction fmt args arbitrary: s rule: format_ok.induct)
    (auto split: if_splits list.splits va_arg.splits)

section \<open>What a format means\<close>

text \<open>A format is read up to its terminating zero: characters, directives, and at worst a \<open>%\<close> with nothing behind it.\<close>

datatype token = Lit u8 | Dir u8 | Dangling

fun tokens :: "u8 list \<Rightarrow> token list" where
  "tokens [] = []"
| "tokens (c # cs) =
     (if c = 0 then []
      else if c \<noteq> 37 then Lit c # tokens cs
      else case cs of [] \<Rightarrow> [Dangling] | d # cs \<Rightarrow> if d = 0 then [Dangling] else Dir d # tokens cs)"

text \<open>The kinds of the arguments a directive takes, and when the arguments fit: every directive finds one of its kind,
  there is no \<open>%b\<close>, and no \<open>%\<close> ends the format. More arguments than directives do no harm.\<close>

datatype kind = WordArg | StringArg

fun kind_of :: "va_arg \<Rightarrow> kind" where
  "kind_of (VaWord a) = WordArg"
| "kind_of (VaStr cs) = StringArg"

fun wants :: "token \<Rightarrow> kind list" where
  "wants (Dir d) = (if d \<in> {100, 120, 99, 98} then [WordArg] else if d = 115 then [StringArg] else [])"
| "wants _ = []"

definition args_fit :: "token list \<Rightarrow> va_arg list \<Rightarrow> bool" where
  "args_fit ts args \<longleftrightarrow> Dangling \<notin> set ts \<and> Dir 98 \<notin> set ts \<and> (\<exists>rest. map kind_of args = concat (map wants ts) @ rest)"

text \<open>The text of an argument and of a format: \<open>%d\<close> is the decimal numeral, \<open>%x\<close> the hexadecimal one, \<open>%c\<close> a
  character, \<open>%s\<close> a string up to its zero, \<open>%%\<close> a percent sign; an unknown directive prints nothing.\<close>

fun argument_text :: "u8 \<Rightarrow> va_arg \<Rightarrow> u8 list" where
  "argument_text d (VaWord a) =
     (if d = 100 then map digit_char (digits 10 (unat a))
      else if d = 120 then str ''0x'' @ map digit_char (digits 16 (unat a))
      else [ucast a])"
| "argument_text d (VaStr cs) = takeWhile (\<lambda>c. c \<noteq> 0) cs"

fun format_text :: "token list \<Rightarrow> va_arg list \<Rightarrow> u8 list" where
  "format_text [] args = []"
| "format_text (Lit c # ts) args = c # format_text ts args"
| "format_text (Dir d # ts) args =
     (if d = 37 then 37 # format_text ts args
      else if wants (Dir d) = [] then format_text ts args
      else argument_text d (hd args) @ format_text ts (tl args))"
| "format_text (Dangling # ts) args = []"

text \<open>What is left of \<open>printf\<close> when its format has been read into tokens.\<close>

fun print_tokens :: "token list \<Rightarrow> va_arg list \<Rightarrow> 'a screen_scheme \<Rightarrow> 'a screen_scheme option" where
  "print_tokens [] args s = Some s"
| "print_tokens (Lit c # ts) args s = print_tokens ts args (putc c s)"
| "print_tokens (Dangling # ts) args s = None"
| "print_tokens (Dir d # ts) args s =
     (if d = 98 then None
      else if d = 37 then print_tokens ts args (putc 37 s)
      else if wants (Dir d) = [] then print_tokens ts args s
      else (case args of [] \<Rightarrow> None | a # args \<Rightarrow>
         if wants (Dir d) = [kind_of a] then print_tokens ts args (fold putc (argument_text d a) s) else None))"

lemma digit_char_decimal: "map digit_char (digits 10 n) = map (\<lambda>d. of_nat (48 + d)) (digits 10 n)"
  using digits_correct(2) [of 10 n] by (auto simp: digit_char_def)

lemma argument_printers:
  "puti a s = fold putc (argument_text 100 (VaWord a)) s"
  "puth a s = fold putc (argument_text 120 (VaWord a)) s"
  "putc (ucast a) s = fold putc (argument_text 99 (VaWord a)) s"
  "puts cs s = fold putc (argument_text 115 (VaStr cs)) s"
  by (simp_all add: puti_eq puth_eq puts_fold digit_char_decimal str_def)

lemma printf_tokens: "printf fmt args s = print_tokens (tokens fmt) args s"
proof (induction fmt args s rule: printf.induct)
  case (3 c d fmt args s)
  show ?case
  proof (cases "c = 37 \<and> d \<noteq> 0")
    case True
    then show ?thesis using 3
      by (auto simp: putb_def putb_loop_eq_None argument_printers split: list.splits va_arg.splits simp del: argument_text.simps)
  next
    case False
    then show ?thesis using 3(8) by auto
  qed
qed simp_all

lemma print_tokens_fit: "args_fit ts args \<Longrightarrow> print_tokens ts args s = Some (fold putc (format_text ts args) s)"
proof (induction ts args s rule: print_tokens.induct)
  case (4 d ts args s)
  then show ?case by (cases args) (auto simp: args_fit_def split: if_splits simp del: argument_text.simps)
qed (auto simp: args_fit_def)

lemma print_tokens_b: "Dir 98 \<in> set ts \<Longrightarrow> print_tokens ts args s = None"
  by (induction ts args s rule: print_tokens.induct) (auto split: list.splits)

section \<open>Properties\<close>

text \<open>C27. \<open>putc\<close> implements the abstract console: with the cursor on the screen, the 2000 cells and
  the cursor after \<open>putc\<close> are those of \<open>console_putc\<close>, which handles newline, carriage return,
  backspace, tab and delete and scrolls by one row at the end; and the cursor stays on the screen.\<close>

theorem putc_refines_console:
  assumes "cursor_ok s"
  shows "console_of (putc ch s) = console_putc ch (console_of s) \<and> cursor_ok (putc ch s)"
  using console_of_putc [OF assms] putc.keeps_cursor [OF assms] by blast

text \<open>Whatever \<open>printf\<close> is given, when it comes back it has changed nothing but the cursor, the
  ports and the 4000 bytes of video memory, and the cursor is on the screen.\<close>

theorem printf_confined:
  assumes "cursor_ok s" and "printf fmt args s = Some t"
  shows "cursor_ok t \<and> t = s\<lparr>mem := mem t, trace := trace t, cx := cx t, cy := cy t\<rparr> \<and>
    (\<forall>a. a \<notin> video \<longrightarrow> mem t a = mem s a)"
  using printf_step [OF assms(2,1)] by (simp add: console_step_def console_frame_def)

text \<open>C38. What \<open>printf\<close> prints. When the arguments fit the directives of the format, it returns and has put on the
  screen, character by character, the text of the format with every directive replaced by the text of its argument
  (\<open>format_text\<close>); the characters behind a zero do not count. With a \<open>%b\<close> anywhere in the format it does
  not return a result, whatever the arguments, because the counter of \<open>putb\<close> is unsigned and its loop never ends.\<close>

theorem printf_prints_format:
  "(args_fit (tokens fmt) args \<longrightarrow> printf fmt args s = Some (fold putc (format_text (tokens fmt) args) s)) \<and>
   (Dir 98 \<in> set (tokens fmt) \<longrightarrow> printf fmt args s = None) \<and> putb a s = None"
  using print_tokens_fit [of "tokens fmt" args s] print_tokens_b [of "tokens fmt" args s]
  by (simp add: printf_tokens putb_def putb_loop_eq_None)

text \<open>\<open>puti\<close> prints the decimal numeral of its argument: the characters are decimal digits, their
  value is the argument, and there is no leading zero.\<close>

theorem puti_prints_decimal:
  "\<exists>ds. puti a s = fold putc (map (\<lambda>d. of_nat (48 + d)) ds) s \<and>
     digits_value 10 ds = unat a \<and> (\<forall>d \<in> set ds. d < 10) \<and> ds \<noteq> [] \<and> (a \<noteq> 0 \<longrightarrow> hd ds \<noteq> 0)"
proof (intro exI conjI)
  show "puti a s = fold putc (map (\<lambda>d. of_nat (48 + d)) (digits 10 (unat a))) s" by (rule puti_eq)
  show "a \<noteq> 0 \<longrightarrow> hd (digits 10 (unat a)) \<noteq> 0" using digits_correct(4) [of 10 "unat a"] by (auto simp: unat_gt_0)
qed (use digits_correct [of 10 "unat a"] in simp_all)

text \<open>\<open>puth\<close> prints \<open>0x\<close> and the hexadecimal numeral of its argument, with capital letters and
  without leading zeros.\<close>

theorem puth_prints_hex:
  "\<exists>ds. puth a s = fold putc (map digit_char ds) (puts (str ''0x'') s) \<and>
     digits_value 16 ds = unat a \<and> (\<forall>d \<in> set ds. d < 16) \<and> ds \<noteq> [] \<and> (a \<noteq> 0 \<longrightarrow> hd ds \<noteq> 0)"
proof (intro exI conjI)
  show "puth a s = fold putc (map digit_char (digits 16 (unat a))) (puts (str ''0x'') s)" by (rule puth_eq)
  show "a \<noteq> 0 \<longrightarrow> hd (digits 16 (unat a)) \<noteq> 0" using digits_correct(4) [of 16 "unat a"] by (auto simp: unat_gt_0)
qed (use digits_correct [of 16 "unat a"] in simp_all)

section \<open>Witnesses\<close>

definition demo_screen :: screen where
  "demo_screen = \<lparr>mem = \<lambda>_. 0, dev = \<lambda>_ _. 0, trace = [], cx = 79, cy = 24\<rparr>"

lemma demo_screen_ok: "cursor_ok demo_screen"
  by (simp add: cursor_ok_def demo_screen_def)

text \<open>A character in the last cell scrolls.\<close>

theorem putc_refines_console_witness:
  "cursor (console_of (putc 65 demo_screen)) = 1920"
proof -
  have "cursor (console_of demo_screen) = 1999"
    by (simp add: console_of_def demo_screen_def)
  then show ?thesis
    using putc_refines_console [OF demo_screen_ok, of 65]
    by (simp add: console_putc_def console_goto_def console_set_def Let_def)
qed

theorem printf_confined_witness:
  "\<exists>t. printf (str ''x: %d'') [VaWord 7] demo_screen = Some t \<and> cursor_ok t"
proof -
  have "format_ok (str ''x: %d'') [VaWord 7]" by (simp add: str_def)
  then obtain t where "printf (str ''x: %d'') [VaWord 7] demo_screen = Some t"
    using printf_returns by blast
  then show ?thesis using printf_confined [OF demo_screen_ok] by blast
qed

theorem printf_prints_format_witness:
  "printf (str ''x: %d%%'') [VaWord 42] demo_screen = Some (fold putc (str ''x: 42%'') demo_screen) \<and>
   printf (str ''x: %d %b'') [VaWord 42, VaWord 7] demo_screen = None"
proof -
  have "tokens (str ''x: %d%%'') = [Lit 120, Lit 58, Lit 32, Dir 100, Dir 37]" "Dir 98 \<in> set (tokens (str ''x: %d %b''))"
    by (simp_all add: str_def)
  moreover have "digits 10 42 = [4, 2]" by (simp add: digits.simps)
  ultimately show ?thesis
    using printf_prints_format [of "str ''x: %d%%''" "[VaWord 42]" demo_screen 0]
      printf_prints_format [of "str ''x: %d %b''" "[VaWord 42, VaWord 7]" demo_screen 0]
    by (simp add: args_fit_def digit_char_def str_def)
qed

theorem puti_prints_decimal_witness:
  "\<exists>ds. puti 40 demo_screen = fold putc (map (\<lambda>d. of_nat (48 + d)) ds) demo_screen \<and> digits_value 10 ds = 40"
  using puti_prints_decimal [of 40 demo_screen] by auto

theorem puth_prints_hex_witness:
  "\<exists>ds. puth 40 demo_screen = fold putc (map digit_char ds) (puts (str ''0x'') demo_screen) \<and>
     digits_value 16 ds = 40"
  using puth_prints_hex [of 40 demo_screen] by auto

end
