(* ===== verification/ProcessList.thy ===== *)
theory ProcessList
  imports Heap ScreenSpec
begin

text \<open>
  \<open>p_mode/processes/process_list.c\<close>: the table of \<open>MAX_PROC\<close> processes. The array comes from
  \<open>kmalloc\<close>, so its entries start with whatever the memory held, and only their \<open>pid\<close> is set;
  \<open>read_process\<close> is the layout of the C structure. From then on nothing but this component and the
  scheduler touches the array, and it is the field \<open>proc_arr\<close> of the state.
\<close>

definition MAX_PROC :: nat where "MAX_PROC = 32"

record procs = paging +
  proc_arr :: "process list"
  list_size :: u32

definition read_regs :: "mem \<Rightarrow> u32 \<Rightarrow> regs" where
  "read_regs m a = \<lparr>r_gs = ld32 m a, r_fs = ld32 m (a + 4), r_es = ld32 m (a + 8), r_ds = ld32 m (a + 12),
     r_edi = ld32 m (a + 16), r_esi = ld32 m (a + 20), r_ebp = ld32 m (a + 24), r_esp = ld32 m (a + 28),
     r_ebx = ld32 m (a + 32), r_edx = ld32 m (a + 36), r_ecx = ld32 m (a + 40), r_eax = ld32 m (a + 44),
     r_int_no = ld32 m (a + 48), r_err_code = ld32 m (a + 52), r_eip = ld32 m (a + 56),
     r_cs = ld32 m (a + 60), r_eflags = ld32 m (a + 64), r_useresp = ld32 m (a + 68), r_ss = ld32 m (a + 72)\<rparr>"

definition sizeof_process :: u32 where "sizeof_process = 96"

definition read_process :: "mem \<Rightarrow> u32 \<Rightarrow> process" where
  "read_process m a = \<lparr>heap_stack_boundary = ld32 m a, heap_size = ld32 m (a + 4),
     page_directory = ld32 m (a + 8), pid = ld32 m (a + 12), last_state_regs = read_regs m (a + 16),
     priority_level = m (a + 92)\<rparr>"

definition init_process_list :: "'a procs_scheme \<Rightarrow> 'a procs_scheme" where
  "init_process_list s =
     (let (p, s) = kmalloc (sizeof_process * of_nat MAX_PROC) s;
          s = s\<lparr>list_size := 0\<rparr>
      in s\<lparr>proc_arr := map (\<lambda>i. (read_process (mem s) (p + sizeof_process * of_nat i))\<lparr>pid := -1\<rparr>)
             [0..<MAX_PROC]\<rparr>)"

text \<open>The loop of \<open>add_process\<close>: the least index with a free slot.\<close>

fun free_slot :: "process list \<Rightarrow> nat \<Rightarrow> nat option" where
  "free_slot [] i = None"
| "free_slot (p # ps) i = (if pid p = -1 then Some i else free_slot ps (Suc i))"

definition add_process :: "process \<Rightarrow> 'a procs_scheme \<Rightarrow> (int \<times> 'a procs_scheme) option" where
  "add_process proc s =
     (case free_slot (proc_arr s) 0 of
        Some i \<Rightarrow> Some (int i, s\<lparr>proc_arr := (proc_arr s)[i := proc\<lparr>pid := of_nat i\<rparr>]\<rparr>)
      | None \<Rightarrow>
          (case printf (str (''No space for any other process!'' @ [nl])) [] s of
             None \<Rightarrow> None | Some s \<Rightarrow> Some (-1, s)))"

fun show_procs :: "process list \<Rightarrow> 'a screen_scheme \<Rightarrow> 'a screen_scheme option" where
  "show_procs [] s = Some s"
| "show_procs (p # ps) s =
     (if pid p \<noteq> -1 then
        (case printf (str (''PROC ID: %d'' @ [nl])) [VaWord (pid p)] s of
           None \<Rightarrow> None | Some s \<Rightarrow> show_procs ps s)
      else show_procs ps s)"

definition show_all_procs :: "'a procs_scheme \<Rightarrow> 'a procs_scheme option" where
  "show_all_procs s =
     (case printf (str (''ALL PROCESSES:'' @ [nl])) [] s of
        None \<Rightarrow> None | Some s \<Rightarrow> show_procs (proc_arr s) s)"

definition remove_process :: "process \<Rightarrow> 'a procs_scheme \<Rightarrow> 'a procs_scheme" where
  "remove_process proc s =
     s\<lparr>proc_arr := map (\<lambda>p. if pid p = pid proc then p\<lparr>pid := -1\<rparr> else p) (proc_arr s)\<rparr>"

section \<open>The table's invariant\<close>

text \<open>There are \<open>MAX_PROC\<close> slots, and a slot in use holds its own index as \<open>pid\<close>.\<close>

definition procs_ok :: "process list \<Rightarrow> bool" where
  "procs_ok ps \<longleftrightarrow> length ps = MAX_PROC \<and> (\<forall>i<MAX_PROC. pid (ps ! i) = -1 \<or> pid (ps ! i) = of_nat i)"

definition live :: "process list \<Rightarrow> nat \<Rightarrow> bool" where
  "live ps i \<longleftrightarrow> i < length ps \<and> pid (ps ! i) \<noteq> -1"

lemma small_not_minus_1: "n < 4294967295 \<Longrightarrow> of_nat n \<noteq> (-1 :: u32)"
proof
  assume "n < 4294967295" "of_nat n = (-1 :: u32)"
  then have "unat (of_nat n :: u32) = 4294967295"
    by (simp add: unsigned_minus_1_eq_mask mask_eq_exp_minus_1)
  then show False using \<open>n < 4294967295\<close> by (simp add: unat_of_nat_32)
qed

lemma free_slot_Some:
  "free_slot ps i = Some j \<longleftrightarrow>
     (\<exists>k. j = i + k \<and> k < length ps \<and> pid (ps ! k) = -1 \<and> (\<forall>l<k. pid (ps ! l) \<noteq> -1))"
proof (induction ps arbitrary: i)
  case (Cons p ps)
  show ?case
  proof (cases "pid p = -1")
    case True
    have "k = 0" if "\<forall>l<k. pid ((p # ps) ! l) \<noteq> -1" for k
      using that [rule_format, of 0] True by (cases k) auto
    then show ?thesis using True by auto
  next
    case False
    have "(\<exists>k. j = i + k \<and> k < length (p # ps) \<and> pid ((p # ps) ! k) = -1 \<and>
        (\<forall>l<k. pid ((p # ps) ! l) \<noteq> -1)) \<longleftrightarrow>
      (\<exists>k. j = Suc i + k \<and> k < length ps \<and> pid (ps ! k) = -1 \<and> (\<forall>l<k. pid (ps ! l) \<noteq> -1))"
      (is "?l \<longleftrightarrow> ?r")
    proof
      assume ?l
      then obtain k where k: "j = i + k" "k < length (p # ps)" "pid ((p # ps) ! k) = -1"
        "\<forall>l<k. pid ((p # ps) ! l) \<noteq> -1" by blast
      with False obtain k' where "k = Suc k'" by (cases k) auto
      with k show ?r by (intro exI [of _ k']) force
    next
      assume ?r
      then obtain k where "j = Suc i + k" "k < length ps" "pid (ps ! k) = -1" "\<forall>l<k. pid (ps ! l) \<noteq> -1"
        by blast
      with False show ?l by (intro exI [of _ "Suc k"]) (auto simp: less_Suc_eq_0_disj)
    qed
    with False Cons show ?thesis by simp
  qed
qed simp

lemma free_slot_None: "free_slot ps i = None \<longleftrightarrow> (\<forall>p \<in> set ps. pid p \<noteq> -1)"
  by (induction ps arbitrary: i) auto

section \<open>Properties\<close>

lemma procs_ok_init: "procs_ok (proc_arr (init_process_list s))"
  by (simp add: init_process_list_def procs_ok_def kmalloc_eq Let_def)

lemma procs_ok_update:
  "procs_ok ps \<Longrightarrow> i < MAX_PROC \<Longrightarrow> pid p = -1 \<or> pid p = of_nat i \<Longrightarrow> procs_ok (ps[i := p])"
  by (auto simp: procs_ok_def nth_list_update)

text \<open>Printing leaves the table alone.\<close>

lemma printf_proc_arr:
  assumes "printf fmt args s = Some t" "cursor_ok s"
  shows "proc_arr t = proc_arr s"
proof -
  have e: "t = s\<lparr>mem := mem t, trace := trace t, cx := cx t, cy := cy t\<rparr>"
    using printf_step [OF assms] by (simp add: console_step_def console_frame_def)
  show ?thesis by (subst e) simp
qed

text \<open>The process table: initialising it gives 32 empty slots, \<open>add_process\<close> puts the process into
  the least empty slot and gives it that index as its number, or reports a full table and changes
  nothing in it, and \<open>remove_process\<close> empties exactly the slot of that number; all keep the
  invariant that a slot in use holds its own index.\<close>

theorem process_table:
  assumes "procs_ok (proc_arr s)" and "cursor_ok s"
  shows "procs_ok (proc_arr (init_process_list s)) \<and> (\<forall>i. \<not> live (proc_arr (init_process_list s)) i) \<and>
    (if \<exists>i<MAX_PROC. \<not> live (proc_arr s) i
     then let i = (LEAST i. \<not> live (proc_arr s) i);
              t = s\<lparr>proc_arr := (proc_arr s)[i := p\<lparr>pid := of_nat i\<rparr>]\<rparr>
          in add_process p s = Some (int i, t) \<and> procs_ok (proc_arr t) \<and> live (proc_arr t) i
     else \<exists>t. add_process p s = Some (-1, t) \<and> proc_arr t = proc_arr s) \<and>
    procs_ok (proc_arr (remove_process p s)) \<and>
    (\<forall>i<MAX_PROC. live (proc_arr (remove_process p s)) i \<longleftrightarrow> live (proc_arr s) i \<and> of_nat i \<noteq> pid p)"
proof (intro conjI)
  have len: "length (proc_arr s) = MAX_PROC" using assms(1) by (simp add: procs_ok_def)
  show "procs_ok (proc_arr (init_process_list s))" by (rule procs_ok_init)
  show "\<forall>i. \<not> live (proc_arr (init_process_list s)) i"
    by (simp add: init_process_list_def live_def kmalloc_eq Let_def)
  show "procs_ok (proc_arr (remove_process p s))"
    using assms(1) by (auto simp: remove_process_def procs_ok_def)
  show "\<forall>i<MAX_PROC. live (proc_arr (remove_process p s)) i \<longleftrightarrow> live (proc_arr s) i \<and> of_nat i \<noteq> pid p"
    using assms(1) by (auto simp: remove_process_def procs_ok_def live_def)
  show "if \<exists>i<MAX_PROC. \<not> live (proc_arr s) i
     then let i = (LEAST i. \<not> live (proc_arr s) i);
              t = s\<lparr>proc_arr := (proc_arr s)[i := p\<lparr>pid := of_nat i\<rparr>]\<rparr>
          in add_process p s = Some (int i, t) \<and> procs_ok (proc_arr t) \<and> live (proc_arr t) i
     else \<exists>t. add_process p s = Some (-1, t) \<and> proc_arr t = proc_arr s"
  proof (cases "\<exists>i<MAX_PROC. \<not> live (proc_arr s) i")
    case True
    define i where "i = (LEAST i. \<not> live (proc_arr s) i)"
    obtain j where j: "j < MAX_PROC" "\<not> live (proc_arr s) j" using True by blast
    have "i \<le> j" unfolding i_def by (rule Least_le) (rule j(2))
    then have i: "i < MAX_PROC" using j(1) by simp
    have "\<not> live (proc_arr s) i" unfolding i_def by (rule LeastI) (rule j(2))
    then have free: "pid (proc_arr s ! i) = -1" using i len by (simp add: live_def)
    have "live (proc_arr s) k" if "k < i" for k using that not_less_Least unfolding i_def by blast
    then have "free_slot (proc_arr s) 0 = Some i"
      using i free len by (auto simp: free_slot_Some live_def)
    moreover have "(of_nat i :: u32) \<noteq> -1" using i by (intro small_not_minus_1) (simp add: MAX_PROC_def)
    ultimately show ?thesis
      using True i len assms(1) unfolding i_def [symmetric] Let_def
      by (auto simp: add_process_def live_def intro!: procs_ok_update)
  next
    case False
    then have none: "free_slot (proc_arr s) 0 = None"
      using len by (auto simp: free_slot_None live_def in_set_conv_nth)
    obtain t where t: "printf (str (''No space for any other process!'' @ [nl])) [] s = Some t"
      using printf_returns [of "str (''No space for any other process!'' @ [nl])" "[]" s]
      by (auto simp: str_def nl_def)
    then show ?thesis
      using False none printf_proc_arr [OF t assms(2)] by (simp add: add_process_def)
  qed
qed

text \<open>A table with the processes 0 and 2.\<close>

definition demo_table :: "process list" where
  "demo_table = map (\<lambda>i. (read_process (\<lambda>_. 0) 0)\<lparr>pid := if i = 0 \<or> i = 2 then of_nat i else -1\<rparr>)
     [0..<MAX_PROC]"

definition demo_procs :: procs where
  "demo_procs = \<lparr>mem = \<lambda>_. 0, dev = \<lambda>_ _. 0, trace = [], cx = 79, cy = 24, place_addr = 0x30000,
     idt = 0, idtp_limit = 0, idtp_base = 0, idtr = None, interrupts_on = True, fault_handlers = 0,
     irq_routines = [], frames = 0x40000, kernel_directory = 0x10000, current_dir = 0x10000, cr0 = 0,
     cr2 = 0, cr3 = 0, proc_arr = demo_table, list_size = 0\<rparr>"

lemma demo_table_ok: "procs_ok demo_table" "live demo_table i \<longleftrightarrow> i = 0 \<or> i = 2"
  by (auto simp: procs_ok_def live_def demo_table_def MAX_PROC_def small_not_minus_1 split: if_splits)

lemma process_table_witness: "\<exists>t. add_process (read_process (\<lambda>_. 0) 0) demo_procs = Some (1, t)"
proof -
  have least: "(LEAST i. \<not> live demo_table i) = 1"
    by (rule Least_equality) (auto simp: demo_table_ok not_less_eq_eq intro: Suc_leI)
  have "procs_ok (proc_arr demo_procs)" "cursor_ok demo_procs"
    by (simp_all add: demo_procs_def demo_table_ok cursor_ok_def)
  note process_table [OF this, of "read_process (\<lambda>_. 0) 0"]
  moreover have "\<exists>i<MAX_PROC. \<not> live demo_table i" by (rule exI [of _ 1]) (simp add: demo_table_ok MAX_PROC_def)
  moreover have "proc_arr demo_procs = demo_table" by (simp add: demo_procs_def)
  ultimately show ?thesis by (simp add: Let_def least)
qed

end
