(* ===== verification/Scheduler.thy ===== *)
theory Scheduler
  imports ProcessList
begin

text \<open>
  \<open>p_mode/processes/scheduler.c\<close>, with the variables of \<open>timer.c\<close> that it sets. The timer interrupt
  passes the saved registers of the interrupted process by pointer; the scheduler stores them in the
  table and overwrites them with those of the next process, so the model takes the registers and
  returns the new ones.
\<close>

record sched = procs +
  timer_ticks :: u32
  freq :: u32
  time_slice_millis :: u32
  cur_proc_index :: int
  scheduler_active :: int
  is_first_run :: int

definition set_time_slice :: "u32 \<Rightarrow> 'a sched_scheme \<Rightarrow> 'a sched_scheme" where
  "set_time_slice millis s = s\<lparr>time_slice_millis := millis\<rparr>"

definition time_slice :: "u8 \<Rightarrow> u32" where
  "time_slice priority =
     (if priority = 0 then 100 else if priority = 1 then 50 else if priority = 2 then 25
      else if priority = 3 then 10 else 5)"

definition init_scheduler :: "u32 \<Rightarrow> 'a sched_scheme \<Rightarrow> 'a sched_scheme" where
  "init_scheduler kernel_func s =
     (let s = init_process_list s;
          p = hd (proc_arr s);
          (stack, s) = kmalloc 0x1000 s;
          p = p\<lparr>priority_level := 0, pid := 0, page_directory := kernel_directory s,
                last_state_regs := (last_state_regs p)\<lparr>r_ds := 0x10, r_cs := 0x08, r_eip := kernel_func,
                  r_ss := 0x10, r_es := 0x10, r_fs := 0x10, r_gs := 0x10, r_eflags := 0x202,
                  r_useresp := stack + 0x1000, r_ebp := stack + 0x1000\<rparr>\<rparr>;
          s = s\<lparr>proc_arr := (proc_arr s)[0 := p]\<rparr>;
          s = set_time_slice 40 s
      in s\<lparr>cur_proc_index := 0\<rparr>)"

text \<open>The body of the \<open>if\<close> in the loop: switch to slot \<open>i\<close>. Saving to \<open>proc_arr[cur_proc_index]\<close>
  outside the array is undefined in C and gives no result here. (\<open>i\<close> itself has been looked up by the loop.)\<close>

definition switch_to :: "nat \<Rightarrow> regs \<Rightarrow> 'a sched_scheme \<Rightarrow> (regs \<times> 'a sched_scheme) option" where
  "switch_to i r s =
     (if is_first_run s = 0 \<and> \<not> (0 \<le> cur_proc_index s \<and> nat (cur_proc_index s) < length (proc_arr s)) then None
      else
        let s = (if is_first_run s = 0 then
                   let c = nat (cur_proc_index s) in
                   s\<lparr>proc_arr := (proc_arr s)[c := (proc_arr s ! c)\<lparr>last_state_regs := r\<rparr>]\<rparr>
                 else s\<lparr>is_first_run := 0\<rparr>);
            p = proc_arr s ! i;
            s = switch_page_directory (page_directory p) s
        in Some (last_state_regs p, s\<lparr>cur_proc_index := int i\<rparr>))"

partial_function (option) next_loop ::
  "int \<Rightarrow> regs \<Rightarrow> 'a sched_scheme \<Rightarrow> (regs \<times> 'a sched_scheme) option" where
  "next_loop i r s =
     (let i = (if int MAX_PROC \<le> i + 1 then 0 else i + 1) in
      case item (proc_arr s) i of
        None \<Rightarrow> None
      | Some p \<Rightarrow>
          (case (if pid p \<noteq> -1 then switch_to (nat i) r s else Some (r, s)) of
             None \<Rightarrow> None
           | Some (r, s) \<Rightarrow> if cur_proc_index s \<noteq> i then next_loop i r s else Some (r, s)))"

definition start_next_process :: "regs \<Rightarrow> 'a sched_scheme \<Rightarrow> (u32 \<times> regs \<times> 'a sched_scheme) option" where
  "start_next_process r s =
     (if scheduler_active s \<noteq> 0 then
        (case next_loop (cur_proc_index s) r s of
           None \<Rightarrow> None
         | Some (r, s) \<Rightarrow>
             map_option (\<lambda>p. (time_slice (priority_level p), r, s)) (item (proc_arr s) (cur_proc_index s)))
      else Some (50, r, s))"

section \<open>Round robin\<close>

text \<open>The slot the scheduler goes to: the first live one in the cyclic order after the current
  one, which may be the current one itself.\<close>

definition succ_slot :: "nat \<Rightarrow> nat" where
  "succ_slot i = (if Suc i < MAX_PROC then Suc i else 0)"

fun next_live :: "process list \<Rightarrow> nat \<Rightarrow> nat \<Rightarrow> nat" where
  "next_live ps 0 i = i"
| "next_live ps (Suc n) i = (if live ps (succ_slot i) then succ_slot i else next_live ps n (succ_slot i))"

text \<open>The state after a switch from the current slot to slot \<open>i\<close>.\<close>

definition switched :: "nat \<Rightarrow> regs \<Rightarrow> 'a sched_scheme \<Rightarrow> 'a sched_scheme" where
  "switched i r s =
     (let ps = (if is_first_run s = 0 then
                  (proc_arr s)[nat (cur_proc_index s) :=
                    (proc_arr s ! nat (cur_proc_index s))\<lparr>last_state_regs := r\<rparr>]
                else proc_arr s)
      in s\<lparr>proc_arr := ps, is_first_run := 0, current_dir := page_directory (ps ! i),
           cr3 := page_directory (ps ! i), cur_proc_index := int i\<rparr>)"

definition sched_ok :: "'a sched_scheme \<Rightarrow> bool" where
  "sched_ok s \<longleftrightarrow> procs_ok (proc_arr s) \<and> 0 \<le> cur_proc_index s \<and> cur_proc_index s < int MAX_PROC \<and>
     live (proc_arr s) (nat (cur_proc_index s))"

lemma succ_slot_less [simp]: "succ_slot i < MAX_PROC"
  by (simp add: succ_slot_def MAX_PROC_def)

lemma next_slot_int: "i < MAX_PROC \<Longrightarrow> (if int MAX_PROC \<le> int i + 1 then 0 else int i + 1) = int (succ_slot i)"
  by (auto simp: succ_slot_def)

lemma switch_to_switched:
  assumes "procs_ok (proc_arr s)" "0 \<le> cur_proc_index s" "cur_proc_index s < int MAX_PROC"
  shows "switch_to i r s = Some (last_state_regs (proc_arr (switched i r s) ! i), switched i r s)"
proof -
  have "length (proc_arr s) = MAX_PROC" using assms(1) by (simp add: procs_ok_def)
  moreover have "nat (cur_proc_index s) < MAX_PROC" using assms(2,3) by (simp add: nat_less_iff)
  ultimately show ?thesis
    using assms by (simp add: switch_to_def switched_def switch_page_directory_def Let_def)
qed

lemma live_update [simp]:
  "live (ps[c := (ps ! c)\<lparr>last_state_regs := r\<rparr>]) i \<longleftrightarrow> live ps i"
  by (cases "i = c") (auto simp: live_def nth_list_update)

lemma live_switched [simp]: "live (proc_arr (switched i r s)) j \<longleftrightarrow> live (proc_arr s) j"
  by (simp add: switched_def Let_def)

lemma cur_switched [simp]: "cur_proc_index (switched i r s) = int i"
  by (simp add: switched_def Let_def)

lemma active_switched [simp]: "scheduler_active (switched i r s) = scheduler_active s"
  by (simp add: switched_def Let_def)

lemma first_run_switched [simp]: "is_first_run (switched i r s) = 0"
  by (simp add: switched_def Let_def)

lemma priority_switched [simp]:
  "priority_level (proc_arr (switched i r s) ! j) = priority_level (proc_arr s ! j)"
proof -
  have "priority_level (ps[c := (ps ! c)\<lparr>last_state_regs := r\<rparr>] ! j) = priority_level (ps ! j)" for ps :: "process list" and c
    by (cases "c < length ps"; cases "c = j") (auto simp: nth_list_update list_update_beyond not_less)
  then show ?thesis by (simp add: switched_def Let_def)
qed

lemma procs_ok_switched:
  assumes "procs_ok (proc_arr s)"
  shows "procs_ok (proc_arr (switched i r s))"
proof (cases "is_first_run s = 0 \<and> nat (cur_proc_index s) < MAX_PROC")
  case True
  let ?c = "nat (cur_proc_index s)"
  have "pid (proc_arr s ! ?c) = -1 \<or> pid (proc_arr s ! ?c) = of_nat ?c"
    using assms True by (simp add: procs_ok_def)
  with True procs_ok_update [OF assms] show ?thesis by (simp add: switched_def Let_def)
next
  case False
  then have "proc_arr (switched i r s) = proc_arr s"
    using assms by (auto simp: switched_def Let_def procs_ok_def list_update_beyond not_less)
  with assms show ?thesis by simp
qed

lemma next_live_less: "i < MAX_PROC \<Longrightarrow> next_live ps n i < MAX_PROC"
  by (induction ps n i rule: next_live.induct) auto

lemma live_less: "procs_ok ps \<Longrightarrow> live ps i \<Longrightarrow> i < MAX_PROC"
  by (simp add: procs_ok_def live_def)

text \<open>How many slots lie strictly between \<open>i\<close> and \<open>j\<close> in the cyclic order.\<close>

definition gap :: "nat \<Rightarrow> nat \<Rightarrow> nat" where
  "gap i j = (j + MAX_PROC - 1 - i) mod MAX_PROC"

lemma gap_succ:
  assumes "i < MAX_PROC" "j < MAX_PROC"
  shows "if succ_slot i = j then gap i j = 0 else gap i j = Suc (gap (succ_slot i) j)"
proof -
  have e: "gap k j = (if k < j then j - 1 - k else j + MAX_PROC - 1 - k)" if "k < MAX_PROC" for k
  proof (cases "k < j")
    case True
    then have "j + MAX_PROC - 1 - k = (j - 1 - k) + MAX_PROC" by simp
    moreover have "j - 1 - k < MAX_PROC" using assms(2) by simp
    ultimately have "(j + MAX_PROC - 1 - k) mod MAX_PROC = j - 1 - k" by (metis mod_add_self2 mod_less)
    with True show ?thesis by (simp add: gap_def)
  next
    case False
    then have "j + MAX_PROC - 1 - k < MAX_PROC" using that by linarith
    with False show ?thesis by (simp add: gap_def)
  qed
  show ?thesis
  proof (cases "Suc i < MAX_PROC")
    case True
    with assms show ?thesis unfolding succ_slot_def by (simp add: e) linarith
  next
    case False
    then have "i = MAX_PROC - 1" using assms(1) by linarith
    with assms e show ?thesis by (auto simp: succ_slot_def MAX_PROC_def)
  qed
qed

lemma gap_less: "gap i j < MAX_PROC"
  by (simp add: gap_def MAX_PROC_def)

text \<open>The next live slot is live as soon as one slot in reach is, and it is no further than any
  live slot.\<close>

lemma next_live_gap:
  assumes "i < MAX_PROC" "j < MAX_PROC" "live ps j" "gap i j < n"
  shows "live ps (next_live ps n i) \<and> (next_live ps n i = j \<or> gap (next_live ps n i) j < gap i j)"
  using assms
proof (induction ps n i rule: next_live.induct)
  case (2 ps n i)
  note g = gap_succ [OF 2(2,3)]
  show ?case
  proof (cases "live ps (succ_slot i)")
    case True with g show ?thesis by (cases "succ_slot i = j") simp_all
  next
    case False
    with 2(4) have ne: "succ_slot i \<noteq> j" by auto
    with g have "gap i j = Suc (gap (succ_slot i) j)" by simp
    with 2 False show ?thesis by auto
  qed
qed simp

lemma next_live_live:
  "i < MAX_PROC \<Longrightarrow> j < MAX_PROC \<Longrightarrow> live ps j \<Longrightarrow> live ps (next_live ps MAX_PROC i)"
  using next_live_gap gap_less by blast

text \<open>The loop of the scheduler, from slot \<open>i\<close> with \<open>n\<close> slots still to be looked at.\<close>

lemma next_loop_eq:
  assumes ok: "procs_ok (proc_arr s)" "0 \<le> cur_proc_index s" "cur_proc_index s < int MAX_PROC"
    and i: "i < MAX_PROC" and n: "gap i (nat (cur_proc_index s)) < n"
  shows "next_loop (int i) r s =
    (if \<exists>j. live (proc_arr s) j \<and> gap i j \<le> gap i (nat (cur_proc_index s))
     then Some (last_state_regs (proc_arr (switched (next_live (proc_arr s) n i) r s) ! next_live (proc_arr s) n i),
                switched (next_live (proc_arr s) n i) r s)
     else Some (r, s))"
  using i n
proof (induction n arbitrary: i)
  case (Suc n)
  define c where "c = nat (cur_proc_index s)"
  have c: "cur_proc_index s = int c" "c < MAX_PROC" using ok by (auto simp: c_def)
  have len: "length (proc_arr s) = MAX_PROC" using ok(1) by (simp add: procs_ok_def)
  have slot: "live (proc_arr s) (succ_slot i) \<longleftrightarrow> pid (proc_arr s ! succ_slot i) \<noteq> -1"
    using ok(1) by (simp add: live_def procs_ok_def)
  have item: "item (proc_arr s) (int (succ_slot i)) = Some (proc_arr s ! succ_slot i)" by (simp add: len)
  note unfold = next_loop.simps [of "int i" r s, unfolded next_slot_int [OF Suc.prems(1)] Let_def nat_int item option.case]
  note gc = gap_succ [OF Suc.prems(1) c(2)]
  have near: "live (proc_arr s) j \<Longrightarrow> gap i j \<le> gap i c \<Longrightarrow> succ_slot i \<noteq> j \<Longrightarrow>
      gap i j = Suc (gap (succ_slot i) j)" for j
    using gap_succ [OF Suc.prems(1) live_less [OF ok(1)]] by simp
  show ?case
  proof (cases "live (proc_arr s) (succ_slot i)")
    case True
    then have "gap i (succ_slot i) = 0"
      using gap_succ [OF Suc.prems(1) succ_slot_less [of i]] by simp
    with True have "\<exists>j. live (proc_arr s) j \<and> gap i j \<le> gap i c" by (intro exI [of _ "succ_slot i"]) simp
    with True slot show ?thesis
      by (simp add: unfold switch_to_switched [OF ok] c_def del: of_nat_eq_iff)
  next
    case False
    show ?thesis
    proof (cases "succ_slot i = c")
      case True
      with gc have "gap i c = 0" by simp
      with near False True have none: "\<not> (\<exists>j. live (proc_arr s) j \<and> gap i j \<le> gap i c)" by fastforce
      have "next_loop (int i) r s = Some (r, s)" using True False slot c by (simp add: unfold)
      then show ?thesis using none c(1) by (simp only: if_False nat_int)
    next
      case ne: False
      with gc have g: "gap i c = Suc (gap (succ_slot i) c)" by simp
      have "(\<exists>j. live (proc_arr s) j \<and> gap i j \<le> gap i c) \<longleftrightarrow>
            (\<exists>j. live (proc_arr s) j \<and> gap (succ_slot i) j \<le> gap (succ_slot i) c)"
      proof (intro iff_exI conj_cong refl)
        fix j assume j: "live (proc_arr s) j"
        then have "succ_slot i \<noteq> j" using False by auto
        with gap_succ [OF Suc.prems(1) live_less [OF ok(1) j]] g
        show "gap i j \<le> gap i c \<longleftrightarrow> gap (succ_slot i) j \<le> gap (succ_slot i) c" by simp
      qed
      moreover have "next_loop (int i) r s = next_loop (int (succ_slot i)) r s"
        using False slot ne c by (simp add: unfold)
      moreover have "gap (succ_slot i) c < n" using Suc.prems(2) g by (simp add: c_def)
      ultimately show ?thesis using Suc.IH [of "succ_slot i"] False
        by (simp only: c_def next_live.simps if_False succ_slot_less)
    qed
  qed
qed simp

lemma gap_self: "i < MAX_PROC \<Longrightarrow> gap i i = MAX_PROC - 1"
  by (simp add: gap_def MAX_PROC_def)

lemma start_next_process_eq:
  assumes "procs_ok (proc_arr s)" "0 \<le> cur_proc_index s" "cur_proc_index s < int MAX_PROC"
    "scheduler_active s \<noteq> 0"
  shows "start_next_process r s =
    (if \<exists>j. live (proc_arr s) j
     then let i = next_live (proc_arr s) MAX_PROC (nat (cur_proc_index s))
          in Some (time_slice (priority_level (proc_arr s ! i)),
                   last_state_regs (proc_arr (switched i r s) ! i), switched i r s)
     else Some (time_slice (priority_level (proc_arr s ! nat (cur_proc_index s))), r, s))"
proof -
  define c where "c = nat (cur_proc_index s)"
  have c: "cur_proc_index s = int c" "c < MAX_PROC" using assms by (auto simp: c_def)
  have "gap c j \<le> gap c c" for j using gap_less [of c j] gap_self [OF c(2)] by simp
  then have "(\<exists>j. live (proc_arr s) j \<and> gap c j \<le> gap c c) \<longleftrightarrow> (\<exists>j. live (proc_arr s) j)" by blast
  with next_loop_eq [OF assms(1-3) c(2), of MAX_PROC r] gap_less [of c c] c(1)
  have "next_loop (int c) r s =
    (if \<exists>j. live (proc_arr s) j
     then Some (last_state_regs (proc_arr (switched (next_live (proc_arr s) MAX_PROC c) r s) !
                  next_live (proc_arr s) MAX_PROC c), switched (next_live (proc_arr s) MAX_PROC c) r s)
     else Some (r, s))" by (simp only: nat_int)
  moreover have "length (proc_arr s) = MAX_PROC" using assms(1) by (simp add: procs_ok_def)
  moreover have "length (proc_arr (switched i r s)) = MAX_PROC" for i
    using procs_ok_switched [OF assms(1)] by (simp add: procs_ok_def)
  ultimately show ?thesis using assms(4) c next_live_less [OF c(2), of "proc_arr s" MAX_PROC]
    by (cases "\<exists>j. live (proc_arr s) j") (simp_all add: start_next_process_def Let_def)
qed

lemma next_live_least:
  assumes "i < MAX_PROC" "j < MAX_PROC" "live ps j" "gap i j < n"
  shows "gap i (next_live ps n i) \<le> gap i j"
  using assms
proof (induction ps n i rule: next_live.induct)
  case (2 ps n i)
  show ?case
  proof (cases "live ps (succ_slot i)")
    case True
    with gap_succ [OF 2(2), of "succ_slot i"] show ?thesis by simp
  next
    case False
    let ?k = "next_live ps n (succ_slot i)"
    from False 2(4) have "succ_slot i \<noteq> j" by auto
    with gap_succ [OF 2(2,3)] have j: "gap i j = Suc (gap (succ_slot i) j)" by simp
    have k: "live ps ?k" using next_live_gap [of "succ_slot i" j ps n] 2 j by simp
    with False have "succ_slot i \<noteq> ?k" by metis
    with gap_succ [OF 2(2), of ?k] next_live_less [of "succ_slot i" ps n]
    have "gap i ?k = Suc (gap (succ_slot i) ?k)" by simp
    moreover have "gap (succ_slot i) ?k \<le> gap (succ_slot i) j" using 2 False j by simp
    ultimately show ?thesis using False j by simp
  qed
qed simp

section \<open>Sequences of switches\<close>

text \<open>The timer calls the scheduler again and again, each time with the registers of the process it
  interrupted; \<open>schedule\<close> gives the slots chosen and the registers handed back.\<close>

fun schedule :: "regs list \<Rightarrow> 'a sched_scheme \<Rightarrow> ((nat \<times> regs) list \<times> 'a sched_scheme) option" where
  "schedule [] s = Some ([], s)"
| "schedule (r # rs) s =
     (case start_next_process r s of
        None \<Rightarrow> None
      | Some (w, r', s) \<Rightarrow>
          (case schedule rs s of
             None \<Rightarrow> None
           | Some (xs, t) \<Rightarrow> Some ((nat (cur_proc_index s), r') # xs, t)))"

lemma sched_ok_switched:
  "sched_ok s \<Longrightarrow> live (proc_arr s) i \<Longrightarrow> sched_ok (switched i r s)"
  using live_less by (auto simp: sched_ok_def procs_ok_switched)

definition chosen :: "'a sched_scheme \<Rightarrow> nat" where
  "chosen s = next_live (proc_arr s) MAX_PROC (nat (cur_proc_index s))"

lemma sched_ok_cur: "sched_ok s \<Longrightarrow> nat (cur_proc_index s) < MAX_PROC"
  by (auto simp: sched_ok_def)

lemma live_chosen: "sched_ok s \<Longrightarrow> live (proc_arr s) (chosen s)"
  unfolding chosen_def sched_ok_def using next_live_live sched_ok_cur live_less
  by (metis sched_ok_cur sched_ok_def)

lemma schedule_Cons:
  assumes "sched_ok s" "scheduler_active s \<noteq> 0"
  shows "schedule (r # rs) s =
    (case schedule rs (switched (chosen s) r s) of
       None \<Rightarrow> None
     | Some (xs, t) \<Rightarrow>
         Some ((chosen s, last_state_regs (proc_arr (switched (chosen s) r s) ! chosen s)) # xs, t))"
proof -
  have "\<exists>j. live (proc_arr s) j" using assms(1) by (auto simp: sched_ok_def)
  then have "start_next_process r s =
    Some (time_slice (priority_level (proc_arr s ! chosen s)),
          last_state_regs (proc_arr (switched (chosen s) r s) ! chosen s), switched (chosen s) r s)"
    using assms start_next_process_eq [of s r] by (simp add: sched_ok_def chosen_def Let_def)
  then show ?thesis by (simp split: option.split)
qed

lemma schedule_ConsE:
  assumes "schedule (r # rs) s = Some (xs, t)" "sched_ok s" "scheduler_active s \<noteq> 0"
  obtains ys where "schedule rs (switched (chosen s) r s) = Some (ys, t)"
    "xs = (chosen s, last_state_regs (proc_arr (switched (chosen s) r s) ! chosen s)) # ys"
proof (cases "schedule rs (switched (chosen s) r s)")
  case None
  with assms schedule_Cons [OF assms(2,3), of r rs] show ?thesis by simp
next
  case (Some y)
  with assms schedule_Cons [OF assms(2,3), of r rs] that show ?thesis by (cases y) simp
qed

lemma schedule_total:
  "sched_ok s \<Longrightarrow> scheduler_active s \<noteq> 0 \<Longrightarrow>
     \<exists>xs t. schedule rs s = Some (xs, t) \<and> sched_ok t \<and> (\<forall>x \<in> set xs. live (proc_arr s) (fst x))"
proof (induction rs arbitrary: s)
  case (Cons r rs)
  obtain xs t where "schedule rs (switched (chosen s) r s) = Some (xs, t)" "sched_ok t"
    "\<forall>x \<in> set xs. live (proc_arr (switched (chosen s) r s)) (fst x)"
    using Cons.IH [of "switched (chosen s) r s"] Cons.prems sched_ok_switched live_chosen by fastforce
  then show ?case using live_chosen [OF Cons.prems(1)] by (simp add: schedule_Cons [OF Cons.prems] del: schedule.simps)
qed simp

lemma schedule_reaches:
  "sched_ok s \<Longrightarrow> scheduler_active s \<noteq> 0 \<Longrightarrow> live (proc_arr s) j \<Longrightarrow>
     gap (nat (cur_proc_index s)) j < length rs \<Longrightarrow>
     schedule rs s = Some (xs, t) \<Longrightarrow> j \<in> fst ` set xs"
proof (induction rs arbitrary: s xs)
  case (Cons r rs)
  have j: "j < MAX_PROC" using Cons.prems live_less by (auto simp: sched_ok_def)
  let ?s = "switched (chosen s) r s"
  obtain ys where ys: "schedule rs ?s = Some (ys, t)" "fst ` set xs = insert (chosen s) (fst ` set ys)"
    by (rule schedule_ConsE [OF Cons.prems(5,1,2)]) force
  have "chosen s = j \<or> gap (chosen s) j < gap (nat (cur_proc_index s)) j"
    using next_live_gap [OF sched_ok_cur [OF Cons.prems(1)] j Cons.prems(3) gap_less]
    by (simp add: chosen_def)
  then show ?case
  proof
    assume "gap (chosen s) j < gap (nat (cur_proc_index s)) j"
    then have "j \<in> fst ` set ys"
      using Cons.IH [OF _ _ _ _ ys(1)] Cons.prems sched_ok_switched live_chosen by fastforce
    with ys(2) show ?thesis by simp
  qed (simp add: ys(2))
qed simp

text \<open>What is saved in a slot other than the current one is still there when the slot is chosen.\<close>

lemma schedule_restores:
  "sched_ok s \<Longrightarrow> scheduler_active s \<noteq> 0 \<Longrightarrow> c < MAX_PROC \<Longrightarrow> cur_proc_index s \<noteq> int c \<Longrightarrow>
     schedule rs s = Some (xs @ (c, r') # ys, t) \<Longrightarrow> c \<notin> fst ` set xs \<Longrightarrow>
     r' = last_state_regs (proc_arr s ! c)"
proof (induction rs arbitrary: s xs)
  case (Cons r rs)
  let ?s = "switched (chosen s) r s"
  have "nat (cur_proc_index s) \<noteq> c" using Cons.prems(1,4) by (auto simp: sched_ok_def)
  then have same: "proc_arr ?s ! c = proc_arr s ! c" by (simp add: switched_def Let_def)
  obtain zs where zs: "schedule rs ?s = Some (zs, t)"
    "xs @ (c, r') # ys = (chosen s, last_state_regs (proc_arr ?s ! chosen s)) # zs"
    by (rule schedule_ConsE [OF Cons.prems(5,1,2)])
  show ?case
  proof (cases xs)
    case Nil
    with zs(2) same show ?thesis by simp
  next
    case (Cons x xs')
    with zs(2) Cons.prems(6) have z: "zs = xs' @ (c, r') # ys" "chosen s \<noteq> c" "c \<notin> fst ` set xs'"
      by auto
    have "r' = last_state_regs (proc_arr ?s ! c)"
      by (rule Cons.IH [of ?s xs'])
        (use Cons.prems zs(1) z in \<open>simp_all add: sched_ok_switched live_chosen\<close>)
    with same show ?thesis by simp
  qed
qed simp

text \<open>Without any process and with \<open>cur_proc_index\<close> still \<open>-1\<close> the loop has no way out.\<close>

lemma next_loop_stuck:
  assumes "next_loop i r s = Some res" "\<forall>j. \<not> live (proc_arr s) j" "procs_ok (proc_arr s)"
    "cur_proc_index s = -1" "-1 \<le> i" "i < int MAX_PROC"
  shows False
proof -
  have "(\<forall>j. \<not> live (proc_arr s) j) \<longrightarrow> procs_ok (proc_arr s) \<longrightarrow> cur_proc_index s = -1 \<longrightarrow> -1 \<le> i \<longrightarrow>
    i < int MAX_PROC \<longrightarrow> False"
    using assms(1)
  proof (induction rule: next_loop.raw_induct [rotated, consumes 1, case_names step])
    case (step f i r s res)
    define k where "k = (if int MAX_PROC \<le> i + 1 then 0 else i + 1)"
    show ?case
    proof (intro impI)
      assume a: "\<forall>j. \<not> live (proc_arr s) j" "procs_ok (proc_arr s)" "cur_proc_index s = -1" "-1 \<le> i"
        "i < int MAX_PROC"
      have k: "0 \<le> k" "k < int MAX_PROC" using a(4,5) by (auto simp: k_def MAX_PROC_def)
      then have "pid (proc_arr s ! nat k) = -1" "item (proc_arr s) k = Some (proc_arr s ! nat k)"
        using a(1,2) by (auto simp: live_def procs_ok_def nat_less_iff)
      then have "f k r s = Some res"
        using step(2) k a(3) by (simp add: k_def [symmetric] Let_def)
      from step(1) [OF this] a k show False by simp
    qed
  qed
  with assms(2-) show ?thesis by blast
qed

section \<open>Properties\<close>

text \<open>One switch: among the slots in use the scheduler takes the nearest after the current one
  in cyclic order, saves the interrupted registers in the slot it leaves (but on the first run),
  hands back those of the slot it enters, loads that process's page directory and grants it the
  slice of its priority. With no process it returns to the interrupted one, and while inactive it
  does nothing.\<close>

theorem start_next_process_round_robin:
  assumes "procs_ok (proc_arr s)" and "0 \<le> cur_proc_index s" and "cur_proc_index s < int MAX_PROC"
  shows "(if scheduler_active s = 0 then start_next_process r s = Some (50, r, s)
          else if \<exists>j. live (proc_arr s) j
          then \<exists>i. live (proc_arr s) i \<and>
              (\<forall>j. live (proc_arr s) j \<longrightarrow>
                 gap (nat (cur_proc_index s)) i \<le> gap (nat (cur_proc_index s)) j) \<and>
              start_next_process r s =
                Some (time_slice (priority_level (proc_arr s ! i)),
                      last_state_regs (proc_arr (switched i r s) ! i), switched i r s) \<and>
              sched_ok (switched i r s)
          else start_next_process r s =
                 Some (time_slice (priority_level (proc_arr s ! nat (cur_proc_index s))), r, s))"
proof (cases "scheduler_active s = 0")
  case False
  have c: "nat (cur_proc_index s) < MAX_PROC" using assms(2,3) by (simp add: nat_less_iff)
  show ?thesis
  proof (cases "\<exists>j. live (proc_arr s) j")
    case True
    then obtain j where j: "live (proc_arr s) j" by blast
    let ?i = "next_live (proc_arr s) MAX_PROC (nat (cur_proc_index s))"
    have i: "live (proc_arr s) ?i" using next_live_live [OF c live_less [OF assms(1) j] j] .
    have "\<forall>j. live (proc_arr s) j \<longrightarrow> gap (nat (cur_proc_index s)) ?i \<le> gap (nat (cur_proc_index s)) j"
      using next_live_least [OF c _ _ gap_less] live_less [OF assms(1)] by blast
    moreover have "sched_ok (switched ?i r s)"
      using i live_less [OF assms(1) i] assms(1) by (simp add: sched_ok_def procs_ok_switched)
    ultimately show ?thesis
      using True False i start_next_process_eq [OF assms, of r] by (auto simp: Let_def)
  next
    case none: False
    then show ?thesis using False start_next_process_eq [OF assms, of r] by (simp only: if_False simp_thms)
  qed
qed (simp add: start_next_process_def)

text \<open>Fairness: with an active scheduler and a running process, 32 timer switches in a row all
  succeed, go only to slots in use, and reach every slot in use at least once.\<close>

theorem scheduler_fair:
  assumes "sched_ok s" and "scheduler_active s \<noteq> 0" and "length rs = MAX_PROC"
  shows "\<exists>xs t. schedule rs s = Some (xs, t) \<and> sched_ok t \<and> fst ` set xs = {j. live (proc_arr s) j}"
proof -
  obtain xs t where xs: "schedule rs s = Some (xs, t)" "sched_ok t" "\<forall>x \<in> set xs. live (proc_arr s) (fst x)"
    using schedule_total [OF assms(1,2)] by blast
  have "j \<in> fst ` set xs" if "live (proc_arr s) j" for j
    using schedule_reaches [OF assms(1,2) that _ xs(1)] gap_less assms(3) by simp
  with xs show ?thesis by blast
qed

text \<open>Context switches are transparent: the registers of the interrupted process are handed
  back unchanged the next time its slot is chosen, whatever ran in between.\<close>

theorem context_round_trip:
  assumes "sched_ok s" and "scheduler_active s \<noteq> 0" and "is_first_run s = 0" and "cur_proc_index s = int c"
    and "schedule (r # rs) s = Some (xs @ (c, r') # ys, t)" and "c \<notin> fst ` set xs"
  shows "r' = r"
proof -
  let ?s = "switched (chosen s) r s"
  have c: "c < MAX_PROC" using assms(1,4) by (simp add: sched_ok_def)
  have len: "length (proc_arr s) = MAX_PROC" using assms(1) by (simp add: sched_ok_def procs_ok_def)
  have saved: "last_state_regs (proc_arr ?s ! c) = r"
    using assms(3,4) c len by (simp add: switched_def Let_def)
  obtain zs where zs: "schedule rs ?s = Some (zs, t)"
    "xs @ (c, r') # ys = (chosen s, last_state_regs (proc_arr ?s ! chosen s)) # zs"
    by (rule schedule_ConsE [OF assms(5,1,2)])
  show ?thesis
  proof (cases xs)
    case Nil
    with zs(2) saved show ?thesis by simp
  next
    case (Cons x xs')
    with zs(2) assms(6) have "zs = xs' @ (c, r') # ys" "chosen s \<noteq> c" "c \<notin> fst ` set xs'" by auto
    with schedule_restores [of ?s c rs xs' r' ys t] assms c zs(1) saved show ?thesis
      by (simp add: sched_ok_switched live_chosen)
  qed
qed

definition demo_sched :: sched where
  "demo_sched = \<lparr>mem = \<lambda>_. 0, dev = \<lambda>_ _. 0, trace = [], cx = 79, cy = 24, place_addr = 0x30000,
     idt = 0, idtp_limit = 0, idtp_base = 0, idtr = None, interrupts_on = True, fault_handlers = 0,
     irq_routines = [], frames = 0x40000, kernel_directory = 0x10000, current_dir = 0x10000, cr0 = 0,
     cr2 = 0, cr3 = 0, proc_arr = demo_table, list_size = 0, timer_ticks = 0, freq = 1000,
     time_slice_millis = 2, cur_proc_index = 0, scheduler_active = 1, is_first_run = 0\<rparr>"

lemma demo_sched_ok: "sched_ok demo_sched" "scheduler_active demo_sched \<noteq> 0" "is_first_run demo_sched = 0"
  "cur_proc_index demo_sched = int 0" "proc_arr demo_sched = demo_table"
  by (simp_all add: sched_ok_def demo_sched_def demo_table_ok MAX_PROC_def)

lemma start_next_process_round_robin_witness:
  "\<exists>w r' t. start_next_process (read_regs (\<lambda>_. 0) 0) demo_sched = Some (w, r', t)"
proof -
  have "procs_ok (proc_arr demo_sched)" "0 \<le> cur_proc_index demo_sched"
    "cur_proc_index demo_sched < int MAX_PROC" using demo_sched_ok(1) by (simp_all add: sched_ok_def)
  note start_next_process_round_robin [OF this, of "read_regs (\<lambda>_. 0) 0"]
  moreover have "\<exists>j. live (proc_arr demo_sched) j"
    by (rule exI [of _ 0]) (simp add: demo_sched_ok(5) demo_table_ok)
  ultimately show ?thesis using demo_sched_ok(2) by (simp only: if_True if_False) blast
qed

lemma scheduler_fair_witness:
  "\<exists>xs t. schedule (replicate 32 (read_regs (\<lambda>_. 0) 0)) demo_sched = Some (xs, t) \<and> fst ` set xs = {0, 2}"
  using scheduler_fair [OF demo_sched_ok(1,2), of "replicate 32 (read_regs (\<lambda>_. 0) 0)"]
  by (auto simp: MAX_PROC_def demo_sched_ok demo_table_ok)

lemma context_round_trip_witness:
  "\<exists>v t. schedule [read_regs (\<lambda>a. ucast a) 0, read_regs (\<lambda>_. 0) 0] demo_sched =
     Some ([(2, v), (0, read_regs (\<lambda>a. ucast a) 0)], t)"
proof -
  let ?r = "read_regs (\<lambda>a. ucast a) 0" and ?q = "read_regs (\<lambda>_. 0) 0"
  let ?s = "switched 2 ?r demo_sched"
  have ch: "chosen demo_sched = 2" "chosen ?s = 0"
    by (simp_all add: chosen_def demo_sched_ok demo_table_ok eval_nat_numeral MAX_PROC_def succ_slot_def)
  have ok: "sched_ok ?s" "scheduler_active ?s \<noteq> 0"
    using demo_sched_ok by (simp_all add: sched_ok_switched demo_table_ok)
  let ?v = "last_state_regs (proc_arr ?s ! 2)"
  obtain r' t where e: "schedule [?r, ?q] demo_sched = Some ([(2, ?v), (0, r')], t)"
    using schedule_Cons [OF demo_sched_ok(1,2), of ?r "[?q]"] schedule_Cons [OF ok, of ?q "[]"] ch by simp
  have "r' = ?r"
    by (rule context_round_trip [OF demo_sched_ok(1-4), of ?r "[?q]" "[(2, ?v)]" r' "[]" t])
      (use e in simp_all)
  with e show ?thesis by blast
qed

end
