(* ===== verification/Timer.thy ===== *)
theory Timer
  imports Scheduler
begin

text \<open>
  \<open>p_mode/drivers/timer/timer.c\<close>: the handler of interrupt line 0, which counts ticks and calls the
  scheduler at the end of a slice, and the programming of the interval timer. The variables
  \<open>timer_ticks\<close>, \<open>freq\<close> and \<open>time_slice_millis\<close> and \<open>set_time_slice\<close> are in theory \<open>Scheduler\<close>.
\<close>

definition slice_ticks :: "'a sched_scheme \<Rightarrow> u32" where
  "slice_ticks s = time_slice_millis s * freq s div 1000"

definition timer_handler :: "regs \<Rightarrow> 'a sched_scheme \<Rightarrow> (regs \<times> 'a sched_scheme) option" where
  "timer_handler r s =
     (let s = s\<lparr>timer_ticks := timer_ticks s + 1\<rparr> in
      if timer_ticks s = slice_ticks s then
        (case start_next_process r s of
           None \<Rightarrow> None
         | Some (millis, r, s) \<Rightarrow> Some (r, (set_time_slice millis s)\<lparr>timer_ticks := 0\<rparr>))
      else Some (r, s))"

definition timer_install :: "symbols \<Rightarrow> 'a ints_scheme \<Rightarrow> 'a ints_scheme option" where
  "timer_install syms s = irq_install_handler 0 (sym_timer_handler syms) s"

text \<open>\<open>divisor\<close> is an \<open>int16_t\<close>, shifted right arithmetically; a division by zero gives no result.\<close>

definition set_timer_freq :: "u32 \<Rightarrow> 'a sched_scheme \<Rightarrow> 'a sched_scheme option" where
  "set_timer_freq hz s =
     (if 11931080 div 65335 < hz then Some s
      else if hz = 0 then None
      else
        let divisor = (ucast (1193180 div hz) :: 16 word);
            s = outb 0x43 0x36 s;
            s = outb 0x40 (ucast (divisor AND 0xFF)) s;
            s = outb 0x40 (ucast (signed_drop_bit 8 divisor)) s
        in Some (s\<lparr>freq := hz\<rparr>))"

section \<open>Runs of ticks\<close>

text \<open>One tick per list element, each interrupting with those registers; the result lists the
  registers handed back.\<close>

fun ticks :: "regs list \<Rightarrow> 'a sched_scheme \<Rightarrow> (regs list \<times> 'a sched_scheme) option" where
  "ticks [] s = Some ([], s)"
| "ticks (r # rs) s =
     (case timer_handler r s of
        None \<Rightarrow> None
      | Some (r', s) \<Rightarrow> (case ticks rs s of None \<Rightarrow> None | Some (rs', s) \<Rightarrow> Some (r' # rs', s)))"

lemma slice_ticks_update [simp]: "slice_ticks (s\<lparr>timer_ticks := n\<rparr>) = slice_ticks s"
  by (simp add: slice_ticks_def)

lemma timer_handler_quiet:
  "timer_ticks s + 1 \<noteq> slice_ticks s \<Longrightarrow> timer_handler r s = Some (r, s\<lparr>timer_ticks := timer_ticks s + 1\<rparr>)"
  by (simp add: timer_handler_def)

lemma ticks_quiet:
  "(\<forall>n. n < length rs \<longrightarrow> timer_ticks s + 1 + of_nat n \<noteq> slice_ticks s) \<Longrightarrow>
     ticks rs s = Some (rs, s\<lparr>timer_ticks := timer_ticks s + of_nat (length rs)\<rparr>)"
proof (induction rs arbitrary: s)
  case (Cons r rs)
  let ?s = "s\<lparr>timer_ticks := timer_ticks s + 1\<rparr>"
  have "timer_ticks s + 1 \<noteq> slice_ticks s" using Cons.prems [rule_format, of 0] by simp
  then have "timer_handler r s = Some (r, ?s)" by (rule timer_handler_quiet)
  moreover have "timer_ticks ?s + 1 + of_nat n \<noteq> slice_ticks ?s" if "n < length rs" for n
    using Cons.prems [rule_format, of "Suc n"] that by (simp add: algebra_simps)
  ultimately show ?case using Cons.IH [of ?s] by (simp add: add.assoc)
qed simp

lemma ticks_append:
  "ticks (rs @ qs) s =
     (case ticks rs s of
        None \<Rightarrow> None
      | Some (rs', s) \<Rightarrow> (case ticks qs s of None \<Rightarrow> None | Some (qs', s) \<Rightarrow> Some (rs' @ qs', s)))"
  by (induction rs arbitrary: s) (auto split: option.split)

lemma unat_add_small: "unat a + n < 4294967296 \<Longrightarrow> unat ((a :: u32) + of_nat n) = unat a + n"
  by (simp add: unat_word_ariths unat_of_nat)

lemma divisor_bytes:
  "unat (ucast (x AND 0xFF) :: u8) + 256 * unat (ucast (signed_drop_bit 8 x) :: u8) = unat (x :: 16 word)"
proof -
  have "(ucast (x AND 0xFF) :: u8) = ucast x"
  proof -
    have "x AND 0xFF = take_bit 8 x" by (simp add: take_bit_eq_mask mask_eq_exp_minus_1)
    then show ?thesis by (intro bit_word_eqI) (auto simp: bit_simps)
  qed
  moreover have "(ucast (signed_drop_bit 8 x) :: u8) = ucast (drop_bit 8 x)"
    by (rule bit_word_eqI) (auto simp: bit_simps)
  moreover have "unat (ucast x :: u8) = unat x mod 256"
    by (simp add: unsigned_ucast_eq take_bit_eq_mod)
  moreover have "unat (ucast (drop_bit 8 x) :: u8) = unat x div 256"
  proof -
    have "unat x < 65536" using unsigned_less [of x, where 'a = nat] by simp
    then show ?thesis by (simp add: unsigned_ucast_eq take_bit_eq_mod unsigned_drop_bit_eq drop_bit_eq_div unat_div)
  qed
  ultimately show ?thesis by simp
qed

lemma divisor_fits: "0 < n \<Longrightarrow> 1193180 div n < 65536 \<longleftrightarrow> 19 \<le> (n :: nat)"
proof
  assume "0 < n" "1193180 div n < 65536"
  show "19 \<le> n"
  proof (rule ccontr)
    assume "\<not> 19 \<le> n"
    with \<open>0 < n\<close> have "1193180 div 18 \<le> (1193180 :: nat) div n" by (intro div_le_mono2) auto
    with \<open>1193180 div n < 65536\<close> show False by simp
  qed
next
  assume "0 < n" "19 \<le> n"
  then have "1193180 div n \<le> (1193180 :: nat) div 19" by (intro div_le_mono2) auto
  then show "1193180 div n < 65536" by simp
qed

lemma ticks_of_slice:
  assumes "unat (timer_ticks s) + length rs + 1 = unat (slice_ticks s)"
  shows "ticks (rs @ [r]) s =
    (case start_next_process r (s\<lparr>timer_ticks := slice_ticks s\<rparr>) of
       None \<Rightarrow> None
     | Some (millis, r', t) \<Rightarrow> Some (rs @ [r'], t\<lparr>time_slice_millis := millis, timer_ticks := 0\<rparr>))"
proof -
  have lt: "unat (slice_ticks s) < 4294967296" by (rule unat_less_2p32)
  have "timer_ticks s + 1 + of_nat n \<noteq> slice_ticks s" if "n < length rs" for n
  proof -
    have "unat (timer_ticks s + of_nat (Suc n)) = unat (timer_ticks s) + Suc n"
      by (rule unat_add_small) (use assms lt that in linarith)
    then show ?thesis using assms that by (auto simp: algebra_simps)
  qed
  then have quiet: "ticks rs s = Some (rs, s\<lparr>timer_ticks := timer_ticks s + of_nat (length rs)\<rparr>)"
    by (intro ticks_quiet) blast
  have "unat (timer_ticks s + of_nat (Suc (length rs))) = unat (slice_ticks s)"
    by (subst unat_add_small) (use assms lt in linarith)+
  then have "timer_ticks s + of_nat (Suc (length rs)) = slice_ticks s" by (simp only: word_unat_eq_iff)
  then have "timer_ticks s + of_nat (length rs) + 1 = slice_ticks s" by (simp add: algebra_simps)
  then show ?thesis
    by (simp add: ticks_append quiet timer_handler_def set_time_slice_def split: option.split)
qed

text \<open>The last tick of a slice switches to the slot that the scheduler chooses and hands back its registers.\<close>

definition next_regs :: "regs \<Rightarrow> 'a sched_scheme \<Rightarrow> regs" where
  "next_regs r s = (if int (chosen s) = cur_proc_index s then r else last_state_regs (proc_arr s ! chosen s))"

lemma timer_last_tick:
  assumes ok: "sched_ok s" and on: "scheduler_active s \<noteq> 0" "is_first_run s = 0" and tick: "timer_ticks s + 1 = slice_ticks s"
  shows "timer_handler r s = Some (next_regs r s, switched (chosen s) r s
    \<lparr>time_slice_millis := time_slice (priority_level (proc_arr s ! chosen s)), timer_ticks := 0\<rparr>)"
proof -
  let ?s = "s\<lparr>timer_ticks := timer_ticks s + 1\<rparr>" and ?c = "nat (cur_proc_index s)"
  let ?u = "switched (chosen s) r ?s"
  have cur: "procs_ok (proc_arr s)" "0 \<le> cur_proc_index s" "cur_proc_index s < int MAX_PROC" "live (proc_arr s) ?c"
    using ok by (simp_all add: sched_ok_def)
  then have len: "?c < length (proc_arr s)" by (simp add: live_def)
  have "start_next_process r ?s = Some (time_slice (priority_level (proc_arr s ! chosen s)), last_state_regs (proc_arr ?u ! chosen s), ?u)"
    using start_next_process_eq [of ?s r] cur on by (auto simp: chosen_def Let_def)
  moreover have "last_state_regs (proc_arr ?u ! chosen s) = next_regs r s"
    using on(2) len cur(2) by (auto simp: switched_def next_regs_def nth_list_update Let_def)
  moreover have "?u\<lparr>time_slice_millis := w, timer_ticks := 0\<rparr> = switched (chosen s) r s\<lparr>time_slice_millis := w, timer_ticks := 0\<rparr>" for w
    by (cases s) (simp add: switched_def Let_def)
  ultimately show ?thesis using tick by (simp add: timer_handler_def set_time_slice_def)
qed

section \<open>Properties\<close>

text \<open>Slices: from a count below the slice's length, every tick before the last one of the slice
  leaves the interrupted registers and everything but the count alone; the last one hands over to
  the scheduler, installs the slice it grants and restarts the count.\<close>

theorem timer_switches_on_last_tick:
  assumes "unat (timer_ticks s) + length rs + 1 = unat (slice_ticks s)"
  shows "ticks (rs @ [r]) s =
    (case start_next_process r (s\<lparr>timer_ticks := slice_ticks s\<rparr>) of
       None \<Rightarrow> None
     | Some (millis, r', t) \<Rightarrow> Some (rs @ [r'], t\<lparr>time_slice_millis := millis, timer_ticks := 0\<rparr>))"
  by (rule ticks_of_slice [OF assms])

text \<open>A slice shorter than one tick (5 ms at 100 Hz, the least priority at the frequency the
  kernel sets) never ends: no switch happens until the 32-bit count wraps round.\<close>

theorem short_slice_never_ends:
  assumes "slice_ticks s = 0" and "unat (timer_ticks s) + length rs < 4294967296"
  shows "ticks rs s = Some (rs, s\<lparr>timer_ticks := timer_ticks s + of_nat (length rs)\<rparr>)"
proof (intro ticks_quiet allI impI)
  fix n assume "n < length rs"
  then have "unat (timer_ticks s + of_nat (Suc n)) = unat (timer_ticks s) + Suc n"
    by (intro unat_add_small) (use assms(2) in linarith)
  then show "timer_ticks s + 1 + of_nat n \<noteq> slice_ticks s"
    using assms(1) by (auto simp: algebra_simps)
qed

text \<open>C40. Programming the timer: a frequency above 182 Hz is ignored and 0 has no defined result. Any
  other sends the mode byte and then, low byte first, the low 16 bits of the divisor
  \<open>1193180 div hz\<close>: the divisor itself from 19 Hz on, in spite of the signed 16-bit variable, and a
  truncated one below.\<close>

theorem timer_divisor:
  "(182 < unat hz \<longrightarrow> set_timer_freq hz s = Some s) \<and> set_timer_freq 0 s = None \<and>
   (0 < unat hz \<and> unat hz \<le> 182 \<longrightarrow>
      (\<exists>lo hi. set_timer_freq hz s =
           Some (s\<lparr>trace := Out8 0x40 hi # Out8 0x40 lo # Out8 0x43 0x36 # trace s, freq := hz\<rparr>) \<and>
         unat lo + 256 * unat hi = 1193180 div unat hz mod 65536 \<and>
         (unat lo + 256 * unat hi = 1193180 div unat hz \<longleftrightarrow> 19 \<le> unat hz)))"
proof (intro conjI impI)
  show "182 < unat hz \<Longrightarrow> set_timer_freq hz s = Some s"
    by (simp add: set_timer_freq_def word_less_nat_alt)
  show "set_timer_freq 0 s = None" by (simp add: set_timer_freq_def)
next
  assume hz: "0 < unat hz \<and> unat hz \<le> 182"
  define d :: "16 word" where "d = ucast (1193180 div hz)"
  let ?lo = "ucast (d AND 0xFF) :: u8" and ?hi = "ucast (signed_drop_bit 8 d) :: u8"
  have "hz \<noteq> 0" using hz by auto
  moreover have "\<not> 11931080 div 65335 < hz" using hz by (simp add: word_less_nat_alt)
  ultimately have e: "set_timer_freq hz s =
      Some (s\<lparr>trace := Out8 0x40 ?hi # Out8 0x40 ?lo # Out8 0x43 0x36 # trace s, freq := hz\<rparr>)"
    by (simp only: set_timer_freq_def if_False Let_def d_def [symmetric]) (simp add: outb_def)
  have "unat d = 1193180 div unat hz mod 65536"
    by (simp add: d_def unsigned_ucast_eq take_bit_eq_mod unat_div)
  then have b: "unat ?lo + 256 * unat ?hi = 1193180 div unat hz mod 65536"
    by (simp only: divisor_bytes)
  have "1193180 div unat hz mod 65536 = 1193180 div unat hz \<longleftrightarrow> 1193180 div unat hz < 65536"
    by (metis mod_less mod_less_divisor zero_less_numeral)
  with b divisor_fits [of "unat hz"] hz
  have "unat ?lo + 256 * unat ?hi = 1193180 div unat hz \<longleftrightarrow> 19 \<le> unat hz" by (simp only:)
  with e b show "\<exists>lo hi. set_timer_freq hz s =
           Some (s\<lparr>trace := Out8 0x40 hi # Out8 0x40 lo # Out8 0x43 0x36 # trace s, freq := hz\<rparr>) \<and>
         unat lo + 256 * unat hi = 1193180 div unat hz mod 65536 \<and>
         (unat lo + 256 * unat hi = 1193180 div unat hz \<longleftrightarrow> 19 \<le> unat hz)" by blast
qed

section \<open>Witnesses\<close>

text \<open>Slices of 2 ms at 1000 Hz: the second tick switches.\<close>

lemma timer_switches_on_last_tick_witness:
  "\<exists>rs t. ticks [read_regs (\<lambda>a. ucast a) 0, read_regs (\<lambda>_. 0) 0] demo_sched = Some (rs, t)"
proof -
  let ?s = "demo_sched\<lparr>timer_ticks := slice_ticks demo_sched\<rparr>" and ?q = "read_regs (\<lambda>_. 0) 0"
  have s: "procs_ok (proc_arr ?s)" "0 \<le> cur_proc_index ?s" "cur_proc_index ?s < int MAX_PROC"
    "scheduler_active ?s \<noteq> 0"
    by (simp_all add: demo_sched_def demo_table_ok MAX_PROC_def)
  then obtain w r' t where "start_next_process ?q ?s = Some (w, r', t)"
    using start_next_process_eq [OF s, of ?q] by (metis (lifting))
  moreover have "unat (timer_ticks demo_sched) + length [read_regs (\<lambda>a. ucast a) 0] + 1 =
    unat (slice_ticks demo_sched)" by (simp add: demo_sched_def slice_ticks_def)
  note timer_switches_on_last_tick [OF this, of ?q]
  ultimately show ?thesis by simp
qed

lemma short_slice_never_ends_witness:
  "\<exists>t. ticks [read_regs (\<lambda>_. 0) 0, read_regs (\<lambda>_. 0) 0]
     (demo_sched\<lparr>time_slice_millis := 5, freq := 100\<rparr>) =
     Some ([read_regs (\<lambda>_. 0) 0, read_regs (\<lambda>_. 0) 0], t)"
  using short_slice_never_ends [of "demo_sched\<lparr>time_slice_millis := 5, freq := 100\<rparr>"
      "[read_regs (\<lambda>_. 0) 0, read_regs (\<lambda>_. 0) 0]"]
  by (simp add: slice_ticks_def demo_sched_def)

lemma timer_divisor_witness:
  "\<exists>t. set_timer_freq 100 demo_sched = Some (t :: sched) \<and> freq t = 100"
  using timer_divisor [of 100 demo_sched] by auto

end
