(* ===== verification/Keyboard.thy ===== *)
theory Keyboard
  imports Timer
begin

text \<open>
  \<open>p_mode/drivers/keyboard/kb.c\<close> and the tables of \<open>include/kb.h\<close>: the handler of interrupt line 1. A scan
  code is the index of a key in \<open>kbdus\<close>, with bit 7 set on release. \<open>keyStatus\<close> has a bit for each
  modifier and function key that is down; \<open>key_bits\<close> lists these keys in the order of their bits. The
  commands for the light go through the controller's input buffer, which \<open>sendByte\<close> polls.
\<close>

record keyboard = sched +
  keyStatus :: u32
  shiftLookup :: "u8 list"

section \<open>Tables\<close>

definition chr :: "string \<Rightarrow> u8" where "chr c = of_char (hd c)"

definition kbdus :: "u8 list" where
  "kbdus = [0, 27] @ str ''1234567890-='' @ [8, 9] @ str ''qwertyuiop[]'' @ [10] @ str ''$asdfghjkl;'' @
     [39, 96] @ str ''L'' @ [92] @ str ''zxcvbnm,./R*A CDEFGHIJK?MNSTU!-Z'' @ [0] @ str ''V+'' @ [34] @
     str ''X@#%'' @ [0, 0, 0] @ str ''^&'' @ replicate 39 0"

text \<open>The masks of the two switches of the handler, by the character that \<open>kbdus\<close> gives the key.\<close>

definition release_masks :: "(u8 \<times> u32) list" where
  "release_masks =
     [(chr ''$'', 0xFFFFFFFE), (chr ''L'', 0xFFFFFFFD), (chr ''R'', 0xFFFFFFFB),
     (chr ''A'', 0xFFFFFFF7), (chr ''D'', 0xFFFFFFEF), (chr ''E'', 0xFFFFFFDF),
     (chr ''F'', 0xFFFFFFBF), (chr ''G'', 0xFFFFFF7F), (chr ''H'', 0xFFFFFEFF),
     (chr ''I'', 0xFFFFFDFF), (chr ''J'', 0xFFFFFBFF), (chr ''K'', 0xFFFFF7FF),
     (chr ''?'', 0xFFFFEFFF), (chr ''M'', 0xFFFFDFFF), (chr ''N'', 0xFFFFBFFF),
     (chr ''S'', 0xFFFF7FFF), (chr ''T'', 0xFFFEFFFF), (chr ''U'', 0xFFFDFFFF),
     (chr ''!'', 0xFFFBFFFF), (chr ''Z'', 0xFFF7FFFF), (chr ''V'', 0xFFEFFFFF), (34, 0xFFDFFFFF),
     (chr ''X'', 0xFFBFFFFF), (chr ''@'', 0xFF7FFFFF), (chr ''#'', 0xFEFFFFFF),
     (chr ''%'', 0xFDFFFFFF), (chr ''^'', 0xFBFFFFFF), (chr ''&'', 0xF7FFFFFF)]"

definition press_masks :: "(u8 \<times> u32) list" where
  "press_masks =
     [(chr ''$'', 0x00000001), (chr ''L'', 0x00000002), (chr ''R'', 0x00000004),
     (chr ''A'', 0x00000008), (chr ''D'', 0x00000010), (chr ''E'', 0x00000020),
     (chr ''F'', 0x00000040), (chr ''G'', 0x00000080), (chr ''H'', 0x00000100),
     (chr ''I'', 0x00000200), (chr ''J'', 0x00000400), (chr ''K'', 0x00000800),
     (chr ''?'', 0x00001000), (chr ''M'', 0x00002000), (chr ''N'', 0x00004000),
     (chr ''S'', 0x00008000), (chr ''T'', 0x00010000), (chr ''U'', 0x00020000),
     (chr ''!'', 0x00040000), (chr ''Z'', 0x00080000), (chr ''V'', 0x00100000), (34, 0x00200000),
     (chr ''X'', 0x00400000), (chr ''@'', 0x00800000), (chr ''#'', 0x01000000),
     (chr ''%'', 0x02000000), (chr ''^'', 0x04000000), (chr ''&'', 0x08000000)]"

definition initShiftLookup :: "'a keyboard_scheme \<Rightarrow> 'a keyboard_scheme" where
  "initShiftLookup s = s\<lparr>shiftLookup :=
     fold (\<lambda>(c, v) t. t[unat c := v])
       [(chr ''/'', chr ''?''), (chr ''.'', chr ''>''), (chr '','', chr ''<''), (96, chr ''~''),
        (chr ''1'', chr ''!''), (chr ''2'', chr ''@''), (chr ''3'', chr ''#''), (chr ''4'', chr ''$''),
        (chr ''5'', chr ''%''), (chr ''6'', chr ''^''), (chr ''7'', chr ''&''), (chr ''8'', chr ''*''),
        (chr ''9'', chr ''(''), (chr ''0'', chr '')''), (chr ''-'', chr ''_''), (chr ''='', chr ''+''),
        (chr ''['', chr ''{''), (chr '']'', chr ''}''), (chr '';'', chr '':''), (39, 34)]
       (shiftLookup s)\<rparr>"

section \<open>Queries\<close>

definition isAltPressed :: "'a keyboard_scheme \<Rightarrow> u32" where "isAltPressed s = 0x8 AND keyStatus s"
definition isCtrlPressed :: "'a keyboard_scheme \<Rightarrow> u32" where "isCtrlPressed s = 0x1 AND keyStatus s"
definition isLeftShiftPressed :: "'a keyboard_scheme \<Rightarrow> u32" where "isLeftShiftPressed s = 0x2 AND keyStatus s"
definition isRightShiftPressed :: "'a keyboard_scheme \<Rightarrow> u32" where "isRightShiftPressed s = 0x00000004 AND keyStatus s"
definition isCapsOn :: "'a keyboard_scheme \<Rightarrow> u32" where "isCapsOn s = 0x10000000 AND keyStatus s"
definition isF1Pressed :: "'a keyboard_scheme \<Rightarrow> u32" where "isF1Pressed s = 0x10 AND keyStatus s"
definition isF2Pressed :: "'a keyboard_scheme \<Rightarrow> u32" where "isF2Pressed s = 0x20 AND keyStatus s"
definition isF3Pressed :: "'a keyboard_scheme \<Rightarrow> u32" where "isF3Pressed s = 0x40 AND keyStatus s"
definition isF4Pressed :: "'a keyboard_scheme \<Rightarrow> u32" where "isF4Pressed s = 0x80 AND keyStatus s"
definition isF5Pressed :: "'a keyboard_scheme \<Rightarrow> u32" where "isF5Pressed s = 0x100 AND keyStatus s"
definition isF6Pressed :: "'a keyboard_scheme \<Rightarrow> u32" where "isF6Pressed s = 0x200 AND keyStatus s"
definition isF7Pressed :: "'a keyboard_scheme \<Rightarrow> u32" where "isF7Pressed s = 0x400 AND keyStatus s"
definition isF8Pressed :: "'a keyboard_scheme \<Rightarrow> u32" where "isF8Pressed s = 0x800 AND keyStatus s"
definition isF9Pressed :: "'a keyboard_scheme \<Rightarrow> u32" where "isF9Pressed s = 0x1000 AND keyStatus s"
definition isF10Pressed :: "'a keyboard_scheme \<Rightarrow> u32" where "isF10Pressed s = 0x2000 AND keyStatus s"
definition isNumLockPressed :: "'a keyboard_scheme \<Rightarrow> u32" where "isNumLockPressed s = 0x4000 AND keyStatus s"
definition isScrollLockPressed :: "'a keyboard_scheme \<Rightarrow> u32" where "isScrollLockPressed s = 0x8000 AND keyStatus s"
definition isHomeKeyPressed :: "'a keyboard_scheme \<Rightarrow> u32" where "isHomeKeyPressed s = 0x10000 AND keyStatus s"
definition isUpArrowPressed :: "'a keyboard_scheme \<Rightarrow> u32" where "isUpArrowPressed s = 0x20000 AND keyStatus s"
definition isPageUpPressed :: "'a keyboard_scheme \<Rightarrow> u32" where "isPageUpPressed s = 0x40000 AND keyStatus s"
definition isLeftArrowPressed :: "'a keyboard_scheme \<Rightarrow> u32" where "isLeftArrowPressed s = 0x80000 AND keyStatus s"
definition isRightArrowPressed :: "'a keyboard_scheme \<Rightarrow> u32" where "isRightArrowPressed s = 0x100000 AND keyStatus s"
definition isEndKeyPressed :: "'a keyboard_scheme \<Rightarrow> u32" where "isEndKeyPressed s = 0x200000 AND keyStatus s"
definition isDownArrowPressed :: "'a keyboard_scheme \<Rightarrow> u32" where "isDownArrowPressed s = 0x400000 AND keyStatus s"
definition isPageDownPressed :: "'a keyboard_scheme \<Rightarrow> u32" where "isPageDownPressed s = 0x800000 AND keyStatus s"
definition isInsertKeyPressed :: "'a keyboard_scheme \<Rightarrow> u32" where "isInsertKeyPressed s = 0x1000000 AND keyStatus s"
definition isDeleteKeyPressed :: "'a keyboard_scheme \<Rightarrow> u32" where "isDeleteKeyPressed s = 0x2000000 AND keyStatus s"
definition isF11Pressed :: "'a keyboard_scheme \<Rightarrow> u32" where "isF11Pressed s = 0x4000000 AND keyStatus s"
definition isF12Pressed :: "'a keyboard_scheme \<Rightarrow> u32" where "isF12Pressed s = 0x8000000 AND keyStatus s"

section \<open>The light\<close>

text \<open>The loop of \<open>sendByte\<close>, which waits until bit 1 of the status port is clear.\<close>

partial_function (option) wait_ready :: "'a machine_scheme \<Rightarrow> 'a machine_scheme option" where
  "wait_ready s = (case inb 0x64 s of (b, s) \<Rightarrow> if b AND 2 = 0 then Some s else wait_ready s)"

definition sendByte :: "u8 \<Rightarrow> u8 \<Rightarrow> 'a machine_scheme \<Rightarrow> 'a machine_scheme option" where
  "sendByte port data s = map_option (outb (ucast port) data) (wait_ready s)"

definition switchCapsLightOff :: "'a machine_scheme \<Rightarrow> 'a machine_scheme option" where
  "switchCapsLightOff s = Option.bind (sendByte 0x60 0xED s) (sendByte 0x60 0x00)"

definition switchCapsLightOn :: "'a machine_scheme \<Rightarrow> 'a machine_scheme option" where
  "switchCapsLightOn s = Option.bind (sendByte 0x60 0xED s) (sendByte 0x60 0x04)"

section \<open>The handler\<close>

text \<open>The last case of the second switch: a key that prints. The accesses to \<open>kbdus\<close> and \<open>shiftLookup\<close> have no
  result outside the arrays.\<close>

definition print_key :: "u8 \<Rightarrow> 'a keyboard_scheme \<Rightarrow> 'a keyboard_scheme option" where
  "print_key ch s =
     (let letter = (97 \<le> ch \<and> ch \<le> 122);
          L = (isLeftShiftPressed s \<noteq> 0); R = (isRightShiftPressed s \<noteq> 0); caps = (isCapsOn s \<noteq> 0)
      in if letter \<and> ((R \<or> L \<and> \<not> caps) \<or> (caps \<and> \<not> R \<and> \<not> L)) then Some (putc (ch - 32) s)
      else if letter \<and> caps \<and> (R \<or> L) then Some (putc ch s)
      else if L \<or> R then map_option (\<lambda>c. putc c s) (item (shiftLookup s) (uint ch))
      else Some (putc ch s))"

definition key_released :: "u8 \<Rightarrow> 'a keyboard_scheme \<Rightarrow> 'a keyboard_scheme option" where
  "key_released scancode s =
     Option.bind (item kbdus (uint scancode)) (\<lambda>ch.
       case map_of release_masks ch of
         Some k \<Rightarrow> Some (s\<lparr>keyStatus := keyStatus s AND k\<rparr>)
       | None \<Rightarrow> Some s)"

definition key_pressed :: "u8 \<Rightarrow> 'a keyboard_scheme \<Rightarrow> 'a keyboard_scheme option" where
  "key_pressed scancode s =
     Option.bind (item kbdus (uint scancode)) (\<lambda>ch.
      case map_of press_masks ch of
        Some k \<Rightarrow>
          let s = s\<lparr>keyStatus := keyStatus s OR k\<rparr> in
          Some (if ch = chr ''U'' then moveCursorUp s
                else if ch = chr ''Z'' then moveCursorLeft s
                else if ch = chr ''V'' then moveCursorRight s
                else if ch = chr ''X'' then moveCursorDown s
                else if ch = chr ''%'' then putc 127 s
                else s)
      | None \<Rightarrow>
          if ch = chr ''C'' then
            (if isCapsOn s \<noteq> 0 then switchCapsLightOff (s\<lparr>keyStatus := keyStatus s AND 0xEFFFFFF\<rparr>)
             else switchCapsLightOn (s\<lparr>keyStatus := keyStatus s OR 0x10000000\<rparr>))
          else print_key ch s)"

definition key_event :: "u8 \<Rightarrow> 'a keyboard_scheme \<Rightarrow> 'a keyboard_scheme option" where
  "key_event scancode s =
     (if scancode AND 0x80 \<noteq> 0 then key_released (scancode AND 0x7F) s
      else key_pressed scancode s)"

definition keyboard_handler :: "'a keyboard_scheme \<Rightarrow> 'a keyboard_scheme option" where
  "keyboard_handler s = (case inb 0x60 s of (scancode, s) \<Rightarrow> key_event scancode s)"

definition keyboard_install :: "symbols \<Rightarrow> 'a keyboard_scheme \<Rightarrow> 'a keyboard_scheme option" where
  "keyboard_install syms s =
     Option.bind (irq_install_handler 1 (sym_keyboard_handler syms) s)
       (\<lambda>s. map_option initShiftLookup (switchCapsLightOff s))"

section \<open>The tables by key\<close>

definition key_bits :: "nat list" where
  "key_bits = [29, 42, 54, 56, 59, 60, 61, 62, 63, 64, 65, 66, 67, 68, 69, 70, 71, 72, 73, 75, 77, 79, 80,
     81, 82, 83, 87, 88]"

lemma kbdus_numerals:
  "kbdus = [0, 27, 49, 50, 51, 52, 53, 54, 55, 56, 57, 48, 45, 61, 8, 9, 113, 119, 101, 114, 116, 121,
     117, 105, 111, 112, 91, 93, 10, 36, 97, 115, 100, 102, 103, 104, 106, 107, 108, 59, 39, 96, 76, 92,
     122, 120, 99, 118, 98, 110, 109, 44, 46, 47, 82, 42, 65, 32, 67, 68, 69, 70, 71, 72, 73, 74, 75, 63,
     77, 78, 83, 84, 85, 33, 45, 90, 0, 86, 43, 34, 88, 64, 35, 37, 0, 0, 0, 94, 38] @ replicate 39 0"
  by (simp add: kbdus_def str_def)

lemma length_kbdus [simp]: "length kbdus = 128"
  by (simp add: kbdus_numerals)

lemma press_masks_numerals:
  "press_masks = [(36, 0x1), (76, 0x2), (82, 0x4), (65, 0x8), (68, 0x10), (69, 0x20), (70, 0x40), (71, 0x80),
     (72, 0x100), (73, 0x200), (74, 0x400), (75, 0x800), (63, 0x1000), (77, 0x2000), (78, 0x4000),
     (83, 0x8000), (84, 0x10000), (85, 0x20000), (33, 0x40000), (90, 0x80000), (86, 0x100000),
     (34, 0x200000), (88, 0x400000), (64, 0x800000), (35, 0x1000000), (37, 0x2000000), (94, 0x4000000),
     (38, 0x8000000)]"
  by (simp add: press_masks_def chr_def)

lemma release_masks_numerals:
  "release_masks = map (\<lambda>(c, k). (c, NOT k)) press_masks"
  by (simp add: press_masks_def release_masks_def)

lemma press_bits: "list_all (\<lambda>j. map_of press_masks (kbdus ! (key_bits ! j)) = Some (2 ^ j)) [0..<28]"
  by code_simp

lemma press_keys: "list_all (\<lambda>i. map_of press_masks (kbdus ! i) \<noteq> None \<longrightarrow> i \<in> set key_bits) [0..<128]"
  by code_simp

lemma press_caps: "list_all (\<lambda>i. kbdus ! i = 67 \<longrightarrow> i = 58) [0..<128]"
  by code_simp

lemma key_bits_less: "list_all (\<lambda>i. i < 128) key_bits"
  by (simp add: key_bits_def)

lemma distinct_key_bits: "distinct key_bits" and length_key_bits: "length key_bits = 28"
  by (simp_all add: key_bits_def)

lemma press_bit: "j < 28 \<Longrightarrow> map_of press_masks (kbdus ! (key_bits ! j)) = Some (2 ^ j)"
  using press_bits by (simp add: list_all_iff)

lemma press_key:
  assumes "i < 128" "map_of press_masks (kbdus ! i) = Some k"
  obtains j where "j < 28" "i = key_bits ! j" "k = 2 ^ j"
proof -
  have "i \<in> set key_bits" using press_keys assms by (simp add: list_all_iff)
  then obtain j where j: "j < 28" "i = key_bits ! j" by (auto simp: in_set_conv_nth length_key_bits)
  with press_bit assms(2) have "k = 2 ^ j" by simp
  with j show ?thesis by (rule that)
qed

lemma release_bit: "map_of release_masks c = map_option (\<lambda>k. NOT k) (map_of press_masks c)"
  by (simp add: release_masks_numerals map_of_map)

section \<open>The status word as the set of keys held down\<close>

text \<open>The keys held down after a sequence of scan codes.\<close>

fun held :: "u8 list \<Rightarrow> nat set \<Rightarrow> nat set" where
  "held [] H = H"
| "held (sc # scs) H =
     held scs (if sc AND 0x80 \<noteq> 0 then H - {unat (sc AND 0x7F)} else insert (unat sc) H)"

fun key_events :: "u8 list \<Rightarrow> 'a keyboard_scheme \<Rightarrow> 'a keyboard_scheme option" where
  "key_events [] s = Some s"
| "key_events (sc # scs) s = Option.bind (key_event sc s) (key_events scs)"

definition status_shows :: "nat set \<Rightarrow> u32 \<Rightarrow> bool" where
  "status_shows H ks \<longleftrightarrow> (\<forall>j<28. bit ks j \<longleftrightarrow> key_bits ! j \<in> H)"

definition next_status :: "u8 \<Rightarrow> u32 \<Rightarrow> u32" where
  "next_status sc ks =
     (if sc AND 0x80 \<noteq> 0 then
        (case map_of press_masks (kbdus ! unat (sc AND 0x7F)) of Some k \<Rightarrow> ks AND NOT k | None \<Rightarrow> ks)
      else (case map_of press_masks (kbdus ! unat sc) of Some k \<Rightarrow> ks OR k | None \<Rightarrow> ks))"

lemma code_less: "unat (sc AND 0x7F :: u8) < 128" "sc AND 0x80 = 0 \<Longrightarrow> unat (sc :: u8) < 128"
proof -
  have m: "unat (sc AND 0x7F) < 128" for sc :: u8
  proof -
    have "sc AND 0x7F = take_bit 7 sc" by (simp add: take_bit_eq_mask mask_eq_exp_minus_1)
    then show ?thesis by (simp add: unat_mod take_bit_eq_mod)
  qed
  show "unat (sc AND 0x7F :: u8) < 128" by (rule m)
  assume "sc AND 0x80 = 0"
  then have "\<not> bit sc 7" using and_exp_eq_0_iff_not_bit [of sc 7] by simp
  then have "sc = take_bit 7 sc"
    by (intro bit_word_eqI) (auto simp: bit_simps less_Suc_eq numeral_nat)
  also have "take_bit 7 sc = sc AND 0x7F" by (simp add: take_bit_eq_mask mask_eq_exp_minus_1)
  finally have "sc = sc AND 0x7F" .
  with m [of sc] show "unat sc < 128" by simp
qed

lemma bit_nth_eq: "j < 28 \<Longrightarrow> j' < 28 \<Longrightarrow> key_bits ! j = key_bits ! j' \<longleftrightarrow> j = j'"
  using distinct_key_bits by (simp add: nth_eq_iff_index_eq length_key_bits)

lemma bit_power: "bit (2 ^ j :: u32) n \<longleftrightarrow> n = j \<and> j < 32"
  by (auto simp: bit_simps)

lemma next_status_shows:
  assumes "status_shows H ks"
  shows "status_shows (held [sc] H) (next_status sc ks)"
proof -
  define i where "i = (if sc AND 0x80 \<noteq> 0 then unat (sc AND 0x7F) else unat sc)"
  have i: "i < 128" using code_less by (simp add: i_def)
  show ?thesis
  proof (cases "map_of press_masks (kbdus ! i)")
    case None
    have "key_bits ! j \<noteq> i" if "j < 28" for j using press_bit [OF that] None by auto
    moreover have "next_status sc ks = ks" using None by (auto simp: next_status_def i_def split: if_splits)
    ultimately show ?thesis using assms by (auto simp: status_shows_def i_def split: if_splits)
  next
    case (Some k)
    with i obtain j' where j': "j' < 28" "i = key_bits ! j'" "k = 2 ^ j'" by (rule press_key)
    have n: "next_status sc ks = (if sc AND 0x80 \<noteq> 0 then ks AND NOT (2 ^ j') else ks OR 2 ^ j')"
      using Some j'(3) by (auto simp: next_status_def i_def split: if_splits)
    have h: "held [sc] H = (if sc AND 0x80 \<noteq> 0 then H - {key_bits ! j'} else insert (key_bits ! j') H)"
      using j'(2) by (auto simp: i_def split: if_splits)
    show ?thesis
      using assms j'(1) unfolding n h status_shows_def
      by (auto simp: bit_nth_eq bit_and_iff bit_or_iff bit_not_iff bit_power)
  qed
qed

lemma cursor_keys_step:
  assumes "cursor_ok s"
  shows "console_step s (moveCursorUp s)" "console_step s (moveCursorDown s)"
    "console_step s (moveCursorLeft s)" "console_step s (moveCursorRight s)"
  using assms
  by (auto simp: console_step_def moveCursorUp_def moveCursorDown_def moveCursorLeft_def moveCursorRight_def
      cursor_ok_def update_cursor_def move_cursor_def outb_def Let_def ROWS_def COLUMNS_def console_frame_def)

lemma keyStatus_update_same [simp]: "s\<lparr>keyStatus := keyStatus s\<rparr> = s"
  by simp

lemma print_key_step: "cursor_ok s \<Longrightarrow> print_key ch s = Some t \<Longrightarrow> console_step s t"
  by (auto simp: print_key_def Let_def putc_step split: if_splits)

lemma print_key_total: "unat ch < length (shiftLookup s) \<Longrightarrow> \<exists>t. print_key ch s = Some t"
  by (simp add: print_key_def Let_def)

lemma no_caps_code: "sc \<noteq> 58 \<Longrightarrow> sc AND 0x80 = 0 \<Longrightarrow> kbdus ! unat sc \<noteq> 67" for sc :: u8
proof
  assume "sc \<noteq> 58" "sc AND 0x80 = 0" "kbdus ! unat sc = 67"
  moreover from this press_caps code_less(2) have "unat sc = 58" by (simp add: list_all_iff)
  ultimately show False by (simp add: word_unat_eq_iff)
qed

lemma initShiftLookup_length [simp]: "length (shiftLookup (initShiftLookup s)) = length (shiftLookup s)"
proof -
  have "length (fold (\<lambda>(c, v) t. t[unat c := v]) xs t) = length t" for xs :: "(u8 \<times> u8) list" and t :: "u8 list"
    by (induction xs arbitrary: t) (auto simp: case_prod_beta)
  then show ?thesis by (simp add: initShiftLookup_def del: fold.simps)
qed

lemma kbdus_less: "list_all (\<lambda>c. c < 128) kbdus"
  by (simp add: kbdus_numerals list_all_iff)

lemma key_event_item:
  "key_event sc s =
     (if sc AND 0x80 \<noteq> 0 then
        (case map_of press_masks (kbdus ! unat (sc AND 0x7F)) of
           Some k \<Rightarrow> Some (s\<lparr>keyStatus := keyStatus s AND NOT k\<rparr>) | None \<Rightarrow> Some s)
      else key_pressed sc s)"
  by (simp add: key_event_def key_released_def code_less(1) release_bit split: option.split)

text \<open>A key but caps lock only prints or moves the cursor, after the status word has changed.\<close>

lemma key_event_step:
  assumes "cursor_ok s" "sc \<noteq> 58" "key_event sc s = Some t"
  shows "console_step (s\<lparr>keyStatus := next_status sc (keyStatus s)\<rparr>) t"
proof -
  have ok: "cursor_ok (s\<lparr>keyStatus := k\<rparr>)" for k using assms(1) by (simp add: cursor_ok_def)
  show ?thesis
  proof (cases "sc AND 0x80 = 0")
    case False
    then show ?thesis
      using ok assms(1,3) by (auto simp: key_event_item next_status_def console_step_refl split: option.splits)
  next
    case True
    note less = code_less(2) [OF True]
    show ?thesis
    proof (cases "map_of press_masks (kbdus ! unat sc)")
      case None
      have "kbdus ! unat sc \<noteq> chr ''C''" using no_caps_code [OF assms(2) True] by (simp add: chr_def)
      with None True assms(1,3) less show ?thesis
        by (auto simp: key_event_def key_pressed_def next_status_def intro!: print_key_step)
    next
      case (Some k)
      then have t: "t = (let u = s\<lparr>keyStatus := keyStatus s OR k\<rparr>; ch = kbdus ! unat sc in
          if ch = chr ''U'' then moveCursorUp u else if ch = chr ''Z'' then moveCursorLeft u
          else if ch = chr ''V'' then moveCursorRight u else if ch = chr ''X'' then moveCursorDown u
          else if ch = chr ''%'' then putc 127 u else u)"
        using assms(3) True less by (simp add: key_event_def key_pressed_def Let_def)
      have "next_status sc (keyStatus s) = keyStatus s OR k" using True Some by (simp add: next_status_def)
      then show ?thesis unfolding t Let_def
        using cursor_keys_step [OF ok] putc_step [OF ok] console_step_refl [OF ok] by simp
    qed
  qed
qed

lemma key_event_total:
  assumes "length (shiftLookup s) = 128" "sc \<noteq> 58"
  shows "\<exists>t. key_event sc s = Some t"
proof (cases "sc AND 0x80 = 0")
  case True
  note less = code_less(2) [OF True]
  have "kbdus ! unat sc \<noteq> chr ''C''" using no_caps_code [OF assms(2) True] by (simp add: chr_def)
  moreover have "kbdus ! unat sc < 128" using kbdus_less less by (simp add: list_all_length)
  then have "\<exists>t. print_key (kbdus ! unat sc) s = Some t"
    using assms(1) by (intro print_key_total) (simp add: word_less_nat_alt)
  ultimately show ?thesis using True less
    by (cases "map_of press_masks (kbdus ! unat sc)") (auto simp: key_event_def key_pressed_def Let_def)
qed (simp add: key_event_item split: option.split)

lemma console_step_keyStatus:
  assumes "console_step s t"
  shows "keyStatus t = keyStatus s" and console_step_shiftLookup: "shiftLookup t = shiftLookup s"
proof -
  have e: "t = s\<lparr>mem := mem t, trace := trace t, cx := cx t, cy := cy t\<rparr>"
    using assms by (simp add: console_step_def console_frame_def)
  show "keyStatus t = keyStatus s" "shiftLookup t = shiftLookup s" by (subst e, simp)+
qed

section \<open>The controller\<close>

text \<open>The controller is busy at its \<open>n\<close>-th reading from now.\<close>

definition busy :: "nat \<Rightarrow> 'a machine_scheme \<Rightarrow> bool" where
  "busy n s \<longleftrightarrow> (ucast (dev s (replicate n (In8 0x64) @ trace s) (In8 0x64)) :: u8) AND 2 \<noteq> 0"

lemma busy_Suc: "busy n (s\<lparr>trace := In8 0x64 # trace s\<rparr>) = busy (Suc n) s"
  by (simp add: busy_def replicate_app_Cons_same)

lemma wait_ready_step:
  "wait_ready s =
     (if busy 0 s then wait_ready (s\<lparr>trace := In8 0x64 # trace s\<rparr>)
      else Some (s\<lparr>trace := In8 0x64 # trace s\<rparr>))"
  by (subst wait_ready.simps) (simp add: inb_def busy_def)

lemma wait_ready_Some:
  "\<not> busy n s \<Longrightarrow> \<forall>k<n. busy k s \<Longrightarrow>
     wait_ready s = Some (s\<lparr>trace := replicate (Suc n) (In8 0x64) @ trace s\<rparr>)"
proof (induction n arbitrary: s)
  case 0
  then show ?case by (subst wait_ready_step) simp
next
  case (Suc n)
  let ?s = "s\<lparr>trace := In8 0x64 # trace s\<rparr>"
  have "wait_ready ?s = Some (?s\<lparr>trace := replicate (Suc n) (In8 0x64) @ trace ?s\<rparr>)"
    by (rule Suc.IH) (use Suc.prems in \<open>auto simp: busy_Suc\<close>)
  moreover have "busy 0 s" using Suc.prems(2) by simp
  ultimately show ?case by (subst wait_ready_step) (simp add: replicate_app_Cons_same)
qed

lemma wait_ready_None:
  assumes "\<forall>n. busy n s"
  shows "wait_ready s = None"
proof -
  have "\<not> (\<forall>n. busy n s)" if "wait_ready s = Some t" for s t :: "'a machine_scheme"
    using that
  proof (induction rule: wait_ready.raw_induct [rotated, consumes 1, case_names step])
    case (step f s t)
    show ?case
    proof (cases "busy 0 s")
      case True
      with step(2) have "f (s\<lparr>trace := In8 0x64 # trace s\<rparr>) = Some t" by (simp add: inb_def busy_def)
      then have "\<not> (\<forall>n. busy n (s\<lparr>trace := In8 0x64 # trace s\<rparr>))" by (rule step(1))
      then show ?thesis by (auto simp: busy_Suc)
    qed auto
  qed
  with assms show ?thesis by (cases "wait_ready s") auto
qed

lemma sendByte_eq:
  "sendByte port data s =
     (if \<forall>n. busy n s then None
      else Some (s\<lparr>trace := Out8 (ucast port) data # replicate (Suc (LEAST n. \<not> busy n s)) (In8 0x64) @ trace s\<rparr>))"
proof (cases "\<forall>n. busy n s")
  case True
  then show ?thesis by (simp add: sendByte_def wait_ready_None)
next
  case False
  then obtain n where "\<not> busy n s" by blast
  then have "\<not> busy (LEAST n. \<not> busy n s) s" by (rule LeastI)
  moreover have "\<forall>k<(LEAST n. \<not> busy n s). busy k s" using not_less_Least by blast
  ultimately have "wait_ready s = Some (s\<lparr>trace := replicate (Suc (LEAST n. \<not> busy n s)) (In8 0x64) @ trace s\<rparr>)"
    by (rule wait_ready_Some)
  then show ?thesis unfolding if_not_P [OF False] sendByte_def by (simp add: outb_def)
qed

text \<open>A keyboard controller whose input buffer empties again and again.\<close>

definition controller_ok :: "'a machine_scheme \<Rightarrow> bool" where
  "controller_ok s \<longleftrightarrow> (\<forall>tr. \<exists>n. (ucast (dev s (replicate n (In8 0x64) @ tr) (In8 0x64)) :: u8) AND 2 = 0)"

lemma sendByte_returns:
  assumes "controller_ok s"
  shows "\<exists>tr. sendByte p b s = Some (s\<lparr>trace := tr\<rparr>)"
proof -
  have idle: "\<not> (\<forall>n. busy n s)" using assms by (auto simp: controller_ok_def busy_def)
  show ?thesis unfolding sendByte_eq if_not_P [OF idle] by blast
qed

text \<open>With it every key is handled to the end, and only the screen's memory changes.\<close>

lemma key_event_returns:
  assumes "cursor_ok s" "controller_ok s" "length (shiftLookup s) = 128"
  shows "\<exists>t. key_event sc s = Some t \<and> (\<forall>x. x \<notin> video \<longrightarrow> mem t x = mem s x)"
proof (cases "sc = 58")
  case False
  from key_event_total [OF assms(3) False] obtain t where t: "key_event sc s = Some t" by blast
  from key_event_step [OF assms(1) False t] t show ?thesis by (auto simp: console_step_def console_frame_def)
next
  case True
  have idle: "\<not> (\<forall>n. busy n u)" if "dev u = dev s" for u :: "'a keyboard_scheme"
    using assms(2) that by (auto simp: controller_ok_def busy_def)
  have "\<exists>k b. key_event sc s = Option.bind (sendByte 0x60 0xED (s\<lparr>keyStatus := k\<rparr>)) (sendByte 0x60 b)"
    using True by (auto simp: key_event_def key_pressed_def kbdus_numerals press_masks_numerals chr_def
        switchCapsLightOff_def switchCapsLightOn_def)
  then obtain k b where e: "key_event sc s = Option.bind (sendByte 0x60 0xED (s\<lparr>keyStatus := k\<rparr>)) (sendByte 0x60 b)"
    by blast
  show ?thesis unfolding e by (simp add: sendByte_eq idle)
qed

section \<open>Properties\<close>

text \<open>\<open>keyStatus\<close> is the set of modifier and function keys that are down: after any sequence of
  presses and releases (of keys other than caps lock) the handler has returned each time, each of the
  28 bits is set exactly when its key was pressed last and not released since, and the cursor is on
  the screen.\<close>

theorem status_tracks_keys:
  assumes "cursor_ok s" and "status_shows H (keyStatus s)" and "58 \<notin> set scs" and "length (shiftLookup s) = 128"
  shows "\<exists>t. key_events scs s = Some t \<and> cursor_ok t \<and> status_shows (held scs H) (keyStatus t)"
  using assms
proof (induction scs arbitrary: s H)
  case (Cons sc scs)
  obtain t where t: "key_event sc s = Some t" using key_event_total [OF Cons.prems(4), of sc] Cons.prems(3) by auto
  have step: "console_step (s\<lparr>keyStatus := next_status sc (keyStatus s)\<rparr>) t"
    by (rule key_event_step [OF Cons.prems(1) _ t]) (use Cons.prems(3) in simp)
  have "length (shiftLookup t) = 128" using console_step_shiftLookup [OF step] Cons.prems(4) by simp
  have ks: "keyStatus t = next_status sc (keyStatus s)" using console_step_keyStatus [OF step] by simp
  have "status_shows (held [sc] H) (keyStatus t)"
    unfolding ks by (rule next_status_shows) (rule Cons.prems(2))
  moreover have "58 \<notin> set scs" using Cons.prems(3) by simp
  ultimately obtain u where "key_events scs t = Some u" "cursor_ok u"
    "status_shows (held scs (held [sc] H)) (keyStatus u)"
    using Cons.IH [OF console_step_ok [OF step], of "held [sc] H"] \<open>length (shiftLookup t) = 128\<close> by blast
  with t show ?case by simp
qed simp

lemma shift_bits:
  "isLeftShiftPressed s \<noteq> 0 \<longleftrightarrow> bit (keyStatus s) 1" "isRightShiftPressed s \<noteq> 0 \<longleftrightarrow> bit (keyStatus s) 2"
  "isCapsOn s \<noteq> 0 \<longleftrightarrow> bit (keyStatus s) 28"
  using and_exp_eq_0_iff_not_bit [of "keyStatus s" 1] and_exp_eq_0_iff_not_bit [of "keyStatus s" 2]
    and_exp_eq_0_iff_not_bit [of "keyStatus s" 28]
  by (simp_all add: isLeftShiftPressed_def isRightShiftPressed_def isCapsOn_def and.commute)

lemma fold_update_nth:
  fixes k :: u8
  assumes "\<forall>x \<in> set xs. unat (fst x) < length t" "unat k < length t" "distinct (map fst xs)"
  shows "fold (\<lambda>(c, v) t. t[unat c := v]) xs t ! unat k =
    (case map_of xs k of Some v \<Rightarrow> v | None \<Rightarrow> t ! unat k)"
  using assms
proof (induction xs arbitrary: t)
  case (Cons x xs)
  obtain c v where x: "x = (c, v)" by (cases x)
  have "map_of xs c = None" using Cons.prems(3) by (simp add: x map_of_eq_None_iff)
  moreover have "unat c = unat k \<longleftrightarrow> c = k" by (simp add: word_unat_eq_iff)
  ultimately show ?case using Cons by (auto simp: x nth_list_update split: option.split)
qed simp

text \<open>A key that is neither modifier, function key nor caps lock prints exactly one character:
  letters in upper case when the right shift key is down, or when one of left shift and caps lock
  is; other keys with a shift key down as the table of \<open>initShiftLookup\<close> says, which is 0 for every key
  not listed there (space, newline, backspace, tab and backslash among them).\<close>

theorem key_prints:
  assumes "sc AND 0x80 = 0" and "sc \<noteq> 58" and "unat sc \<notin> set key_bits"
    and "shiftLookup s = shiftLookup (initShiftLookup (s0\<lparr>shiftLookup := replicate 128 0\<rparr>))"
  shows "key_event sc s = Some (putc
    (let ch = kbdus ! unat sc; L = bit (keyStatus s) 1; R = bit (keyStatus s) 2; caps = bit (keyStatus s) 28
     in if 97 \<le> ch \<and> ch \<le> 122 then (if R \<or> L \<noteq> caps then ch - 32 else ch)
        else if L \<or> R then
          (case map_of (zip (str ''/.,'' @ [96] @ str ''1234567890-=[];'' @ [39])
                            (str ''?><~!@#$%^&*()_+{}:'' @ [34])) ch of Some v \<Rightarrow> v | None \<Rightarrow> 0)
        else ch) s)"
proof -
  let ?ch = "kbdus ! unat sc"
  have sc: "unat sc < 128" using code_less(2) assms(1) by blast
  then have none: "map_of press_masks ?ch = None"
    using press_keys assms(3) by (auto simp: list_all_iff)
  have ch: "?ch < 128" using kbdus_less sc by (simp add: list_all_length)
  then have ch: "unat ?ch < 128" by (simp add: word_less_nat_alt)
  have notC: "?ch \<noteq> chr ''C''" using no_caps_code [OF assms(2,1)] by (simp add: chr_def)
  have table: "shiftLookup s ! unat ?ch =
    (case map_of (zip (str ''/.,'' @ [96] @ str ''1234567890-=[];'' @ [39])
                      (str ''?><~!@#$%^&*()_+{}:'' @ [34])) ?ch of Some v \<Rightarrow> v | None \<Rightarrow> 0)"
    unfolding assms(4) initShiftLookup_def
    using ch by (simp add: fold_update_nth chr_def str_def del: fold.simps map_of.simps split: option.split)
  have "key_event sc s = print_key ?ch s"
    using assms(1) none notC sc by (simp add: key_event_def key_pressed_def)
  moreover have "length (shiftLookup s) = 128" by (simp add: assms(4) initShiftLookup_length)
  ultimately show ?thesis using ch
    by (auto simp: print_key_def shift_bits table Let_def)
qed

text \<open>C35. Caps lock toggles: with a controller that becomes ready again and again, pressing the key
  inverts bit 28 of \<open>keyStatus\<close> and sends the two bytes of the light command, each after the
  controller's input buffer was seen empty; with one that stays busy the handler never returns.
  Switching it off also clears bit 24, the insert key.\<close>

theorem caps_lock_toggles:
  "((\<forall>tr. \<exists>n. (ucast (dev s (replicate n (In8 0x64) @ tr) (In8 0x64)) :: u8) AND 2 = 0) \<longrightarrow>
    (\<exists>i j. key_event 58 s = Some (s\<lparr>
      keyStatus := (if bit (keyStatus s) 28 then keyStatus s AND 0xEFFFFFF else keyStatus s OR 0x10000000),
      trace := Out8 0x60 (if bit (keyStatus s) 28 then 0 else 4) # replicate (Suc j) (In8 0x64) @
        Out8 0x60 0xED # replicate (Suc i) (In8 0x64) @ trace s\<rparr>))) \<and>
   ((\<forall>n. busy n s) \<longrightarrow> key_event 58 s = None)"
proof (intro conjI impI)
  let ?on = "bit (keyStatus s) 28"
  let ?s = "s\<lparr>keyStatus := (if ?on then keyStatus s AND 0xEFFFFFF else keyStatus s OR 0x10000000)\<rparr>"
  have ev: "key_event 58 s =
    Option.bind (sendByte 0x60 0xED ?s) (sendByte 0x60 (if ?on then 0 else 4))"
    by (simp add: key_event_def key_pressed_def kbdus_numerals press_masks_numerals chr_def shift_bits
        switchCapsLightOff_def switchCapsLightOn_def)
  {
    assume "\<forall>n. busy n s"
    then have "\<forall>n. busy n ?s" by (simp add: busy_def)
    then show "key_event 58 s = None" by (simp only: ev sendByte_eq) simp
  next
    assume ready: "\<forall>tr. \<exists>n. (ucast (dev s (replicate n (In8 0x64) @ tr) (In8 0x64)) :: u8) AND 2 = 0"
    have send: "\<exists>i. sendByte 0x60 b u = Some (u\<lparr>trace := Out8 0x60 b # replicate (Suc i) (In8 0x64) @ trace u\<rparr>)"
      if "dev u = dev s" for u :: "'a keyboard_scheme" and b
    proof -
      have "\<not> (\<forall>n. busy n u)" using ready that by (auto simp: busy_def)
      then show ?thesis by (intro exI [of _ "LEAST n. \<not> busy n u"]) (simp add: sendByte_eq del: replicate_Suc)
    qed
    obtain i where i: "sendByte 0x60 0xED ?s =
        Some (?s\<lparr>trace := Out8 0x60 0xED # replicate (Suc i) (In8 0x64) @ trace ?s\<rparr>)" (is "_ = Some ?t")
      using send [of ?s] by auto
    obtain j where j: "sendByte 0x60 (if ?on then 0 else 4) ?t =
        Some (?t\<lparr>trace := Out8 0x60 (if ?on then 0 else 4) # replicate (Suc j) (In8 0x64) @ trace ?t\<rparr>)"
      using send [of ?t] by auto
    show "\<exists>i j. key_event 58 s = Some (s\<lparr>
      keyStatus := (if bit (keyStatus s) 28 then keyStatus s AND 0xEFFFFFF else keyStatus s OR 0x10000000),
      trace := Out8 0x60 (if bit (keyStatus s) 28 then 0 else 4) # replicate (Suc j) (In8 0x64) @
        Out8 0x60 0xED # replicate (Suc i) (In8 0x64) @ trace s\<rparr>)"
      by (rule exI [of _ i], rule exI [of _ j])
        (cases ?on; use i j in \<open>simp add: ev del: replicate_Suc\<close>)
  }
qed

section \<open>Witnesses\<close>

text \<open>A controller that is never busy, with caps lock on.\<close>

definition demo_keyboard :: keyboard where
  "demo_keyboard = \<lparr>mem = \<lambda>_. 0, dev = \<lambda>_ _. 0, trace = [], cx = 79, cy = 24, place_addr = 0x30000,
     idt = 0, idtp_limit = 0, idtp_base = 0, idtr = None, interrupts_on = True, fault_handlers = 0,
     irq_routines = [], frames = 0x40000, kernel_directory = 0x10000, current_dir = 0x10000, cr0 = 0,
     cr2 = 0, cr3 = 0, proc_arr = demo_table, list_size = 0, timer_ticks = 0, freq = 1000,
     time_slice_millis = 2, cur_proc_index = 0, scheduler_active = 1, is_first_run = 0,
     keyStatus = 0x10000000, shiftLookup = replicate 128 0\<rparr>"

text \<open>Left shift down, a, left control down, left shift up: control stays.\<close>

lemma status_tracks_keys_witness:
  "\<exists>t. key_events [42, 30, 29, 0xAA] demo_keyboard = Some t \<and> bit (keyStatus t) 0 \<and> \<not> bit (keyStatus t) 1"
proof -
  have "cursor_ok demo_keyboard" by (simp add: demo_keyboard_def cursor_ok_def)
  moreover have "status_shows {} (keyStatus demo_keyboard)"
  proof -
    have "keyStatus demo_keyboard = 2 ^ 28" by (simp add: demo_keyboard_def)
    then show ?thesis by (simp only: status_shows_def bit_power) simp
  qed
  moreover have "58 \<notin> set [42, 30, 29, 0xAA :: u8]" "length (shiftLookup demo_keyboard) = 128"
    by (simp_all add: demo_keyboard_def)
  ultimately obtain t where t: "key_events [42, 30, 29, 0xAA] demo_keyboard = Some t"
    "status_shows (held [42, 30, 29, 0xAA] {}) (keyStatus t)" by (metis status_tracks_keys)
  have "held [42, 30, 29, 0xAA] {} = {30, 29}" by auto
  with t show ?thesis by (auto simp: status_shows_def key_bits_def)
qed

text \<open>With caps lock on, the key a prints A.\<close>

lemma key_prints_witness:
  "key_event 30 (initShiftLookup demo_keyboard) = Some (putc 65 (initShiftLookup demo_keyboard))"
proof -
  have "shiftLookup (initShiftLookup demo_keyboard) =
    shiftLookup (initShiftLookup (demo_keyboard\<lparr>shiftLookup := replicate 128 0\<rparr>))"
    by (simp add: demo_keyboard_def)
  note key_prints [OF _ _ _ this, of 30]
  moreover have "keyStatus (initShiftLookup demo_keyboard) = 2 ^ 28"
    by (simp add: initShiftLookup_def demo_keyboard_def)
  ultimately show ?thesis by (simp add: bit_power kbdus_numerals key_bits_def Let_def)
qed

lemma caps_lock_toggles_witness: "\<exists>t. key_event 58 demo_keyboard = Some (t :: keyboard)"
  using caps_lock_toggles [of demo_keyboard] by (auto simp: demo_keyboard_def)

end
