(* ===== verification/Interrupts.thy ===== *)
theory Interrupts
  imports Keyboard
begin

text \<open>
  The C side of an interrupt: \<open>fault_handler\<close> of \<open>isrs.c\<close> for exceptions and \<open>irq_handler\<close> of \<open>irq.c\<close>
  for the hardware lines, which the assembly stubs call with the saved registers. A handler is called
  through its address in a table; \<open>call_irq\<close> and \<open>call_fault\<close> say which function of the kernel an
  address is, given the addresses the linker chose, and give no result for any other address.
\<close>

section \<open>Exceptions\<close>

definition exception_messages :: "string list" where
  "exception_messages =
     [''Division By Zero'', ''Debug'', ''Non Maskable Interrupt'', ''Breakpoint Exception'',
      ''Into Detected Overflow Exception'', ''Out of Bounds Exception'', ''Invalid Opcode Exception'',
      ''No Coprocessor Exception'', ''Double Fault Exception'', ''Coprocessor Segment Overrun Exception'',
      ''Bad TSS Exception'', ''Segment Not Present Exception'', ''Stack Fault Exception'',
      ''General Protection Fault Exception'', ''Page Fault Exception'', ''Unknown Interrupt Exception'',
      ''Coprocessor Fault Exception'', ''Alignment Check Exception (486+)'',
      ''Machine Check Exception (Pentium/586+)'', ''Reserved Exception 20'', ''Reserved Exception 21'',
      ''Reserved Exception 22'', ''Reserved Exception 23'', ''Reserved Exception 24'',
      ''Reserved Exception 25'', ''Reserved Exception 26'', ''Reserved Exception 27'',
      ''Reserved Exception 28'', ''Reserved Exception 29'', ''Reserved Exception 30'',
      ''Reserved Exception 31'', ''Reserved Exception 32'']"

text \<open>\<open>divideByZero\<close> of \<open>main.c\<close>.\<close>

definition divideByZero :: "regs \<Rightarrow> 'a screen_scheme \<Rightarrow> 'a screen_scheme option" where
  "divideByZero r = printf (str (''Don'' @ [CHR 0x27] @ ''t divide by zero. System halted!'' @ [nl])) []"

definition call_fault :: "symbols \<Rightarrow> u32 \<Rightarrow> regs \<Rightarrow> 'a paging_scheme \<Rightarrow> (unit, 'a paging_scheme) result" where
  "call_fault syms fnc r s =
     (if fnc = sym_page_fault_handler syms then page_fault_handler r s
      else if fnc = sym_divideByZero syms then map_option (Ret ()) (divideByZero r s)
      else None)"

definition fault_handler :: "symbols \<Rightarrow> regs \<Rightarrow> 'a paging_scheme \<Rightarrow> (unit, 'a paging_scheme) result" where
  "fault_handler syms r s =
     and_then
       (if r_int_no r < 32 then
          Option.bind (item exception_messages (uint (r_int_no r))) (\<lambda>message.
            let s = puts (str (message @ [nl])) s;
                fnc = ld32 (mem s) (fault_handlers s + 4 * r_int_no r)
            in if fnc \<noteq> 0 then call_fault syms fnc r s else Some (Ret () s))
        else Some (Ret () s))
       (\<lambda>_ s.
          case printf (str (''The state of regs:'' @ [nl] @ ''CS:'' @ [CHR 0x09] @ ''%x'' @ [nl]
                 @ ''EIP:'' @ [CHR 0x09] @ ''%x'' @ [nl]))
                 [VaWord (r_cs r), VaWord (r_eip r)] (outb 0x20 0x20 s) of
            None \<Rightarrow> None
          | Some s \<Rightarrow> Some (Halt s))"

section \<open>Hardware lines\<close>

definition call_irq :: "symbols \<Rightarrow> u32 \<Rightarrow> regs \<Rightarrow> 'a keyboard_scheme \<Rightarrow> (regs \<times> 'a keyboard_scheme) option" where
  "call_irq syms handler r s =
     (if handler = sym_timer_handler syms then timer_handler r s
      else if handler = sym_keyboard_handler syms then map_option (Pair r) (keyboard_handler s)
      else None)"

text \<open>The handler may change the saved registers, so the second test reads what it left.\<close>

definition irq_handler :: "symbols \<Rightarrow> regs \<Rightarrow> 'a keyboard_scheme \<Rightarrow> (regs \<times> 'a keyboard_scheme) option" where
  "irq_handler syms r s =
     (if unat (r_int_no r - 32) < length (irq_routines s) then
        let handler = irq_routines s ! unat (r_int_no r - 32) in
        case (if handler \<noteq> 0 then call_irq syms handler r s else Some (r, s)) of
          None \<Rightarrow> None
        | Some (r, s) \<Rightarrow>
            let s = (if 40 \<le> r_int_no r then outb 0xA0 0x20 s else s)
            in Some (r, outb 0x20 0x20 s)
      else None)"

section \<open>What the handlers preserve\<close>

text \<open>The invariant of the kernel while it runs.\<close>

definition kernel_ok :: "'a keyboard_scheme \<Rightarrow> bool" where
  "kernel_ok s \<longleftrightarrow> cursor_ok s \<and> procs_ok (proc_arr s) \<and> 0 \<le> cur_proc_index s \<and>
     cur_proc_index s < int MAX_PROC \<and> length (irq_routines s) = 16"

lemma kernel_ok_console:
  assumes "console_step s t" "kernel_ok s"
  shows "kernel_ok t"
proof -
  have "cursor_ok t" and e: "t = s\<lparr>mem := mem t, trace := trace t, cx := cx t, cy := cy t\<rparr>"
    using assms(1) by (simp_all add: console_step_def console_frame_def)
  moreover have "proc_arr t = proc_arr s" "cur_proc_index t = cur_proc_index s" "irq_routines t = irq_routines s"
    by (subst e, simp)+
  ultimately show ?thesis using assms(2) by (simp add: kernel_ok_def)
qed

lemma kernel_ok_fields [simp]:
  "kernel_ok (s\<lparr>timer_ticks := n\<rparr>) = kernel_ok s" "kernel_ok (s\<lparr>keyStatus := k\<rparr>) = kernel_ok s"
  "kernel_ok (s\<lparr>time_slice_millis := n\<rparr>) = kernel_ok s" "kernel_ok (s\<lparr>trace := tr\<rparr>) = kernel_ok s"
  "kernel_ok (outb p b s) = kernel_ok s"
  by (simp_all add: kernel_ok_def cursor_ok_def outb_def)

lemma kernel_ok_switched:
  assumes "kernel_ok s" "live (proc_arr s) i"
  shows "kernel_ok (switched i r s)"
proof -
  have "i < MAX_PROC" using assms live_less by (auto simp: kernel_ok_def)
  moreover have "cursor_ok (switched i r s)" "irq_routines (switched i r s) = irq_routines s"
    using assms(1) by (simp_all add: kernel_ok_def switched_def cursor_ok_def Let_def)
  ultimately show ?thesis using assms(1) by (simp add: kernel_ok_def procs_ok_switched)
qed

lemma start_next_process_kernel_ok:
  assumes "kernel_ok s"
  shows "\<exists>w r' t. start_next_process r s = Some (w, r', t) \<and> kernel_ok t"
proof -
  have s: "procs_ok (proc_arr s)" "0 \<le> cur_proc_index s" "cur_proc_index s < int MAX_PROC"
    using assms by (simp_all add: kernel_ok_def)
  show ?thesis
  proof (cases "scheduler_active s = 0")
    case True
    with assms show ?thesis by (simp add: start_next_process_def)
  next
    case False
    note e = start_next_process_eq [OF s False, of r]
    show ?thesis
    proof (cases "\<exists>j. live (proc_arr s) j")
      case True
      then obtain j where j: "live (proc_arr s) j" by blast
      have c: "nat (cur_proc_index s) < MAX_PROC" using s by (simp add: nat_less_iff)
      have "live (proc_arr s) (next_live (proc_arr s) MAX_PROC (nat (cur_proc_index s)))"
        by (rule next_live_live [OF c live_less [OF s(1) j] j])
      with assms True show ?thesis unfolding e by (simp add: Let_def kernel_ok_switched)
    next
      case none: False
      then show ?thesis unfolding e if_not_P [OF none] using assms by simp
    qed
  qed
qed

lemma timer_handler_kernel_ok:
  assumes "kernel_ok s"
  shows "\<exists>r' t. timer_handler r s = Some (r', t) \<and> kernel_ok t"
proof -
  let ?s = "s\<lparr>timer_ticks := timer_ticks s + 1\<rparr>"
  obtain w r' t where t: "start_next_process r ?s = Some (w, r', t)" "kernel_ok t"
    using start_next_process_kernel_ok [of ?s r] assms by auto
  show ?thesis
  proof (cases "timer_ticks s + 1 = slice_ticks s")
    case True
    with t have "timer_handler r s = Some (r', t\<lparr>time_slice_millis := w, timer_ticks := 0\<rparr>)"
      by (simp add: timer_handler_def set_time_slice_def)
    with t(2) show ?thesis by simp
  qed (use assms in \<open>simp add: timer_handler_quiet\<close>)
qed

lemma key_event_kernel_ok:
  assumes "kernel_ok s" "key_event sc s = Some t"
  shows "kernel_ok t"
proof (cases "sc = 58")
  case False
  have "cursor_ok s" using assms(1) by (simp add: kernel_ok_def)
  from key_event_step [OF this False assms(2)]
  have "console_step (s\<lparr>keyStatus := next_status sc (keyStatus s)\<rparr>) t" .
  from kernel_ok_console [OF this] assms(1) show ?thesis by simp
next
  case True
  have send: "kernel_ok t" if "sendByte p b s = Some t" "kernel_ok s" for p b and s t :: "'a keyboard_scheme"
    using that by (auto simp: sendByte_eq split: if_splits)
  have "\<exists>k a b. Option.bind (sendByte 0x60 a (s\<lparr>keyStatus := k\<rparr>)) (sendByte 0x60 b) = Some t"
    using assms(2) True
    by (auto simp: key_event_def key_pressed_def kbdus_numerals press_masks_numerals chr_def
        switchCapsLightOff_def switchCapsLightOn_def split: if_splits)
  then show ?thesis using assms(1) send by (auto simp: bind_eq_Some_conv)
qed

lemma call_irq_kernel_ok:
  assumes "kernel_ok s" "call_irq syms h r s = Some (r', t)"
  shows "kernel_ok t"
proof (cases "h = sym_timer_handler syms")
  case True
  with assms timer_handler_kernel_ok [OF assms(1), of r] show ?thesis by (auto simp: call_irq_def)
next
  case False
  with assms(2) have "\<exists>sc. key_event sc (s\<lparr>trace := In8 0x60 # trace s\<rparr>) = Some t"
    by (auto simp: call_irq_def keyboard_handler_def inb_def split: if_splits)
  then obtain sc where "key_event sc (s\<lparr>trace := In8 0x60 # trace s\<rparr>) = Some t" by blast
  then show ?thesis by (rule key_event_kernel_ok [rotated]) (use assms(1) in simp)
qed

lemma irq_handler_kernel_ok:
  assumes "kernel_ok s" "irq_handler syms r s = Some (r', t)"
  shows "kernel_ok t"
proof -
  define h where "h = irq_routines s ! unat (r_int_no r - 32)"
  obtain q u where q: "(if h \<noteq> 0 then call_irq syms h r s else Some (r, s)) = Some (q, u)"
    and t: "t = outb 0x20 0x20 (if 40 \<le> r_int_no q then outb 0xA0 0x20 u else u)"
    using assms(2) by (auto simp: irq_handler_def h_def Let_def split: if_splits option.splits)
  have "kernel_ok u" using q assms(1) call_irq_kernel_ok by (auto split: if_splits)
  then show ?thesis by (simp add: t)
qed

section \<open>The running kernel as a transition system\<close>

text \<open>Interrupts and changes of the process table, in any order.\<close>

inductive kernel_step :: "symbols \<Rightarrow> 'a keyboard_scheme \<Rightarrow> 'a keyboard_scheme \<Rightarrow> bool"
  for syms :: symbols where
  Irq: "irq_handler syms r s = Some (r', t) \<Longrightarrow> kernel_step syms s t"
| Spawn: "add_process p s = Some (i, t) \<Longrightarrow> kernel_step syms s t"
| Exit: "kernel_step syms s (remove_process p s)"

inductive_cases kernel_stepE: "kernel_step syms s t"

lemma add_process_kernel_ok:
  assumes "kernel_ok s" "add_process p s = Some (i, t)"
  shows "kernel_ok t"
proof (cases "free_slot (proc_arr s) 0")
  case None
  then obtain u where "printf (str (''No space for any other process!'' @ [nl])) [] s = Some t"
    using assms(2) by (auto simp: add_process_def split: option.splits)
  moreover have "cursor_ok s" using assms(1) by (simp add: kernel_ok_def)
  ultimately show ?thesis using printf_step kernel_ok_console assms(1) by blast
next
  case (Some k)
  have ok: "procs_ok (proc_arr s)" using assms(1) by (simp add: kernel_ok_def)
  have "k < MAX_PROC" using Some ok by (auto simp: free_slot_Some procs_ok_def)
  from procs_ok_update [OF ok this, of "p\<lparr>pid := of_nat k\<rparr>"]
  have "procs_ok ((proc_arr s)[k := p\<lparr>pid := of_nat k\<rparr>])" by simp
  moreover have "t = s\<lparr>proc_arr := (proc_arr s)[k := p\<lparr>pid := of_nat k\<rparr>]\<rparr>"
    using Some assms(2) by (simp add: add_process_def)
  ultimately show ?thesis using assms(1) by (simp add: kernel_ok_def cursor_ok_def)
qed

lemma remove_process_kernel_ok:
  assumes "kernel_ok s"
  shows "kernel_ok (remove_process p s)"
proof -
  have "procs_ok (proc_arr (remove_process p s))"
    using assms by (auto simp: kernel_ok_def remove_process_def procs_ok_def)
  with assms show ?thesis by (simp add: kernel_ok_def remove_process_def cursor_ok_def)
qed

lemma kernel_step_ok: "kernel_step syms s t \<Longrightarrow> kernel_ok s \<Longrightarrow> kernel_ok t"
  by (elim kernel_stepE) (auto intro: irq_handler_kernel_ok add_process_kernel_ok remove_process_kernel_ok)

section \<open>Exceptions with a simple handler\<close>

lemma length_exception_messages: "length exception_messages = 32"
  by (simp add: exception_messages_def)

lemma fault_handler_no_return: "fault_handler syms r s \<noteq> Some (Ret v t)"
  unfolding fault_handler_def by (auto simp: and_then_Ret_iff split: option.splits)

lemma report_step:
  assumes "cursor_ok s" "sym_divideByZero syms \<noteq> sym_page_fault_handler syms"
    and "r_int_no r < 32 \<longrightarrow> region (fault_handlers s + 4 * r_int_no r) 4 \<inter> video = {} \<and>
        ld32 (mem s) (fault_handlers s + 4 * r_int_no r) \<in> {0, sym_divideByZero syms}"
  shows "\<exists>u. (if r_int_no r < 32 then
          Option.bind (item exception_messages (uint (r_int_no r))) (\<lambda>message.
            let s = puts (str (message @ [nl])) s;
                fnc = ld32 (mem s) (fault_handlers s + 4 * r_int_no r)
            in if fnc \<noteq> 0 then call_fault syms fnc r s else Some (Ret () s))
        else Some (Ret () s)) = Some (Ret () u) \<and> console_step s u"
proof (cases "r_int_no r < 32")
  case False
  with assms(1) show ?thesis by (simp add: console_step_refl)
next
  case True
  then have message: "item exception_messages (uint (r_int_no r)) = Some (exception_messages ! unat (r_int_no r))"
    by (simp add: length_exception_messages word_less_nat_alt)
  define s1 where "s1 = puts (str (exception_messages ! unat (r_int_no r) @ [nl])) s"
  have st: "console_step s s1" unfolding s1_def by (rule puts.step [OF assms(1)])
  then have e: "s1 = s\<lparr>mem := mem s1, trace := trace s1, cx := cx s1, cy := cy s1\<rparr>"
    and m: "\<And>a. a \<notin> video \<Longrightarrow> mem s1 a = mem s a"
    by (simp_all add: console_step_def console_frame_def)
  have "fault_handlers s1 = fault_handlers s" by (subst e) simp
  moreover have "ld32 (mem s1) (fault_handlers s + 4 * r_int_no r) = ld32 (mem s) (fault_handlers s + 4 * r_int_no r)"
    by (rule s32.ld_outside [of _ video]) (use assms(3) True m in blast)+
  ultimately have fnc: "ld32 (mem s1) (fault_handlers s1 + 4 * r_int_no r) \<in> {0, sym_divideByZero syms}"
    using assms(3) True by simp
  obtain u where u: "divideByZero r s1 = Some u"
    using printf_returns [of "str (''Don'' @ [CHR 0x27] @ ''t divide by zero. System halted!'' @ [nl])" "[]" s1]
    by (auto simp: divideByZero_def str_def nl_def)
  have "console_step s u"
    using u printf_step [OF _ console_step_ok [OF st]] console_step_trans [OF st] by (auto simp: divideByZero_def)
  with st u fnc True assms(2) show ?thesis
    by (cases "ld32 (mem s1) (fault_handlers s1 + 4 * r_int_no r) = 0")
      (auto simp: message s1_def [symmetric] call_fault_def Let_def simp del: item_uint)
qed

section \<open>Properties\<close>

text \<open>C28. Whatever interrupts arrive and processes come and go, in any order, the cursor stays on the
  screen, the process table keeps its invariant and the current index stays in the table.\<close>

theorem kernel_invariant:
  assumes "(kernel_step syms)\<^sup>*\<^sup>* s t" and "kernel_ok s"
  shows "kernel_ok t"
  using assms by (induction rule: rtranclp_induct) (auto intro: kernel_step_ok)

text \<open>A timer interrupt is always handled to its end, and acknowledged: the handler returns, the
  frame it leaves is handed back, and the master controller gets its end of interrupt last. The
  slave gets one as well when the frame handed back has a number from 40 on, which is the saved
  frame of the process switched to and not the one interrupted.\<close>

theorem timer_interrupt_acknowledged:
  assumes "kernel_ok s" and "irq_routines s ! 0 = sym_timer_handler syms" and "sym_timer_handler syms \<noteq> 0"
    and "r_int_no r = 32"
  shows "\<exists>r' u. timer_handler r s = Some (r', u) \<and>
    irq_handler syms r s = Some (r', u\<lparr>trace :=
      Out8 0x20 0x20 # (if 40 \<le> r_int_no r' then [Out8 0xA0 0x20] else []) @ trace u\<rparr>)"
proof -
  obtain r' u where u: "timer_handler r s = Some (r', u)" using timer_handler_kernel_ok [OF assms(1)] by blast
  have "0 < length (irq_routines s)" using assms(1) by (simp add: kernel_ok_def)
  with u assms(2-4) show ?thesis by (simp add: irq_handler_def call_irq_def outb_def Let_def)
qed

text \<open>C32. An exception never returns to the code that raised it; and with no handler, or the one for
  division by zero, the report is printed and the machine stopped, with no memory changed but the
  screen's.\<close>

theorem exceptions_stop:
  "(\<forall>t. fault_handler syms r s \<noteq> Some (Ret () t)) \<and>
   (cursor_ok s \<and> (r_int_no r < 32 \<longrightarrow> region (fault_handlers s + 4 * r_int_no r) 4 \<inter> video = {} \<and>
        ld32 (mem s) (fault_handlers s + 4 * r_int_no r) \<in> {0, sym_divideByZero syms}) \<and>
      sym_divideByZero syms \<noteq> sym_page_fault_handler syms \<longrightarrow>
    (\<exists>t. fault_handler syms r s = Some (Halt t) \<and> cursor_ok t \<and> (\<forall>a. a \<notin> video \<longrightarrow> mem t a = mem s a)))"
proof (intro conjI impI allI)
  fix t
  show "fault_handler syms r s \<noteq> Some (Ret () t)" by (rule fault_handler_no_return)
next
  assume a: "cursor_ok s \<and> (r_int_no r < 32 \<longrightarrow> region (fault_handlers s + 4 * r_int_no r) 4 \<inter> video = {} \<and>
        ld32 (mem s) (fault_handlers s + 4 * r_int_no r) \<in> {0, sym_divideByZero syms}) \<and>
      sym_divideByZero syms \<noteq> sym_page_fault_handler syms"
  obtain u where u: "(if r_int_no r < 32 then
          Option.bind (item exception_messages (uint (r_int_no r))) (\<lambda>message.
            let s = puts (str (message @ [nl])) s;
                fnc = ld32 (mem s) (fault_handlers s + 4 * r_int_no r)
            in if fnc \<noteq> 0 then call_fault syms fnc r s else Some (Ret () s))
        else Some (Ret () s)) = Some (Ret () u)" "console_step s u"
    using report_step [of s syms r] a by blast
  obtain t where t: "printf (str (''The state of regs:'' @ [nl] @ ''CS:'' @ [CHR 0x09] @ ''%x'' @ [nl]
                 @ ''EIP:'' @ [CHR 0x09] @ ''%x'' @ [nl]))
                 [VaWord (r_cs r), VaWord (r_eip r)] (outb 0x20 0x20 u) = Some t"
    using printf_returns [of "str (''The state of regs:'' @ [nl] @ ''CS:'' @ [CHR 0x09] @ ''%x'' @ [nl]
                 @ ''EIP:'' @ [CHR 0x09] @ ''%x'' @ [nl])" "[VaWord (r_cs r), VaWord (r_eip r)]" "outb 0x20 0x20 u"]
    by (auto simp: str_def nl_def)
  have "cursor_ok (outb 0x20 0x20 u)" using console_step_ok [OF u(2)] by (simp add: cursor_ok_def outb_def)
  from printf_step [OF t this] u(2)
  have "cursor_ok t \<and> (\<forall>a. a \<notin> video \<longrightarrow> mem t a = mem s a)"
    by (simp add: console_step_def console_frame_def frame_simps)
  then show "\<exists>t. fault_handler syms r s = Some (Halt t) \<and> cursor_ok t \<and> (\<forall>a. a \<notin> video \<longrightarrow> mem t a = mem s a)"
    unfolding fault_handler_def u(1) and_then.simps t option.case by blast
qed

section \<open>Witnesses\<close>

definition demo_addresses :: symbols where
  "demo_addresses = \<lparr>sym_isr = \<lambda>n. 0x1000 + of_nat n * 16, sym_irq = \<lambda>n. 0x1400 + of_nat n * 16,
     sym_page_fault_handler = 0x2000, sym_divideByZero = 0x2100, sym_timer_handler = 0x2200,
     sym_keyboard_handler = 0x2300\<rparr>"

definition demo_kernel :: keyboard where
  "demo_kernel = demo_keyboard\<lparr>irq_routines := [0x2200, 0x2300] @ replicate 14 0\<rparr>"

lemma demo_kernel_ok: "kernel_ok demo_kernel"
  by (simp add: kernel_ok_def demo_kernel_def demo_keyboard_def demo_table_ok MAX_PROC_def cursor_ok_def)

lemma kernel_invariant_witness: "kernel_ok (remove_process (demo_table ! 2) demo_kernel)"
  by (rule kernel_invariant [of demo_addresses demo_kernel]) (auto intro: Exit demo_kernel_ok)

lemma timer_interrupt_acknowledged_witness:
  "\<exists>r' t. irq_handler demo_addresses ((read_regs (\<lambda>_. 0) 0)\<lparr>r_int_no := 32\<rparr>) demo_kernel = Some (r', t)"
  using timer_interrupt_acknowledged [OF demo_kernel_ok, of demo_addresses "(read_regs (\<lambda>_. 0) 0)\<lparr>r_int_no := 32\<rparr>"]
  by (auto simp: demo_kernel_def demo_addresses_def)

lemma exceptions_stop_witness:
  "\<exists>t. fault_handler demo_addresses (read_regs (\<lambda>_. 0) 0) demo_kernel = Some (Halt t)"
proof -
  have "region 0 4 \<inter> video = {}"
  proof -
    have "\<forall>x \<in> {0, 1, 2, 3}. x \<notin> video" by (simp add: video_def region_def VIDEO_MEMORY_def)
    then show ?thesis by (auto simp: region_4)
  qed
  then show ?thesis
    using exceptions_stop [of demo_addresses "read_regs (\<lambda>_. 0) 0" demo_kernel]
    by (simp add: demo_kernel_def demo_keyboard_def cursor_ok_def read_regs_def ld32_def demo_addresses_def) blast
qed

end
