(* ===== verification/Tss.thy ===== *)
theory Tss
  imports Interrupts
begin

text \<open>
  \<open>init_tss\<close> and \<open>set_kernel_stack\<close> of \<open>p_mode/system.c\<close>, with the packed structures of
  \<open>include/system.h\<close>: the task state segment and its descriptor, entry 5 of the descriptor table that the
  boot code set up. The base of that table (what \<open>sgdt\<close> stores) and the address of \<open>tss_entry\<close> are
  parameters. \<open>flush_tss\<close> loads the task register.
\<close>

record tss = keyboard +
  default_kernel_stack_ptr :: u32
  task_register :: u16

definition KERNEL_STACK_SIZE :: u32 where "KERNEL_STACK_SIZE = 0x10000"

definition sizeof_tss :: u32 where "sizeof_tss = 104"

definition tss_descriptor :: "u32 \<Rightarrow> u32 \<Rightarrow> u32 \<Rightarrow> 'a machine_scheme \<Rightarrow> 'a machine_scheme" where
  "tss_descriptor e base limit s =
     (let s = store16 e (ucast (limit AND 0xFFFF)) s;
          s = store16 (e + 2) (ucast (base AND 0xFFFF)) s;
          s = store8 (e + 4) (ucast (drop_bit 16 base AND 0xFF)) s;
          s = store8 (e + 7) (ucast (drop_bit 24 base AND 0xFF)) s;
          s = store8 (e + 5) 0xE9 s
      in store8 (e + 6) (ucast (0x40 + (drop_bit 16 limit AND 0xF))) s)"

definition set_kernel_stack :: "u32 \<Rightarrow> u32 \<Rightarrow> 'a machine_scheme \<Rightarrow> 'a machine_scheme" where
  "set_kernel_stack tss_entry stack_ptr s = store32 (tss_entry + 4) stack_ptr s"

definition init_tss :: "u32 \<Rightarrow> u32 \<Rightarrow> 'a tss_scheme \<Rightarrow> 'a tss_scheme" where
  "init_tss gdt_base tss_entry s =
     (let s = tss_descriptor (gdt_base + 8 * 5) tss_entry sizeof_tss s;
          (p, s) = kmalloc KERNEL_STACK_SIZE s;
          s = s\<lparr>default_kernel_stack_ptr := p\<rparr>;
          s = memset tss_entry 0 sizeof_tss s;
          s = store32 (tss_entry + 8) 0x10 s;
          s = store32 (tss_entry + 4) p s;
          s = store16 (tss_entry + 102) (ucast sizeof_tss) s
      in s\<lparr>task_register := 0x2B\<rparr>)"

section \<open>How the processor reads a segment descriptor\<close>

definition segment_base :: "mem \<Rightarrow> u32 \<Rightarrow> u32" where
  "segment_base m e = ucast (ld16 m (e + 2)) OR push_bit 16 (ucast (m (e + 4))) OR push_bit 24 (ucast (m (e + 7)))"

definition segment_limit :: "mem \<Rightarrow> u32 \<Rightarrow> u32" where
  "segment_limit m e = ucast (ld16 m e) OR push_bit 16 (ucast (m (e + 6) AND 0xF))"

lemma base_parts:
  "ucast (ucast (b AND 0xFFFF) :: u16) OR push_bit 16 (ucast (ucast (drop_bit 16 b AND 0xFF) :: u8))
     OR push_bit 24 (ucast (ucast (drop_bit 24 b AND 0xFF) :: u8)) = (b :: u32)" (is "?l = b")
proof -
  have e: "(0xFFFF :: u32) = mask 16" "(0xFF :: u32) = mask 8" by (simp_all add: mask_eq_exp_minus_1)
  show ?thesis
  proof (rule bit_word_eqI)
    fix n assume "n < LENGTH(32)"
    then consider "n < 16" | "16 \<le> n" "n < 24" | "24 \<le> n" "n < 32" by fastforce
    then show "bit ?l n = bit b n" unfolding e by cases (auto simp: bit_simps)
  qed
qed

lemma descriptor_frame:
  "tss_descriptor e b l s = s\<lparr>mem := mem (tss_descriptor e b l s)\<rparr>"
  by (simp add: tss_descriptor_def store8_def store16_def Let_def)

lemma descriptor_bytes:
  "ld16 (mem (tss_descriptor e b l s)) e = ucast (l AND 0xFFFF)"
  "ld16 (mem (tss_descriptor e b l s)) (e + 2) = ucast (b AND 0xFFFF)"
  "mem (tss_descriptor e b l s) (e + 4) = ucast (drop_bit 16 b AND 0xFF)"
  "mem (tss_descriptor e b l s) (e + 7) = ucast (drop_bit 24 b AND 0xFF)"
  "mem (tss_descriptor e b l s) (e + 5) = 0xE9"
  "mem (tss_descriptor e b l s) (e + 6) = ucast (0x40 + (drop_bit 16 l AND 0xF))"
  by (simp_all add: tss_descriptor_def store8_def store16_def st8_def st16_def ld16_def add.assoc word16_bytes Let_def)

lemma descriptor_outside:
  assumes "x \<notin> region e 8"
  shows "mem (tss_descriptor e b l s) x = mem s x"
proof -
  have "x \<noteq> e + of_nat k" if "k < 8" for k
    using assms that region_offset [of k 8 e] by auto
  from this [of 0] this [of 1] this [of 2] this [of 3] this [of 4] this [of 5] this [of 6] this [of 7]
  show ?thesis by (simp add: tss_descriptor_def store8_def store16_def st8_def st16_def add.assoc Let_def)
qed

lemma region_ne: "x \<notin> region a n \<Longrightarrow> k < n \<Longrightarrow> n \<le> 4294967296 \<Longrightarrow> x \<noteq> a + of_nat k"
  using region_offset by blast

text \<open>The segment after \<open>init_tss\<close>, byte by byte.\<close>

definition tss_bytes :: "u32 \<Rightarrow> u32 \<Rightarrow> mem \<Rightarrow> mem" where
  "tss_bytes a p m = st16 (st32 (st32 (mem_set a 0 sizeof_tss m) (a + 8) 0x10) (a + 4) p) (a + 102) (ucast sizeof_tss)"

lemma init_tss_state:
  "init_tss g a s = s\<lparr>mem := tss_bytes a (place_addr s) (mem (tss_descriptor (g + 40) a sizeof_tss s)),
     place_addr := place_addr s + 0x10000, default_kernel_stack_ptr := place_addr s, task_register := 0x2B\<rparr>"
proof -
  let ?u = "tss_descriptor (g + 40) a sizeof_tss s"
  have "place_addr ?u = place_addr s" by (subst descriptor_frame) simp
  then have "init_tss g a s = ?u\<lparr>mem := tss_bytes a (place_addr s) (mem ?u), place_addr := place_addr s + 0x10000,
      default_kernel_stack_ptr := place_addr s, task_register := 0x2B\<rparr>"
    by (simp add: init_tss_def kmalloc_eq KERNEL_STACK_SIZE_def memset_def store32_def store16_def tss_bytes_def Let_def)
  also have "\<dots> = s\<lparr>mem := tss_bytes a (place_addr s) (mem ?u), place_addr := place_addr s + 0x10000,
      default_kernel_stack_ptr := place_addr s, task_register := 0x2B\<rparr>"
    by (subst (1) descriptor_frame) simp
  finally show ?thesis .
qed

lemma tss_bytes_outside:
  assumes "x \<notin> region a 104"
  shows "tss_bytes a p m x = m x"
proof -
  note ne = region_ne [OF assms]
  from ne [of 4] ne [of 5] ne [of 6] ne [of 7] ne [of 8] ne [of 9] ne [of 10] ne [of 11] ne [of 102] ne [of 103]
  show ?thesis
    using assms by (simp add: tss_bytes_def st16_def st32_def mem_set_eq sizeof_tss_def add.assoc)
qed

lemma tss_bytes_zero:
  assumes "k < 104" "k \<notin> {4..11} \<union> {102, 103}"
  shows "tss_bytes a p m (a + of_nat k) = 0"
proof -
  have ne: "(of_nat k :: u32) \<noteq> of_nat j" if "j < 104" "k \<noteq> j" for j
    using that assms(1) by (simp add: word_unat_eq_iff unat_of_nat_32)
  have "k \<noteq> 4" "k \<noteq> 5" "k \<noteq> 6" "k \<noteq> 7" "k \<noteq> 8" "k \<noteq> 9" "k \<noteq> 10" "k \<noteq> 11" using assms(2) by auto
  moreover have "a + of_nat k \<in> region a 104" using assms(1) by (rule region_offset) simp
  moreover note ne [of 4] ne [of 5] ne [of 6] ne [of 7] ne [of 8] ne [of 9] ne [of 10] ne [of 11] ne [of 102] ne [of 103] assms(2)
  ultimately show ?thesis by (simp add: tss_bytes_def st16_def st32_def mem_set_eq sizeof_tss_def add.assoc)
qed

text \<open>The descriptor, which the contents of the segment do not touch.\<close>

lemma init_tss_descriptor:
  assumes "region (g + 40) 8 \<inter> region a 104 = {}"
  shows "segment_base (mem (init_tss g a s)) (g + 40) = a" "segment_limit (mem (init_tss g a s)) (g + 40) = 104"
    "mem (init_tss g a s) (g + 45) = 0xE9"
proof -
  let ?m = "mem (tss_descriptor (g + 40) a sizeof_tss s)" and ?p = "place_addr s"
  let ?t = "tss_bytes a ?p ?m"
  have same: "?t x = ?m x" if "x \<in> region (g + 40) 8" for x
    using that assms by (intro tss_bytes_outside) blast
  have in8: "g + 40 + of_nat k \<in> region (g + 40) 8" if "k < 8" for k using that by (intro region_offset) simp_all
  have sub: "region (g + 40 + of_nat k) 2 \<subseteq> region (g + 40) 8" if "k + 1 < 8" for k
    using in8 [of k] in8 [of "k + 1"] that by (simp add: region_2 add.assoc add.commute [of 1])
  have half: "ld16 ?t (g + 40 + of_nat k) = ld16 ?m (g + 40 + of_nat k)" if "k + 1 < 8" for k
    by (rule s16.ld_cong) (use same sub [OF that] in blast)
  have base: "segment_base ?t (g + 40) = segment_base ?m (g + 40)"
    using half [of 2] same [OF in8 [of 4]] same [OF in8 [of 7]] by (simp add: segment_base_def)
  have limit: "segment_limit ?t (g + 40) = segment_limit ?m (g + 40)"
    using half [of 0] same [OF in8 [of 6]] by (simp add: segment_limit_def)
  have access: "?t (g + 45) = ?m (g + 45)" using same [OF in8 [of 5]] by (simp add: add.assoc)
  note b = descriptor_bytes [of "g + 40" a sizeof_tss s, simplified add.assoc, simplified]
  have "segment_base ?m (g + 40) = a" unfolding segment_base_def using b base_parts [of a] by (simp add: add.assoc)
  moreover have "segment_limit ?m (g + 40) = 104" "?m (g + 45) = 0xE9"
    unfolding segment_limit_def using b by (simp_all add: add.assoc sizeof_tss_def)
  ultimately show "segment_base (mem (init_tss g a s)) (g + 40) = a" "segment_limit (mem (init_tss g a s)) (g + 40) = 104"
    "mem (init_tss g a s) (g + 45) = 0xE9"
    using base limit access by (simp_all add: init_tss_state)
qed

section \<open>Properties\<close>


definition demo_tss :: tss where
  "demo_tss = keyboard.extend demo_keyboard \<lparr>default_kernel_stack_ptr = 0, task_register = 0\<rparr>"


end
