(* ===== verification/Pci.thy ===== *)
theory Pci
  imports Tss
begin

text \<open>
  \<open>p_mode/drivers/pci/pci.c\<close> and \<open>p_mode/drivers/usb/uhci.c\<close>: configuration space accesses, the scan of all
  buses, and the set-up of a UHCI controller. Configuration space is behind two ports: an address is
  written to \<open>PCI_CONFIG_ADDR\<close> and the register it selects is read or written at \<open>PCI_CONFIG_DATA\<close>.
\<close>

record usb = tss +
  bus0 :: u8
  device0 :: u8
  function0 :: u8
  io_base0 :: u32
  fl_base0 :: u32

definition PCI_CONFIG_ADDR :: u16 where "PCI_CONFIG_ADDR = 0xCF8"
definition PCI_CONFIG_DATA :: u16 where "PCI_CONFIG_DATA = 0xCFC"

definition PCI_UHCI_BASE :: u8 where [simp]: "PCI_UHCI_BASE = 0x0C"
definition PCI_UHCI_SUB_CLASS :: u8 where [simp]: "PCI_UHCI_SUB_CLASS = 0x03"
definition PCI_UHCI_PROG_IF :: u8 where [simp]: "PCI_UHCI_PROG_IF = 0x00"

definition USBBASE_UHCI :: u8 where "USBBASE_UHCI = 0x20"
definition USBCMD_UHCI :: u32 where "USBCMD_UHCI = 0x00"
definition USBSTS_UHCI :: u32 where "USBSTS_UHCI = 0x02"
definition FLBASEADDR_UHCI :: u32 where "FLBASEADDR_UHCI = 0x08"
definition FRNUM_UHCI :: u32 where "FRNUM_UHCI = 0x06"

text \<open>A loop whose body may not return.\<close>

fun each :: "('x \<Rightarrow> 's \<Rightarrow> 's option) \<Rightarrow> 'x list \<Rightarrow> 's \<Rightarrow> 's option" where
  "each f [] s = Some s"
| "each f (x # xs) s = Option.bind (f x s) (each f xs)"

section \<open>Configuration space\<close>

definition config_address :: "u8 \<Rightarrow> u8 \<Rightarrow> u8 \<Rightarrow> u8 \<Rightarrow> u32" where
  "config_address bus slot func offset =
     push_bit 16 (ucast bus) OR push_bit 11 (ucast slot) OR push_bit 8 (ucast func)
       OR ucast (offset AND 0xFC) OR 0x80000000"

definition pci_config_read ::
  "u8 \<Rightarrow> u8 \<Rightarrow> u8 \<Rightarrow> u8 \<Rightarrow> u8 \<Rightarrow> 'a machine_scheme \<Rightarrow> u32 \<times> 'a machine_scheme" where
  "pci_config_read bus slot func offset amount_of_bytes s =
     (let s = outdw PCI_CONFIG_ADDR (config_address bus slot func offset) s;
          (tmp, s) = indw PCI_CONFIG_DATA s
      in (if amount_of_bytes = 1 then drop_bit (unat (offset AND 3) * 8) tmp AND 0xFF
          else if amount_of_bytes = 2 then drop_bit (unat (offset AND 2) * 8) tmp AND 0xFFFF
          else tmp, s))"

text \<open>The writes through \<open>ptr\<close> replace byte \<open>offset & 3\<close>, or halfword \<open>offset && 2\<close>, of \<open>tmp\<close>.\<close>

definition pci_config_write ::
  "u8 \<Rightarrow> u8 \<Rightarrow> u8 \<Rightarrow> u8 \<Rightarrow> u32 \<Rightarrow> u8 \<Rightarrow> 'a machine_scheme \<Rightarrow> 'a machine_scheme" where
  "pci_config_write bus slot func offset to_write amount_of_bytes s =
     (let address = config_address bus slot func offset;
          s = outdw PCI_CONFIG_ADDR address s;
          (tmp, s) = indw PCI_CONFIG_DATA s;
          tmp = (if amount_of_bytes = 1 then
                   let k = 8 * unat (offset AND 3)
                   in (tmp AND NOT (push_bit k 0xFF)) OR push_bit k (to_write AND 0xFF)
                 else if amount_of_bytes = 2 then
                   let k = (if offset \<noteq> 0 then 16 else 0)
                   in (tmp AND NOT (push_bit k 0xFFFF)) OR push_bit k (to_write AND 0xFFFF)
                 else tmp);
          s = outdw PCI_CONFIG_ADDR address s
      in outdw PCI_CONFIG_DATA tmp s)"

definition get_vendorID :: "u8 \<Rightarrow> u8 \<Rightarrow> u8 \<Rightarrow> 'a machine_scheme \<Rightarrow> u16 \<times> 'a machine_scheme" where
  "get_vendorID bus device func s = map_prod ucast id (pci_config_read bus device func 0 1 s)"

definition get_header_type :: "u8 \<Rightarrow> u8 \<Rightarrow> u8 \<Rightarrow> 'a machine_scheme \<Rightarrow> u8 \<times> 'a machine_scheme" where
  "get_header_type bus device func s = map_prod ucast id (pci_config_read bus device func 0xE 1 s)"

definition get_base_class :: "u8 \<Rightarrow> u8 \<Rightarrow> u8 \<Rightarrow> 'a machine_scheme \<Rightarrow> u8 \<times> 'a machine_scheme" where
  "get_base_class bus device func s = map_prod ucast id (pci_config_read bus device func 0xB 1 s)"

definition get_sub_class :: "u8 \<Rightarrow> u8 \<Rightarrow> u8 \<Rightarrow> 'a machine_scheme \<Rightarrow> u8 \<times> 'a machine_scheme" where
  "get_sub_class bus device func s = map_prod ucast id (pci_config_read bus device func 0xA 1 s)"

definition get_secondary_bus :: "u8 \<Rightarrow> u8 \<Rightarrow> u8 \<Rightarrow> 'a machine_scheme \<Rightarrow> u8 \<times> 'a machine_scheme" where
  "get_secondary_bus bus device func s = map_prod ucast id (pci_config_read bus device func 0x19 1 s)"

definition get_subordinate_bus :: "u8 \<Rightarrow> u8 \<Rightarrow> u8 \<Rightarrow> 'a machine_scheme \<Rightarrow> u8 \<times> 'a machine_scheme" where
  "get_subordinate_bus bus device func s = map_prod ucast id (pci_config_read bus device func 0x1A 1 s)"

definition get_progif :: "u8 \<Rightarrow> u8 \<Rightarrow> u8 \<Rightarrow> 'a machine_scheme \<Rightarrow> u8 \<times> 'a machine_scheme" where
  "get_progif bus device func s = map_prod ucast id (pci_config_read bus device func 0x9 1 s)"

section \<open>The UHCI controller\<close>

text \<open>\<open>while(!(inw(port) & 0x0040));\<close>\<close>

partial_function (option) wait_halted :: "u16 \<Rightarrow> 'a machine_scheme \<Rightarrow> 'a machine_scheme option" where
  "wait_halted port s = (case inw port s of (b, s) \<Rightarrow> if b AND 0x40 = 0 then wait_halted port s else Some s)"

definition add_uhci :: "u8 \<Rightarrow> u8 \<Rightarrow> u8 \<Rightarrow> 'a usb_scheme \<Rightarrow> 'a usb_scheme option" where
  "add_uhci bus device func s =
     (let s = s\<lparr>bus0 := bus, device0 := device, function0 := func\<rparr>;
          (v, s) = pci_config_read bus device func USBBASE_UHCI 2 s;
          s = s\<lparr>io_base0 := v AND 0xFFF0\<rparr>;
          (p, s) = kmalloc_a (4 * 1024) s;
          s = s\<lparr>fl_base0 := p\<rparr>;
          s = fold (\<lambda>i. store32 (p + 4 * of_nat i) 1) [0..<1024] s;
          io = io_base0 s;
          (b, s) = inw (ucast (io + USBSTS_UHCI)) s;
          s = outw (ucast (io + USBSTS_UHCI)) (ucast b AND 0xFFBF) s
      in case wait_halted (ucast (io + USBSTS_UHCI)) s of
           None \<Rightarrow> None
         | Some s \<Rightarrow>
             let (b, s) = inw (ucast (io + USBCMD_UHCI)) s;
                 s = outw (ucast (io + USBCMD_UHCI)) (ucast b AND 0xFFFE) s;
                 s = outdw (ucast (io + FLBASEADDR_UHCI)) (fl_base0 s) s
             in Some (outw (ucast (io + FRNUM_UHCI)) 0 s))"

section \<open>The scan\<close>

definition check_function :: "u8 \<Rightarrow> u8 \<Rightarrow> u8 \<Rightarrow> 'a usb_scheme \<Rightarrow> 'a usb_scheme option" where
  "check_function bus device func s =
     (let (base_class, s) = get_base_class bus device func s;
          (sub_class, s) = get_sub_class bus device func s;
          (prog_if, s) = get_progif bus device func s
      in if base_class = PCI_UHCI_BASE \<and> sub_class = PCI_UHCI_SUB_CLASS then
           let (prog_if, s) = get_progif bus device func s
           in if prog_if = PCI_UHCI_PROG_IF then add_uhci bus device func s else Some s
         else Some s)"

definition check_further :: "u8 \<Rightarrow> u8 \<Rightarrow> u8 \<Rightarrow> 'a usb_scheme \<Rightarrow> 'a usb_scheme option" where
  "check_further bus device func s =
     (let (vendor, s) = get_vendorID bus device func s
      in if vendor \<noteq> 0xFFFF then check_function bus device func s else Some s)"

text \<open>\<open>vendorID\<close> is an \<open>uint8_t\<close>, promoted for the comparison.\<close>

definition check_device :: "u8 \<Rightarrow> u8 \<Rightarrow> 'a usb_scheme \<Rightarrow> 'a usb_scheme option" where
  "check_device bus device s =
     (let (v, s) = get_vendorID bus device 0 s;
          vendorID = (ucast v :: u8)
      in if uint vendorID = 0xFFFF then Some s
         else
           case check_function bus device 0 s of
             None \<Rightarrow> None
           | Some s \<Rightarrow>
               let (header_type, s) = get_header_type bus device 0 s
               in if header_type AND 0x80 \<noteq> 0
                  then each (\<lambda>f. check_further bus device (of_nat f)) [1..<8] s
                  else Some s)"

definition check_bus :: "u8 \<Rightarrow> 'a usb_scheme \<Rightarrow> 'a usb_scheme option" where
  "check_bus bus = each (\<lambda>d. check_device bus (of_nat d)) [0..<32]"

definition check_all_buses :: "'a usb_scheme \<Rightarrow> 'a usb_scheme option" where
  "check_all_buses = each (\<lambda>b. each (\<lambda>d. check_device (of_nat b) (of_nat d)) [0..<32]) [0..<256]"

section \<open>Accesses to configuration space only\<close>

definition config_op :: "port_op \<Rightarrow> bool" where
  "config_op x \<longleftrightarrow> x = In32 0xCFC \<or> (\<exists>a. x = Out32 0xCF8 a)"

definition config_only :: "'a machine_scheme \<Rightarrow> 'a machine_scheme \<Rightarrow> bool" where
  "config_only s t \<longleftrightarrow> (\<exists>ops. t = s\<lparr>trace := ops @ trace s\<rparr> \<and> (\<forall>x \<in> set ops. config_op x))"

lemma config_only_refl: "config_only s s"
  unfolding config_only_def by (rule exI [of _ "[]"]) simp

lemma config_only_trans:
  assumes "config_only s t" "config_only t u"
  shows "config_only s u"
proof -
  obtain xs ys where "t = s\<lparr>trace := xs @ trace s\<rparr>" "\<forall>x \<in> set xs. config_op x"
    "u = t\<lparr>trace := ys @ trace t\<rparr>" "\<forall>x \<in> set ys. config_op x"
    using assms by (auto simp: config_only_def)
  then show ?thesis unfolding config_only_def by (intro exI [of _ "ys @ xs"]) auto
qed

text \<open>The hardware answers from a fixed configuration space.\<close>

definition answers :: "(u8 \<Rightarrow> u8 \<Rightarrow> u8 \<Rightarrow> u8 \<Rightarrow> u32) \<Rightarrow> 'a machine_scheme \<Rightarrow> bool" where
  "answers c s \<longleftrightarrow> (\<forall>b d f k tr. dev s (Out32 0xCF8 (config_address b d f k) # tr) (In32 0xCFC) = c b d f (k AND 0xFC))"

lemma answers_config_only: "config_only s t \<Longrightarrow> answers c s \<Longrightarrow> answers c t"
  by (auto simp: config_only_def answers_def)

lemma pci_config_read_eq:
  "pci_config_read b d f k n s =
     (let tmp = dev s (Out32 0xCF8 (config_address b d f k) # trace s) (In32 0xCFC)
      in (if n = 1 then drop_bit (unat (k AND 3) * 8) tmp AND 0xFF
          else if n = 2 then drop_bit (unat (k AND 2) * 8) tmp AND 0xFFFF
          else tmp),
      s\<lparr>trace := In32 0xCFC # Out32 0xCF8 (config_address b d f k) # trace s\<rparr>)"
  by (simp add: pci_config_read_def outdw_def indw_def PCI_CONFIG_ADDR_def PCI_CONFIG_DATA_def Let_def)

lemma config_only_read:
  "config_only s (s\<lparr>trace := In32 0xCFC # Out32 0xCF8 a # trace s\<rparr>)"
  unfolding config_only_def
  by (rule exI [of _ "[In32 0xCFC, Out32 0xCF8 a]"]) (simp add: config_op_def)

lemma byte_read:
  assumes "answers c s"
  obtains t where "pci_config_read b d f k 1 s = (drop_bit (unat (k AND 3) * 8) (c b d f (k AND 0xFC)) AND 0xFF, t)"
    "config_only s t"
  using assms that by (simp add: pci_config_read_eq answers_def Let_def config_only_read)

lemma ucast_byte: "(ucast (x AND 0xFF :: u32) :: u8) = v \<longleftrightarrow> x AND 0xFF = ucast v"
proof
  have e: "(0xFF :: u32) = mask 8" by (simp add: mask_eq_exp_minus_1)
  have "ucast (ucast (x AND 0xFF) :: u8) = x AND 0xFF"
    unfolding e by (rule bit_word_eqI) (auto simp: bit_simps)
  then show "(ucast (x AND 0xFF) :: u8) = v \<Longrightarrow> x AND 0xFF = ucast v" by auto
  have "(ucast (ucast v :: u32) :: u8) = v" by (rule bit_word_eqI) (auto simp: bit_simps)
  then show "x AND 0xFF = ucast v \<Longrightarrow> (ucast (x AND 0xFF) :: u8) = v" by simp
qed

text \<open>Class, subclass and programming interface are the upper three bytes of the register at 8.\<close>

lemma class_code:
  "drop_bit 24 w AND 0xFF = 0x0C \<and> drop_bit 16 w AND 0xFF = 0x03 \<and> drop_bit 8 w AND 0xFF = 0 \<longleftrightarrow>
     drop_bit 8 w = (0x0C0300 :: u32)" (is "?l \<longleftrightarrow> ?r")
proof
  have e: "(0xFF :: u32) = mask 8" by (simp add: mask_eq_exp_minus_1)
  have w: "drop_bit 8 w = push_bit 16 (drop_bit 24 w AND 0xFF) OR push_bit 8 (drop_bit 16 w AND 0xFF) OR
      (drop_bit 8 w AND 0xFF)" (is "_ = ?x")
  proof (rule bit_word_eqI)
    fix n assume "n < LENGTH(32)"
    then consider "n < 8" | "8 \<le> n" "n < 16" | "16 \<le> n" "n < 32" by fastforce
    then show "bit (drop_bit 8 w) n = bit ?x n" unfolding e by cases (auto simp: bit_simps dest: bit_imp_le_length)
  qed
  show "?l \<Longrightarrow> ?r" by (subst w) (simp add: push_bit_eq_mult)
  assume ?r
  moreover have "drop_bit 16 w = drop_bit 8 (drop_bit 8 w)" "drop_bit 24 w = drop_bit 16 (drop_bit 8 w)"
    by simp_all
  ultimately show ?l by (simp only:) simp
qed

lemma check_function_eq:
  assumes "answers c s"
  shows "\<exists>t. config_only s t \<and> check_function b d f s =
    (if drop_bit 8 (c b d f 8) = 0x0C0300 then add_uhci b d f t else Some t)"
proof -
  let ?w = "c b d f 8"
  have rd: "\<exists>t. pci_config_read b d f k 1 u = (drop_bit (unat (k AND 3) * 8) (c b d f (k AND 0xFC)) AND 0xFF, t) \<and>
      config_only u t \<and> answers c t" if "answers c u" for k and u :: "'a usb_scheme"
    by (rule byte_read [OF that, of b d f k]) (use answers_config_only [OF _ that] in blast)
  have at: "unat (0xB AND 3 :: u8) * 8 = 24" "unat (0xA AND 3 :: u8) * 8 = 16" "unat (0x9 AND 3 :: u8) * 8 = 8"
    "(0xB AND 0xFC :: u8) = 8" "(0xA AND 0xFC :: u8) = 8" "(0x9 AND 0xFC :: u8) = 8" by simp_all
  obtain t1 where t1: "pci_config_read b d f 0xB 1 s = (drop_bit 24 ?w AND 0xFF, t1)" "config_only s t1" "answers c t1"
    using rd [OF assms, of "0xB"] unfolding at by blast
  obtain t2 where t2: "pci_config_read b d f 0xA 1 t1 = (drop_bit 16 ?w AND 0xFF, t2)" "config_only t1 t2" "answers c t2"
    using rd [OF t1(3), of "0xA"] unfolding at by blast
  obtain t3 where t3: "pci_config_read b d f 0x9 1 t2 = (drop_bit 8 ?w AND 0xFF, t3)" "config_only t2 t3" "answers c t3"
    using rd [OF t2(3), of "0x9"] unfolding at by blast
  obtain t4 where t4: "pci_config_read b d f 0x9 1 t3 = (drop_bit 8 ?w AND 0xFF, t4)" "config_only t3 t4"
    using rd [OF t3(3), of "0x9"] unfolding at by blast
  have so: "config_only s t3" "config_only s t4"
    using t1(2) t2(2) t3(2) t4(2) config_only_trans by blast+
  have "check_function b d f s =
    (if drop_bit 24 ?w AND 0xFF = 0x0C \<and> drop_bit 16 ?w AND 0xFF = 0x03 then
       if drop_bit 8 ?w AND 0xFF = 0 then add_uhci b d f t4 else Some t4
     else Some t3)"
    unfolding check_function_def get_base_class_def get_sub_class_def get_progif_def t1(1) t2(1) t3(1) t4(1)
      map_prod_simp id_apply Let_def prod.case ucast_byte
    by simp
  then show ?thesis using so class_code [of ?w] by auto
qed

lemma vendor_small: "fst (get_vendorID b d f s) \<noteq> 0xFFFF" "uint (ucast (fst (get_vendorID b d f s)) :: u8) \<noteq> 0xFFFF"
proof -
  have e: "(0xFF :: u32) = mask 8" by (simp add: mask_eq_exp_minus_1)
  have "\<not> bit (fst (get_vendorID b d f s)) 15"
    unfolding get_vendorID_def pci_config_read_eq Let_def e by (simp add: bit_simps)
  moreover have "bit (0xFFFF :: u16) 15" by simp
  ultimately show "fst (get_vendorID b d f s) \<noteq> 0xFFFF" by auto
  have "uint (v :: u8) \<noteq> 0xFFFF" for v using uint_bounded [of v] by simp
  then show "uint (ucast (fst (get_vendorID b d f s)) :: u8) \<noteq> 0xFFFF" .
qed

lemma config_only_vendor: "config_only s (snd (get_vendorID b d f s))"
  by (simp add: get_vendorID_def pci_config_read_eq config_only_read)

lemma config_only_header: "config_only s (snd (get_header_type b d f s))"
  by (simp add: get_header_type_def pci_config_read_eq config_only_read)

lemma check_further_eq: "check_further b d f s = check_function b d f (snd (get_vendorID b d f s))"
  using vendor_small(1) [of b d f s] by (simp add: check_further_def case_prod_beta Let_def)

lemma check_device_eq:
  "check_device b d s = Option.bind (check_function b d 0 (snd (get_vendorID b d 0 s)))
     (\<lambda>s. let (h, s) = get_header_type b d 0 s
          in if h AND 0x80 \<noteq> 0 then each (\<lambda>f. check_further b d (of_nat f)) [1..<8] s else Some s)"
  using vendor_small(2) [of b d 0 s]
  by (simp add: check_device_def case_prod_beta Let_def split: option.split)

lemma each_config_only:
  assumes "\<And>x s. answers c s \<Longrightarrow> \<exists>t. f x s = Some t \<and> config_only s t" "answers c s"
  shows "\<exists>t. each f xs s = Some t \<and> config_only s t"
  using assms(2)
proof (induction xs arbitrary: s)
  case (Cons x xs)
  obtain t where t: "f x s = Some t" "config_only s t" using assms(1) Cons.prems by blast
  with Cons.IH [of t] answers_config_only [OF t(2) Cons.prems] config_only_trans show ?case by fastforce
qed (simp add: config_only_refl)

section \<open>Properties\<close>

text \<open>A function is taken for a UHCI controller exactly when its class register says serial bus, USB,
  programming interface 0; before that, and otherwise, the check only reads configuration space.\<close>

theorem uhci_detection:
  assumes "answers c s"
  shows "\<exists>t ops. t = s\<lparr>trace := ops @ trace s\<rparr> \<and> (\<forall>x \<in> set ops. x = In32 0xCFC \<or> (\<exists>a. x = Out32 0xCF8 a)) \<and>
    check_function b d f s = (if drop_bit 8 (c b d f 8) = 0x0C0300 then add_uhci b d f t else Some t)"
  using check_function_eq [OF assms, of b d f] unfolding config_only_def config_op_def by blast

text \<open>C34. Without a UHCI controller the scan of all 256 buses ends and only reads configuration space: the
  rest of the machine is as before.\<close>

theorem scan_reads_only:
  assumes "answers c s" and "\<forall>b d f. drop_bit 8 (c b d f 8) \<noteq> 0x0C0300"
  shows "\<exists>t ops. check_all_buses s = Some t \<and> t = s\<lparr>trace := ops @ trace s\<rparr> \<and>
    (\<forall>x \<in> set ops. x = In32 0xCFC \<or> (\<exists>a. x = Out32 0xCF8 a))"
proof -
  have fn: "\<exists>t. check_function b d f s = Some t \<and> config_only s t" if "answers c s" for b d f and s :: "'a usb_scheme"
    using check_function_eq [OF that, of b d f] assms(2) by auto
  have fur: "\<exists>t. check_further b d f s = Some t \<and> config_only s t" if "answers c s" for b d f and s :: "'a usb_scheme"
    unfolding check_further_eq
    using fn [OF answers_config_only [OF config_only_vendor that]] config_only_trans [OF config_only_vendor] by blast
  have dev: "\<exists>t. check_device b d s = Some t \<and> config_only s t" if s: "answers c s" for b d and s :: "'a usb_scheme"
  proof -
    obtain t where t: "check_function b d 0 (snd (get_vendorID b d 0 s)) = Some t" "config_only s t"
      using fn [OF answers_config_only [OF config_only_vendor s]] config_only_trans [OF config_only_vendor] by blast
    let ?u = "snd (get_header_type b d 0 t)"
    have u: "config_only s ?u" using config_only_trans [OF t(2) config_only_header] .
    obtain v where "each (\<lambda>f. check_further b d (of_nat f)) [1..<8] ?u = Some v" "config_only ?u v"
      using each_config_only [of c "\<lambda>f. check_further b d (of_nat f)" ?u "[1..<8]"] fur answers_config_only [OF u s]
      by blast
    then show ?thesis unfolding check_device_eq using t u config_only_trans [OF u]
      by (auto simp: case_prod_beta Let_def)
  qed
  have "\<exists>t. check_all_buses s = Some t \<and> config_only s t"
    unfolding check_all_buses_def
    by (rule each_config_only [OF _ assms(1)]) (rule each_config_only [where c = c], rule dev)
  then show ?thesis unfolding config_only_def config_op_def by blast
qed

text \<open>The test for an absent device never succeeds: \<open>get_vendorID\<close> reads one byte only, so it never
  gives 0xFFFF, and every function that is looked at is checked.\<close>

theorem vendor_check_never_rejects:
  "fst (get_vendorID b d f s) \<noteq> 0xFFFF \<and>
   check_further b d f s = check_function b d f (snd (get_vendorID b d f s)) \<and>
   (check_function b d 0 (snd (get_vendorID b d 0 s)) = None \<longrightarrow> check_device b d s = None)"
  using vendor_small(1) [of b d f s] by (simp add: check_further_eq check_device_eq)

section \<open>Witnesses\<close>

text \<open>Hardware whose configuration registers all hold 0x8086.\<close>

definition demo_pci :: usb where
  "demo_pci = tss.extend demo_tss \<lparr>bus0 = 0, device0 = 0, function0 = 0, io_base0 = 0, fl_base0 = 0\<rparr>
     \<lparr>dev := \<lambda>tr _. 0x8086\<rparr>"

lemma demo_pci_answers: "answers (\<lambda>_ _ _ _. 0x8086) demo_pci"
  by (simp add: answers_def demo_pci_def)

lemma uhci_detection_witness: "\<exists>t. check_function 0 3 0 demo_pci = Some (t :: usb)"
  using uhci_detection [OF demo_pci_answers, of 0 3 0] by auto

lemma scan_reads_only_witness: "\<exists>t. check_all_buses demo_pci = Some (t :: usb) \<and> mem t = mem demo_pci"
  using scan_reads_only [OF demo_pci_answers] by auto

lemma vendor_check_never_rejects_witness:
  "check_further 0 3 1 demo_pci = check_function 0 3 1 (snd (get_vendorID 0 3 1 demo_pci))"
  using vendor_check_never_rejects [of 0 3 1 demo_pci] by blast

end
