(* ===== verification/ElfLoader.thy ===== *)
theory ElfLoader
  imports Pci
begin

text \<open>
  \<open>p_mode/elf_parse.c\<close>, the second stage of the boot loader: it scans the buses with functions of its own,
  reads 128 sectors of the kernel image into a buffer at 0xA000, and copies the segments of the ELF
  file to their physical addresses. It is a program of its own, with its own console: \<open>cursor\<close> is the
  address of the next cell of video memory.
\<close>

record stage2 = machine +
  cursor_ptr :: u32
  s2_bus0 :: u8
  s2_device0 :: u8
  s2_function0 :: u8
  s2_io_base0 :: u32
  s2_fl_base0 :: u32

definition KERNEL_SECS_TO_LOAD :: nat where "KERNEL_SECS_TO_LOAD = 0x80"

section \<open>Console\<close>

definition stage2_putc :: "u8 \<Rightarrow> 'a stage2_scheme \<Rightarrow> 'a stage2_scheme" where
  "stage2_putc c s =
     (let s = store16 (cursor_ptr s) (0x9000 OR ucast c) s in s\<lparr>cursor_ptr := cursor_ptr s + 2\<rparr>)"

fun stage2_puts :: "u8 list \<Rightarrow> 'a stage2_scheme \<Rightarrow> 'a stage2_scheme" where
  "stage2_puts [] s = s"
| "stage2_puts (c # cs) s = (if c = 0 then s else stage2_puts cs (stage2_putc c s))"

function stage2_puth_digits :: "u32 \<Rightarrow> u32 \<Rightarrow> 'a stage2_scheme \<Rightarrow> 'a stage2_scheme" where
  "stage2_puth_digits a b s =
     (if b \<noteq> 0 then
        let d = (ucast (a div b) :: u8);
            s = (if 9 < d then stage2_putc (64 + (d - 9)) s else stage2_putc (ucast (a div b) + 48) s)
        in stage2_puth_digits (a mod b) (b div 0x10) s
      else s)"
  by pat_completeness auto
termination
proof (relation "measure (\<lambda>(a, b, s). unat b)", simp, clarsimp)
  fix b :: u32 assume "b \<noteq> 0"
  then show "unat (b div 0x10) < unat b" by (simp add: unat_div unat_gt_0)
qed

declare stage2_puth_digits.simps [simp del]

definition stage2_puth :: "u32 \<Rightarrow> 'a stage2_scheme \<Rightarrow> 'a stage2_scheme" where
  "stage2_puth a s =
     (let s = stage2_puts (str ''0x'') s
      in if a = 0 then stage2_putc 48 s else stage2_puth_digits a (leading_power 0x10 0x10000000 a) s)"

definition stage2_memcpy :: "u32 \<Rightarrow> u32 \<Rightarrow> u32 \<Rightarrow> 'a machine_scheme \<Rightarrow> 'a machine_scheme" where
  "stage2_memcpy dest src n_bytes s = s\<lparr>mem := mem_copy dest src n_bytes (mem s)\<rparr>"

section \<open>Ports\<close>

text \<open>The file has port functions of its own, the same instructions as those of \<open>system.c\<close>.\<close>

definition stage2_inb :: "u16 \<Rightarrow> 'a machine_scheme \<Rightarrow> u8 \<times> 'a machine_scheme" where
  "stage2_inb port s = (ucast (dev s (trace s) (In8 port)), s\<lparr>trace := In8 port # trace s\<rparr>)"

definition stage2_outb :: "u16 \<Rightarrow> u8 \<Rightarrow> 'a machine_scheme \<Rightarrow> 'a machine_scheme" where
  "stage2_outb port data s = s\<lparr>trace := Out8 port data # trace s\<rparr>"

definition stage2_indw :: "u16 \<Rightarrow> 'a machine_scheme \<Rightarrow> u32 \<times> 'a machine_scheme" where
  "stage2_indw port s = (dev s (trace s) (In32 port), s\<lparr>trace := In32 port # trace s\<rparr>)"

definition stage2_outdw :: "u16 \<Rightarrow> u32 \<Rightarrow> 'a machine_scheme \<Rightarrow> 'a machine_scheme" where
  "stage2_outdw port dword s = s\<lparr>trace := Out32 port dword # trace s\<rparr>"

text \<open>Here too \<open>inw\<close> is declared to return eight bits.\<close>

definition stage2_inw :: "u16 \<Rightarrow> 'a machine_scheme \<Rightarrow> u8 \<times> 'a machine_scheme" where
  "stage2_inw port s =
     (let result = (ucast (dev s (trace s) (In16 port)) :: u16)
      in (ucast result, s\<lparr>trace := In16 port # trace s\<rparr>))"

definition stage2_outw :: "u16 \<Rightarrow> u16 \<Rightarrow> 'a machine_scheme \<Rightarrow> 'a machine_scheme" where
  "stage2_outw port word s = s\<lparr>trace := Out16 port word # trace s\<rparr>"

definition stage2_pci_config_read ::
  "u8 \<Rightarrow> u8 \<Rightarrow> u8 \<Rightarrow> u8 \<Rightarrow> u8 \<Rightarrow> 'a machine_scheme \<Rightarrow> u32 \<times> 'a machine_scheme" where
  "stage2_pci_config_read bus slot func offset amount_of_bytes s =
     (let s = stage2_outdw PCI_CONFIG_ADDR (config_address bus slot func offset) s;
          (tmp, s) = stage2_indw PCI_CONFIG_DATA s
      in (if amount_of_bytes = 1 then drop_bit (unat (offset AND 3) * 8) tmp AND 0xFF
          else if amount_of_bytes = 2 then drop_bit (unat (offset AND 2) * 8) tmp AND 0xFFFF
          else tmp, s))"

lemma stage2_ports [simp]:
  "stage2_inb = inb" "stage2_outb = outb" "stage2_indw = indw" "stage2_outdw = outdw" "stage2_inw = inw" "stage2_outw = outw"
  by (intro ext, simp add: stage2_inb_def inb_def stage2_outb_def outb_def stage2_indw_def indw_def stage2_outdw_def
      outdw_def stage2_inw_def inw_def stage2_outw_def outw_def)+

lemma stage2_pci_config_read_eq [simp]: "stage2_pci_config_read = pci_config_read"
  by (intro ext) (simp add: stage2_pci_config_read_def pci_config_read_def)

section \<open>Disk\<close>

text \<open>\<open>rep insl\<close>: \<open>cnt\<close> words from the port to ascending addresses.\<close>

fun insl :: "u32 \<Rightarrow> u32 \<Rightarrow> nat \<Rightarrow> 'a machine_scheme \<Rightarrow> 'a machine_scheme" where
  "insl port addr 0 s = s"
| "insl port addr (Suc cnt) s = (let (v, s) = indw (ucast port) s in insl port (addr + 4) cnt (store32 addr v s))"

partial_function (option) waitdisk :: "'a machine_scheme \<Rightarrow> 'a machine_scheme option" where
  "waitdisk s = (case stage2_inb 0x1F7 s of (b, s) \<Rightarrow> if b AND 0xC0 \<noteq> 0x40 then waitdisk s else Some s)"

definition read_command :: "u32 \<Rightarrow> 'a machine_scheme \<Rightarrow> 'a machine_scheme" where
  "read_command sector_start s =
     (let s = stage2_outb 0x1F2 1 s;
          s = stage2_outb 0x1F3 (ucast sector_start) s;
          s = stage2_outb 0x1F4 (ucast (drop_bit 8 sector_start)) s;
          s = stage2_outb 0x1F5 (ucast (drop_bit 16 sector_start)) s;
          s = stage2_outb 0x1F6 (ucast (drop_bit 24 sector_start OR 0xE0)) s
      in stage2_outb 0x1F7 0x20 s)"

definition read_sector :: "u32 \<Rightarrow> u32 \<Rightarrow> 'a machine_scheme \<Rightarrow> 'a machine_scheme option" where
  "read_sector sector_start dest s =
     Option.bind (waitdisk s) (\<lambda>s.
       Option.bind (waitdisk (read_command sector_start s)) (\<lambda>s. Some (insl 0x1F0 dest (512 div 4) s)))"

section \<open>The scan of the buses\<close>

definition stage2_add_uhci :: "u8 \<Rightarrow> u8 \<Rightarrow> u8 \<Rightarrow> 'a stage2_scheme \<Rightarrow> 'a stage2_scheme" where
  "stage2_add_uhci bus device func s =
     (let s = s\<lparr>s2_bus0 := bus, s2_device0 := device, s2_function0 := func\<rparr>;
          (v, s) = stage2_pci_config_read bus device func USBBASE_UHCI 2 s;
          s = s\<lparr>s2_io_base0 := v AND 0xFFF0, s2_fl_base0 := 0x6000\<rparr>;
          io = s2_io_base0 s;
          (b, s) = stage2_inw (ucast (io + USBSTS_UHCI)) s;
          s = stage2_outw (ucast (io + USBSTS_UHCI)) (ucast b AND 0xFFBF) s;
          (b, s) = stage2_inw (ucast (io + USBCMD_UHCI)) s;
          s = stage2_outw (ucast (io + USBCMD_UHCI)) (ucast b AND 0xFFFE) s;
          s = stage2_outdw (ucast (io + FLBASEADDR_UHCI)) (s2_fl_base0 s) s
      in stage2_outw (ucast (io + FRNUM_UHCI)) 0 s)"

definition pci_config_read_word :: "u8 \<Rightarrow> u8 \<Rightarrow> u8 \<Rightarrow> u8 \<Rightarrow> 'a machine_scheme \<Rightarrow> u16 \<times> 'a machine_scheme" where
  "pci_config_read_word bus slot func offset s =
     (let s = stage2_outdw PCI_CONFIG_ADDR (config_address bus slot func offset) s;
          (v, s) = stage2_indw PCI_CONFIG_DATA s
      in (ucast (drop_bit (unat (offset AND 2) * 8) v AND 0xFFFF), s))"

definition stage2_get_vendorID :: "u8 \<Rightarrow> u8 \<Rightarrow> u8 \<Rightarrow> 'a machine_scheme \<Rightarrow> u16 \<times> 'a machine_scheme" where
  "stage2_get_vendorID bus device func s = pci_config_read_word bus device func 1 s"

definition stage2_get_header_type :: "u8 \<Rightarrow> u8 \<Rightarrow> u8 \<Rightarrow> 'a machine_scheme \<Rightarrow> u8 \<times> 'a machine_scheme" where
  "stage2_get_header_type bus device func s =
     map_prod (\<lambda>w. ucast (0xFF AND w)) id (pci_config_read_word bus device func 0xE s)"

definition stage2_get_base_class :: "u8 \<Rightarrow> u8 \<Rightarrow> u8 \<Rightarrow> 'a machine_scheme \<Rightarrow> u8 \<times> 'a machine_scheme" where
  "stage2_get_base_class bus device func s =
     map_prod (\<lambda>w. ucast (drop_bit 8 w AND 0xFF)) id (pci_config_read_word bus device func 0xB s)"

definition stage2_get_sub_class :: "u8 \<Rightarrow> u8 \<Rightarrow> u8 \<Rightarrow> 'a machine_scheme \<Rightarrow> u8 \<times> 'a machine_scheme" where
  "stage2_get_sub_class bus device func s =
     map_prod (\<lambda>w. ucast (w AND 0xFF)) id (pci_config_read_word bus device func 0xA s)"

definition stage2_get_secondary_bus :: "u8 \<Rightarrow> u8 \<Rightarrow> u8 \<Rightarrow> 'a machine_scheme \<Rightarrow> u8 \<times> 'a machine_scheme" where
  "stage2_get_secondary_bus bus device func s =
     map_prod (\<lambda>w. ucast (drop_bit 8 w AND 0xFF)) id (pci_config_read_word bus device func 0x19 s)"

definition stage2_get_subordinate_bus :: "u8 \<Rightarrow> u8 \<Rightarrow> u8 \<Rightarrow> 'a machine_scheme \<Rightarrow> u8 \<times> 'a machine_scheme" where
  "stage2_get_subordinate_bus bus device func s =
     map_prod (\<lambda>w. ucast (w AND 0xFF)) id (pci_config_read_word bus device func 0x1A s)"

definition stage2_get_progif :: "u8 \<Rightarrow> u8 \<Rightarrow> u8 \<Rightarrow> 'a machine_scheme \<Rightarrow> u8 \<times> 'a machine_scheme" where
  "stage2_get_progif bus device func s =
     map_prod (\<lambda>w. ucast (drop_bit 8 w AND 0xFF)) id (pci_config_read_word bus device func 0x9 s)"

text \<open>The third read is made only when the first two match.\<close>

definition stage2_check_function :: "u8 \<Rightarrow> u8 \<Rightarrow> u8 \<Rightarrow> 'a stage2_scheme \<Rightarrow> 'a stage2_scheme" where
  "stage2_check_function bus device func s =
     (let (base_class, s) = stage2_get_base_class bus device func s;
          (sub_class, s) = stage2_get_sub_class bus device func s
      in if base_class = PCI_UHCI_BASE \<and> sub_class = PCI_UHCI_SUB_CLASS then
           let (prog_if, s) = stage2_get_progif bus device func s
           in if prog_if = PCI_UHCI_PROG_IF then stage2_puts (str ''no, u'') (stage2_add_uhci bus device func s) else s
         else s)"

definition stage2_check_further :: "u8 \<Rightarrow> u8 \<Rightarrow> u8 \<Rightarrow> 'a stage2_scheme \<Rightarrow> 'a stage2_scheme" where
  "stage2_check_further bus device func s =
     (let (vendor, s) = stage2_get_vendorID bus device func s
      in if vendor \<noteq> 0xFFFF then stage2_check_function bus device func s else s)"

definition stage2_check_device :: "u8 \<Rightarrow> u8 \<Rightarrow> 'a stage2_scheme \<Rightarrow> 'a stage2_scheme" where
  "stage2_check_device bus device s =
     (let (v, s) = stage2_get_vendorID bus device 0 s;
          vendorID = (ucast v :: u8)
      in if uint vendorID = 0xFFFF then s
         else
           let s = stage2_check_function bus device 0 s;
               (header_type, s) = stage2_get_header_type bus device 0 s
           in if header_type AND 0x80 \<noteq> 0
              then fold (\<lambda>f. stage2_check_further bus device (of_nat f)) [1..<8] s
              else s)"

definition stage2_check_bus :: "u8 \<Rightarrow> 'a stage2_scheme \<Rightarrow> 'a stage2_scheme" where
  "stage2_check_bus bus = fold (\<lambda>d. stage2_check_device bus (of_nat d)) [0..<32]"

definition stage2_check_all_buses :: "'a stage2_scheme \<Rightarrow> 'a stage2_scheme" where
  "stage2_check_all_buses =
     fold (\<lambda>b. fold (\<lambda>d. stage2_check_device (of_nat b) (of_nat d)) [0..<32]) [0..<256]"

section \<open>The ELF file\<close>

record phdr =
  p_type :: u32
  p_offset :: u32
  p_vaddr :: u32
  p_paddr :: u32
  p_filesz :: u32
  p_memsz :: u32
  p_flags :: u32
  p_align :: u32

definition read_phdr :: "mem \<Rightarrow> u32 \<Rightarrow> phdr" where
  "read_phdr m a = \<lparr>p_type = ld32 m a, p_offset = ld32 m (a + 4), p_vaddr = ld32 m (a + 8),
     p_paddr = ld32 m (a + 12), p_filesz = ld32 m (a + 16), p_memsz = ld32 m (a + 20),
     p_flags = ld32 m (a + 24), p_align = ld32 m (a + 28)\<rparr>"

record ehdr =
  e_ident :: "u8 list"
  e_type :: u16
  e_machine :: u16
  e_version :: u32
  e_entry :: u32
  e_phoff :: u32
  e_shoff :: u32
  e_flags :: u32
  e_ehsize :: u16
  e_phentsize :: u16
  e_phnum :: u16
  e_shentsize :: u16
  e_shnum :: u16
  e_shstrndx :: u16

definition EI_NIDENT :: nat where [simp]: "EI_NIDENT = 16"
definition EI_MAG0 :: nat where [simp]: "EI_MAG0 = 0"
definition EHDR_MAG0 :: u8 where [simp]: "EHDR_MAG0 = 0x7F"
definition PT_NULL :: u32 where [simp]: "PT_NULL = 0"

definition read_ehdr :: "mem \<Rightarrow> u32 \<Rightarrow> ehdr" where
  "read_ehdr m a = \<lparr>e_ident = map (\<lambda>i. m (a + of_nat i)) [0..<EI_NIDENT], e_type = ld16 m (a + 16),
     e_machine = ld16 m (a + 18), e_version = ld32 m (a + 20), e_entry = ld32 m (a + 24), e_phoff = ld32 m (a + 28),
     e_shoff = ld32 m (a + 32), e_flags = ld32 m (a + 36), e_ehsize = ld16 m (a + 40), e_phentsize = ld16 m (a + 42),
     e_phnum = ld16 m (a + 44), e_shentsize = ld16 m (a + 46), e_shnum = ld16 m (a + 48), e_shstrndx = ld16 m (a + 50)\<rparr>"

lemma read_ehdr_fields [simp]:
  "e_ident (read_ehdr m a) ! 0 = m a" "e_phoff (read_ehdr m a) = ld32 m (a + 28)" "e_phnum (read_ehdr m a) = ld16 m (a + 44)"
  by (simp_all add: read_ehdr_def)

definition load_segment :: "u32 \<Rightarrow> phdr \<Rightarrow> mem \<Rightarrow> mem" where
  "load_segment main_hdr ph m =
     (if p_type ph = PT_NULL then m
      else
        let m = mem_copy (p_paddr ph) (main_hdr + p_offset ph) (p_filesz ph) m
        in if p_filesz ph < p_memsz ph
           then mem_set (p_paddr ph + p_filesz ph) 0 (p_memsz ph - p_filesz ph) m
           else m)"

text \<open>The loop over the entries of the program header table, each read when its turn comes.\<close>

fun load_segments :: "u32 \<Rightarrow> u32 \<Rightarrow> nat \<Rightarrow> nat \<Rightarrow> mem \<Rightarrow> mem" where
  "load_segments main_hdr table i 0 m = m"
| "load_segments main_hdr table i (Suc n) m =
     load_segments main_hdr table (Suc i) n
       (load_segment main_hdr (read_phdr m (table + 32 * of_nat i)) m)"

definition parse_ELF :: "u32 \<Rightarrow> 'a stage2_scheme \<Rightarrow> 'a stage2_scheme option" where
  "parse_ELF to_load_from s =
     (let s = stage2_check_all_buses s;
          buffer_start = 0xA000;
          to_load_from = to_load_from div 512
      in case each (\<lambda>i. read_sector (to_load_from + of_nat i) (buffer_start + of_nat i * 512))
                [0..<KERNEL_SECS_TO_LOAD] s of
           None \<Rightarrow> None
         | Some s \<Rightarrow>
             let main_hdr = read_ehdr (mem s) buffer_start
             in if e_ident main_hdr ! EI_MAG0 \<noteq> EHDR_MAG0 then
                  Some (stage2_puth (ucast (e_ident main_hdr ! EI_MAG0)) (stage2_puts (str ''Incorrect MAG0 '') s))
                else
                  Some (s\<lparr>mem := load_segments buffer_start (buffer_start + e_phoff main_hdr) 0
                            (unat (e_phnum main_hdr)) (mem s)\<rparr>))"

section \<open>Segments\<close>

definition target :: "phdr \<Rightarrow> u32 set" where
  "target ph = (if p_type ph = 0 then {} else region (p_paddr ph) (max (unat (p_filesz ph)) (unat (p_memsz ph))))"

text \<open>The file image is the 64 KB from \<open>hdr\<close>; a segment comes from inside it and goes outside it.\<close>

definition segment_ok :: "u32 \<Rightarrow> phdr \<Rightarrow> bool" where
  "segment_ok hdr ph \<longleftrightarrow> p_type ph \<noteq> 0 \<longrightarrow>
     unat (p_paddr ph) + max (unat (p_filesz ph)) (unat (p_memsz ph)) \<le> 4294967296 \<and>
     target ph \<inter> region hdr 65536 = {} \<and> region (hdr + p_offset ph) (unat (p_filesz ph)) \<subseteq> region hdr 65536"

text \<open>The bytes of the file, then zeros.\<close>

definition loaded :: "u32 \<Rightarrow> phdr \<Rightarrow> mem \<Rightarrow> mem \<Rightarrow> bool" where
  "loaded hdr ph m m' \<longleftrightarrow> p_type ph \<noteq> 0 \<longrightarrow>
     (\<forall>k<unat (p_filesz ph). m' (p_paddr ph + of_nat k) = m (hdr + p_offset ph + of_nat k)) \<and>
     (\<forall>k. unat (p_filesz ph) \<le> k \<longrightarrow> k < unat (p_memsz ph) \<longrightarrow> m' (p_paddr ph + of_nat k) = 0)"

lemma bss_region:
  assumes "segment_ok hdr ph" "p_type ph \<noteq> 0" "p_filesz ph < p_memsz ph"
  shows "x \<in> region (p_paddr ph + p_filesz ph) (unat (p_memsz ph - p_filesz ph)) \<longleftrightarrow>
    unat (p_paddr ph) + unat (p_filesz ph) \<le> unat x \<and> unat x < unat (p_paddr ph) + unat (p_memsz ph)"
proof -
  have n: "unat (p_memsz ph - p_filesz ph) = unat (p_memsz ph) - unat (p_filesz ph)"
    and le: "unat (p_filesz ph) < unat (p_memsz ph)"
    using assms(3) by (simp_all add: unat_sub word_less_nat_alt less_imp_le)
  have "unat (p_paddr ph) + unat (p_memsz ph) \<le> 4294967296" using assms(1,2) by (auto simp: segment_ok_def max_def split: if_splits)
  then have a: "unat (p_paddr ph + p_filesz ph) = unat (p_paddr ph) + unat (p_filesz ph)"
    using le by (intro unat_add_no_wrap) linarith
  have "unat (p_paddr ph + p_filesz ph) + unat (p_memsz ph - p_filesz ph) \<le> 4294967296"
    using assms(1,2) le by (simp add: a n segment_ok_def)
  from region_iff [OF this] show ?thesis using le by (simp add: a n)
qed

lemma load_segment_outside:
  assumes "segment_ok hdr ph" "x \<notin> target ph"
  shows "load_segment hdr ph m x = m x"
proof (cases "p_type ph = 0")
  case False
  let ?n = "max (unat (p_filesz ph)) (unat (p_memsz ph))"
  have x: "x \<notin> region (p_paddr ph) ?n" using assms(2) False by (simp add: target_def)
  then have "x \<notin> region (p_paddr ph) (unat (p_filesz ph))" using region_mono [of "unat (p_filesz ph)" ?n] by auto
  then have copy: "mem_copy (p_paddr ph) (hdr + p_offset ph) (p_filesz ph) m x = m x" by (rule mem_copy_frame)
  have "unat (p_paddr ph) + ?n \<le> 4294967296" using assms(1) False by (simp add: segment_ok_def)
  with x have "\<not> (unat (p_paddr ph) \<le> unat x \<and> unat x < unat (p_paddr ph) + ?n)" by (simp add: region_iff)
  with bss_region [OF assms(1) False] copy show ?thesis
    by (auto simp: load_segment_def mem_set_eq False Let_def)
qed (simp add: load_segment_def)

lemma load_segment_loaded:
  assumes "segment_ok hdr ph"
  shows "loaded hdr ph m (load_segment hdr ph m)"
  unfolding loaded_def
proof (intro impI conjI allI)
  assume t: "p_type ph \<noteq> 0"
  let ?fs = "unat (p_filesz ph)" and ?ms = "unat (p_memsz ph)" and ?a = "p_paddr ph"
  have room: "unat ?a + max ?fs ?ms \<le> 4294967296" using assms t by (simp add: segment_ok_def)
  have at: "unat (?a + of_nat k) = unat ?a + k" if "k < max ?fs ?ms" for k
    using that room by (intro unat_add_of_nat) linarith
  {
    fix k assume k: "k < ?fs"
    have "region ?a ?fs \<inter> region (hdr + p_offset ph) ?fs = {}"
      using assms t region_mono [of ?fs "max ?fs ?ms" ?a] by (auto simp: segment_ok_def target_def)
    then have "mem_copy ?a (hdr + p_offset ph) (p_filesz ph) m (?a + of_nat k) = m (hdr + p_offset ph + of_nat k)"
      using mem_copy_eq [of ?a "p_filesz ph" "hdr + p_offset ph" "?a + of_nat k" m] k region_offset [of k ?fs ?a]
      by (simp add: less_imp_le)
    moreover have "\<not> unat ?a + ?fs \<le> unat (?a + of_nat k)" using k at [of k] by simp
    ultimately show "load_segment hdr ph m (?a + of_nat k) = m (hdr + p_offset ph + of_nat k)"
      using bss_region [OF assms t] by (auto simp: load_segment_def mem_set_eq t Let_def)
  next
    fix k assume k: "?fs \<le> k" "k < ?ms"
    then have lt: "p_filesz ph < p_memsz ph" by (simp add: word_less_nat_alt)
    have "?a + of_nat k \<in> region (?a + p_filesz ph) (unat (p_memsz ph - p_filesz ph))"
      unfolding bss_region [OF assms t lt] using k at [of k] by simp
    then show "load_segment hdr ph m (?a + of_nat k) = 0" using lt by (simp add: load_segment_def mem_set_eq t Let_def)
  }
qed

lemma region_inside:
  assumes "k + n \<le> N" "N \<le> 4294967296"
  shows "region (a + of_nat k) n \<subseteq> region a N"
proof
  fix x assume "x \<in> region (a + of_nat k) n"
  then have x: "unat (x - (a + of_nat k)) < n" by (simp add: region_def)
  have "x - a = (x - (a + of_nat k)) + of_nat k" by simp
  moreover have "unat ((x - (a + of_nat k)) + of_nat k) = unat (x - (a + of_nat k)) + k"
    using x assms by (intro unat_add_of_nat) linarith
  ultimately show "x \<in> region a N" using x assms by (simp add: region_def)
qed

lemma read_phdr_cong:
  assumes "\<And>x. x \<in> region a 32 \<Longrightarrow> m' x = m x"
  shows "read_phdr m' a = read_phdr m a"
proof -
  have "ld32 m' (a + of_nat k) = ld32 m (a + of_nat k)" if "k + 4 \<le> 32" for k
    by (rule s32.ld_cong) (use region_inside [OF that] assms in auto)
  from this [of 0] this [of 4] this [of 8] this [of 12] this [of 16] this [of 20] this [of 24] this [of 28]
  show ?thesis by (simp add: read_phdr_def)
qed

text \<open>Entry \<open>j\<close> of the table, and the well-formedness of the entries from \<open>i\<close> on.\<close>

definition entry :: "mem \<Rightarrow> u32 \<Rightarrow> nat \<Rightarrow> phdr" where
  "entry m table j = read_phdr m (table + 32 * of_nat j)"

definition entries_ok :: "u32 \<Rightarrow> u32 \<Rightarrow> nat set \<Rightarrow> mem \<Rightarrow> bool" where
  "entries_ok hdr table J m \<longleftrightarrow>
     (\<forall>j \<in> J. region (table + 32 * of_nat j) 32 \<subseteq> region hdr 65536 \<and> segment_ok hdr (entry m table j)) \<and>
     (\<forall>j \<in> J. \<forall>k \<in> J. j \<noteq> k \<longrightarrow> target (entry m table j) \<inter> target (entry m table k) = {})"

lemma target_outside: "segment_ok hdr ph \<Longrightarrow> target ph \<inter> region hdr 65536 = {}"
  by (auto simp: segment_ok_def target_def)

lemma load_segment_image:
  "segment_ok hdr ph \<Longrightarrow> x \<in> region hdr 65536 \<Longrightarrow> load_segment hdr ph m x = m x"
  using target_outside load_segment_outside by blast

lemma loaded_cong:
  assumes "segment_ok hdr ph" "\<And>x. x \<in> region hdr 65536 \<Longrightarrow> mid x = m x" "\<And>x. x \<in> target ph \<Longrightarrow> final x = m' x"
    "loaded hdr ph mid m'"
  shows "loaded hdr ph m final"
proof -
  {
    assume t: "p_type ph \<noteq> 0"
    have src: "hdr + p_offset ph + of_nat k \<in> region hdr 65536" if "k < unat (p_filesz ph)" for k
      using assms(1) t region_offset [OF that, of "hdr + p_offset ph"] by (auto simp: segment_ok_def less_imp_le)
    have tgt: "p_paddr ph + of_nat k \<in> target ph" if "k < max (unat (p_filesz ph)) (unat (p_memsz ph))" for k
      using t region_offset [OF that, of "p_paddr ph"] by (simp add: target_def less_imp_le)
    have "(\<forall>k<unat (p_filesz ph). final (p_paddr ph + of_nat k) = m (hdr + p_offset ph + of_nat k)) \<and>
     (\<forall>k. unat (p_filesz ph) \<le> k \<longrightarrow> k < unat (p_memsz ph) \<longrightarrow> final (p_paddr ph + of_nat k) = 0)"
      using assms(2) [OF src] assms(3) [OF tgt] assms(4) t by (auto simp: loaded_def less_max_iff_disj)
  }
  then show ?thesis by (simp add: loaded_def)
qed

lemma load_segments_spec:
  "entries_ok hdr table {i..<i + n} m \<Longrightarrow>
     (\<forall>j \<in> {i..<i + n}. loaded hdr (entry m table j) m (load_segments hdr table i n m)) \<and>
     (\<forall>x. (\<forall>j \<in> {i..<i + n}. x \<notin> target (entry m table j)) \<longrightarrow> load_segments hdr table i n m x = m x)"
proof (induction n arbitrary: i m)
  case (Suc n)
  let ?m = "load_segment hdr (entry m table i) m"
  let ?t = "load_segments hdr table (Suc i) n ?m"
  have oki: "segment_ok hdr (entry m table i)" using Suc.prems by (simp add: entries_ok_def)
  have image: "?m x = m x" if "x \<in> region hdr 65536" for x using load_segment_image [OF oki that] .
  have same: "entry ?m table j = entry m table j" if "j \<in> {Suc i..<Suc i + n}" for j
    unfolding entry_def
  proof (rule read_phdr_cong)
    fix x assume "x \<in> region (table + 32 * of_nat j) 32"
    then have "x \<in> region hdr 65536" using Suc.prems that by (auto simp: entries_ok_def)
    then show "load_segment hdr (read_phdr m (table + 32 * word_of_nat i)) m x = m x"
      using image by (simp add: entry_def)
  qed
  have "entries_ok hdr table {Suc i..<Suc i + n} ?m"
    using Suc.prems same by (simp add: entries_ok_def)
  note IH = Suc.IH [OF this]
  have t: "load_segments hdr table i (Suc n) m = ?t" by (simp add: entry_def)
  show ?case unfolding t
  proof (intro conjI ballI allI impI)
    fix j assume j: "j \<in> {i..<i + Suc n}"
    show "loaded hdr (entry m table j) m ?t"
    proof (cases "j = i")
      case True
      have "?t x = ?m x" if x: "x \<in> target (entry m table i)" for x
      proof -
        have "x \<notin> target (entry ?m table j)" if j: "j \<in> {Suc i..<Suc i + n}" for j
        proof -
          have "i \<in> {i..<i + Suc n}" "j \<in> {i..<i + Suc n}" "i \<noteq> j" using j by auto
          then have "target (entry m table i) \<inter> target (entry m table j) = {}"
            using Suc.prems unfolding entries_ok_def by blast
          with x same [OF j] show ?thesis by auto
        qed
        with IH show ?thesis by blast
      qed
      then show ?thesis using loaded_cong [OF oki _ _ load_segment_loaded [OF oki]] True by simp
    next
      case False
      then have j': "j \<in> {Suc i..<Suc i + n}" using j by auto
      have "segment_ok hdr (entry m table j)" using j Suc.prems by (simp add: entries_ok_def)
      moreover have "loaded hdr (entry ?m table j) ?m ?t" using IH j' by blast
      then have "loaded hdr (entry m table j) ?m ?t" by (simp only: same [OF j'])
      ultimately show ?thesis using loaded_cong [of hdr "entry m table j" ?m m ?t ?t] image by blast
    qed
  next
    fix x assume x: "\<forall>j \<in> {i..<i + Suc n}. x \<notin> target (entry m table j)"
    then have "?t x = ?m x" using IH same by auto
    also have "?m x = m x" using x by (intro load_segment_outside [OF oki]) auto
    finally show "?t x = m x" .
  qed
qed simp

section \<open>Sectors\<close>

text \<open>The status the disk gives after a history of port accesses says that it is not busy and is ready.\<close>

definition disk_ready :: "'a machine_scheme \<Rightarrow> port_op list \<Rightarrow> bool" where
  "disk_ready s tr \<longleftrightarrow> (ucast (dev s tr (In8 0x1F7)) :: u8) AND 0xC0 = 0x40"

lemma waitdisk_step:
  "waitdisk s =
     (let t = s\<lparr>trace := In8 0x1F7 # trace s\<rparr> in if disk_ready s (trace s) then Some t else waitdisk t)"
  by (subst waitdisk.simps) (simp add: inb_def disk_ready_def Let_def)

text \<open>\<open>waitdisk\<close> returns once the disk is ready, and the last status it has read is the first that says so.\<close>

lemma waitdisk_returns:
  "disk_ready s (replicate n (In8 0x1F7) @ trace s) \<Longrightarrow>
     \<exists>j. waitdisk s = Some (s\<lparr>trace := In8 0x1F7 # replicate j (In8 0x1F7) @ trace s\<rparr>) \<and>
       disk_ready s (replicate j (In8 0x1F7) @ trace s)"
proof (induction n arbitrary: s)
  case 0
  then show ?case by (subst waitdisk_step) (auto simp: Let_def intro!: exI [of _ 0])
next
  case (Suc n)
  let ?t = "s\<lparr>trace := In8 0x1F7 # trace s\<rparr>"
  have dev: "disk_ready ?t = disk_ready s" by (simp add: disk_ready_def fun_eq_iff)
  show ?case
  proof (cases "disk_ready s (trace s)")
    case True
    then show ?thesis by (subst waitdisk_step) (auto simp: Let_def intro!: exI [of _ 0])
  next
    case False
    obtain j where "waitdisk ?t = Some (?t\<lparr>trace := In8 0x1F7 # replicate j (In8 0x1F7) @ trace ?t\<rparr>)"
      "disk_ready s (replicate j (In8 0x1F7) @ trace ?t)"
      using Suc.IH [of ?t] Suc.prems by (auto simp: replicate_app_Cons_same dev)
    then show ?thesis using False
      by (subst waitdisk_step) (auto simp: Let_def replicate_app_Cons_same intro!: exI [of _ "Suc j"])
  qed
qed

text \<open>A disk with the contents \<open>D\<close>. It becomes ready again and again. When it has said that it is ready, is
  then given the command for a sector, and the last status read since says that the command is done (the
  disk is not busy and is ready), it delivers the sector's words in turn. What the data port gives
  while the disk is busy, or when nobody has looked, is left open, and so is what happens to a command that is sent without
  looking.\<close>

definition command_ops :: "u32 \<Rightarrow> port_op list" where
  "command_ops lba = [Out8 0x1F7 0x20, Out8 0x1F6 (ucast (drop_bit 24 lba OR 0xE0)), Out8 0x1F5 (ucast (drop_bit 16 lba)),
     Out8 0x1F4 (ucast (drop_bit 8 lba)), Out8 0x1F3 (ucast lba), Out8 0x1F2 1]"

definition sector_read :: "u32 \<Rightarrow> nat \<Rightarrow> port_op list \<Rightarrow> port_op list" where
  "sector_read lba j tr = replicate j (In8 0x1F7) @ command_ops lba @ In8 0x1F7 # tr"

definition disk :: "(nat \<Rightarrow> u8) \<Rightarrow> 'a machine_scheme \<Rightarrow> bool" where
  "disk D s \<longleftrightarrow>
     (\<forall>tr. \<exists>n. disk_ready s (replicate n (In8 0x1F7) @ tr)) \<and>
     (\<forall>tr lba j. disk_ready s tr \<longrightarrow> disk_ready s (sector_read lba j tr) \<longrightarrow> unat lba < 268435456 \<longrightarrow>
        (\<forall>k<128. \<forall>b<4. ucast (drop_bit (8 * b)
            (dev s (replicate k (In32 0x1F0) @ In8 0x1F7 # sector_read lba j tr) (In32 0x1F0))) =
          D (512 * unat lba + 4 * k + b)))"

lemma st32_byte: "b < 4 \<Longrightarrow> st32 m a v (a + of_nat b) = ucast (drop_bit (8 * b) v)"
proof -
  assume "b < 4"
  then consider "b = 0" | "b = 1" | "b = 2" | "b = 3" by linarith
  then show ?thesis by cases (simp_all add: st32_def)
qed

lemma insl_spec:
  fixes s :: "'a machine_scheme"
  assumes "trace s = replicate k (In32 0x1F0) @ T"
    and "\<And>i b. k \<le> i \<Longrightarrow> i < k + n \<Longrightarrow> b < 4 \<Longrightarrow>
      ucast (drop_bit (8 * b) (dev s (replicate i (In32 0x1F0) @ T) (In32 0x1F0))) = (E (4 * i + b) :: u8)"
    and "unat a + 4 * n \<le> 4294967296"
  shows "\<exists>m. insl 0x1F0 a n s = s\<lparr>mem := m, trace := replicate (k + n) (In32 0x1F0) @ T\<rparr> \<and>
    (\<forall>x<4 * n. m (a + of_nat x) = E (4 * k + x)) \<and> (\<forall>x. x \<notin> region a (4 * n) \<longrightarrow> m x = mem s x)"
  using assms
proof (induction n arbitrary: a k s)
  case 0
  then show ?case by (intro exI [of _ "mem s"]) simp
next
  case (Suc n)
  define v where "v = dev s (trace s) (In32 0x1F0)"
  let ?s = "s\<lparr>mem := st32 (mem s) a v, trace := In32 0x1F0 # trace s\<rparr>"
  have step: "insl 0x1F0 a (Suc n) s = insl 0x1F0 (a + 4) n ?s"
    by (cases s) (simp add: indw_def store32_def v_def)
  show ?case
  proof (cases "n = 0")
    case True
    have "m (a + of_nat x) = E (4 * k + x)" if "x < 4" "m = st32 (mem s) a v" for x m
      using that st32_byte [OF that(1), of "mem s" a v] Suc.prems(2) [of k x] Suc.prems(1) by (simp add: v_def)
    then show ?thesis unfolding step using True Suc.prems(1) s32.st_frame
      by (intro exI [of _ "st32 (mem s) a v"]) auto
  next
    case False
    have a4: "unat (a + 4) = unat a + 4" using unat_add_of_nat [of a 4] Suc.prems(3) False by simp
    obtain m where m: "insl 0x1F0 (a + 4) n ?s = ?s\<lparr>mem := m, trace := replicate (Suc k + n) (In32 0x1F0) @ T\<rparr>"
      "\<forall>x<4 * n. m (a + 4 + of_nat x) = E (4 * Suc k + x)" "\<forall>x. x \<notin> region (a + 4) (4 * n) \<longrightarrow> m x = mem ?s x"
      using Suc.IH [of ?s "Suc k" "a + 4"] Suc.prems a4 by auto
    have "m (a + of_nat x) = E (4 * k + x)" if x: "x < 4 * Suc n" for x
    proof (cases "x < 4")
      case True
      have "unat (a + of_nat x) = unat a + x" using True Suc.prems(3) by (intro unat_add_of_nat) simp
      then have "a + of_nat x \<notin> region (a + 4) (4 * n)"
        using True a4 Suc.prems(3) by (simp add: region_iff)
      then have "m (a + of_nat x) = st32 (mem s) a v (a + of_nat x)" using m(3) by simp
      then show ?thesis
        using st32_byte [OF True, of "mem s" a v] Suc.prems(2) [of k x] Suc.prems(1) True by (simp add: v_def)
    next
      case False
      then obtain y where y: "x = 4 + y" by (metis le_Suc_ex not_less)
      then have "a + of_nat x = a + 4 + of_nat y" by simp
      then show ?thesis using m(2) x y by (simp add: algebra_simps)
    qed
    moreover have "m x = mem s x" if x: "x \<notin> region a (4 * Suc n)" for x
    proof -
      have "region a 4 \<subseteq> region a (4 * Suc n)" by (rule region_mono) simp
      moreover have "region (a + of_nat 4) (4 * n) \<subseteq> region a (4 * Suc n)"
        by (rule region_inside) (use Suc.prems(3) in simp_all)
      ultimately have "x \<notin> region a 4" "x \<notin> region (a + 4) (4 * n)" using x by auto
      then show ?thesis using m(3) by (simp add: s32.st_frame)
    qed
    ultimately show ?thesis unfolding step m(1) by (intro exI [of _ m]) simp
  qed
qed

lemma read_sector_reads:
  assumes "disk D s" "unat lba < 268435456" "unat a + 512 \<le> 4294967296"
  shows "\<exists>m tr. read_sector lba a s = Some (s\<lparr>mem := m, trace := tr\<rparr>) \<and>
    (\<forall>x<512. m (a + of_nat x) = D (512 * unat lba + x)) \<and> (\<forall>x. x \<notin> region a 512 \<longrightarrow> m x = mem s x)"
proof -
  have wait: "\<exists>j. waitdisk (s\<lparr>trace := tr\<rparr>) = Some (s\<lparr>trace := In8 0x1F7 # replicate j (In8 0x1F7) @ tr\<rparr>) \<and>
      disk_ready s (replicate j (In8 0x1F7) @ tr)" for tr
  proof -
    obtain n where "disk_ready s (replicate n (In8 0x1F7) @ tr)" using assms(1) unfolding disk_def by blast
    then show ?thesis using waitdisk_returns [of "s\<lparr>trace := tr\<rparr>" n] by (simp add: disk_ready_def)
  qed
  obtain i where i: "waitdisk s = Some (s\<lparr>trace := In8 0x1F7 # replicate i (In8 0x1F7) @ trace s\<rparr>)"
    "disk_ready s (replicate i (In8 0x1F7) @ trace s)" using wait [of "trace s"] by auto
  define tr where "tr = replicate i (In8 0x1F7) @ trace s"
  obtain j where j: "waitdisk (s\<lparr>trace := sector_read lba 0 tr\<rparr>) = Some (s\<lparr>trace := In8 0x1F7 # sector_read lba j tr\<rparr>)"
    "disk_ready s (sector_read lba j tr)" using wait [of "sector_read lba 0 tr"] by (auto simp: sector_read_def)
  have c: "read_command lba (s\<lparr>trace := In8 0x1F7 # tr\<rparr>) = s\<lparr>trace := sector_read lba 0 tr\<rparr>"
    by (simp add: read_command_def outb_def command_ops_def sector_read_def Let_def)
  let ?d = "s\<lparr>trace := In8 0x1F7 # sector_read lba j tr\<rparr>"
  have "\<exists>m. insl 0x1F0 a 128 ?d = ?d\<lparr>mem := m, trace := replicate (0 + 128) (In32 0x1F0) @ trace ?d\<rparr> \<and>
    (\<forall>x<4 * 128. m (a + of_nat x) = D (512 * unat lba + (4 * 0 + x))) \<and> (\<forall>x. x \<notin> region a (4 * 128) \<longrightarrow> m x = mem ?d x)"
    by (rule insl_spec [where E = "\<lambda>x. D (512 * unat lba + x)" and T = "trace ?d"])
      (use assms i(2) j(2) in \<open>auto simp: disk_def add.assoc tr_def\<close>)
  then obtain m where "insl 0x1F0 a 128 ?d = ?d\<lparr>mem := m, trace := replicate (0 + 128) (In32 0x1F0) @ trace ?d\<rparr>"
    "\<forall>x<512. m (a + of_nat x) = D (512 * unat lba + x)" "\<forall>x. x \<notin> region a 512 \<longrightarrow> m x = mem s x" by auto
  moreover have "read_sector lba a s = Some (insl 0x1F0 a 128 ?d)"
    by (simp add: read_sector_def i(1) c j(1) flip: tr_def)
  ultimately show ?thesis by (intro exI [of _ m] exI [of _ "replicate (0 + 128) (In32 0x1F0) @ trace ?d"]) simp
qed

lemma disk_dev: "dev t = dev s \<Longrightarrow> disk D t = disk D s"
  by (simp add: disk_def disk_ready_def)

lemma read_sectors:
  "disk D s \<Longrightarrow> unat L + k + n \<le> 268435456 \<Longrightarrow> k + n \<le> 128 \<Longrightarrow>
     \<exists>m tr. each (\<lambda>i. read_sector (L + of_nat i) (0xA000 + of_nat i * 512)) [k..<k + n] s = Some (s\<lparr>mem := m, trace := tr\<rparr>) \<and>
       (\<forall>x<512 * n. m (0xA000 + of_nat (512 * k) + of_nat x) = D (512 * (unat L + k) + x)) \<and>
       (\<forall>x. x \<notin> region (0xA000 + of_nat (512 * k)) (512 * n) \<longrightarrow> m x = mem s x)"
proof (induction n arbitrary: k s)
  case 0
  then show ?case by (intro exI [of _ "mem s"] exI [of _ "trace s"]) simp
next
  case (Suc n)
  let ?a = "0xA000 + of_nat (512 * k) :: u32"
  have a: "unat ?a = 0xA000 + 512 * k" using Suc.prems(3) by (subst unat_add_of_nat) simp_all
  have L: "unat (L + of_nat k) = unat L + k" using Suc.prems(2) by (intro unat_add_of_nat) simp
  obtain m tr where m: "read_sector (L + of_nat k) ?a s = Some (s\<lparr>mem := m, trace := tr\<rparr>)"
    "\<forall>x<512. m (?a + of_nat x) = D (512 * (unat L + k) + x)" "\<forall>x. x \<notin> region ?a 512 \<longrightarrow> m x = mem s x"
    using read_sector_reads [of D s "L + of_nat k" ?a] Suc.prems a L by auto
  let ?s = "s\<lparr>mem := m, trace := tr\<rparr>" and ?b = "0xA000 + of_nat (512 * Suc k) :: u32"
  have b: "unat ?b = 0xA000 + 512 * Suc k" using Suc.prems(3) by (subst unat_add_of_nat) simp_all
  have "disk D ?s" using Suc.prems(1) disk_dev [of ?s s D] by simp
  with Suc.IH [of ?s "Suc k"] Suc.prems(2,3) obtain m' tr' where
    m': "each (\<lambda>i. read_sector (L + of_nat i) (0xA000 + of_nat i * 512)) [Suc k..<Suc k + n] ?s =
        Some (?s\<lparr>mem := m', trace := tr'\<rparr>)"
    "\<forall>x<512 * n. m' (?b + of_nat x) = D (512 * (unat L + Suc k) + x)"
    "\<forall>x. x \<notin> region ?b (512 * n) \<longrightarrow> m' x = m x" by auto
  have e: "each (\<lambda>i. read_sector (L + of_nat i) (0xA000 + of_nat i * 512)) [k..<k + Suc n] s =
      Some (s\<lparr>mem := m', trace := tr'\<rparr>)"
    using m(1) m'(1) by (simp add: upt_conv_Cons mult.commute [of _ 512] del: upt_Suc)
  have "m' (?a + of_nat x) = D (512 * (unat L + k) + x)" if x: "x < 512 * Suc n" for x
  proof (cases "x < 512")
    case True
    have "unat (?a + of_nat x) = unat ?a + x" using True a Suc.prems(3) by (intro unat_add_of_nat) simp
    then have "?a + of_nat x \<notin> region ?b (512 * n)" using True a b Suc.prems(3) by (simp add: region_iff)
    then show ?thesis using m(2) m'(3) True by simp
  next
    case False
    then obtain y where y: "x = 512 + y" by (metis le_Suc_ex not_less)
    then have e: "?a + of_nat x = ?b + of_nat y" "512 * (unat L + k) + x = 512 * (unat L + Suc k) + y"
      by (simp_all add: algebra_simps)
    have "y < 512 * n" using x y by simp
    then show ?thesis unfolding e using m'(2) by blast
  qed
  moreover have "m' x = mem s x" if x: "x \<notin> region ?a (512 * Suc n)" for x
  proof -
    have "x \<notin> region ?a 512" "x \<notin> region ?b (512 * n)" using x a b Suc.prems(3) by (auto simp: region_iff)
    then show ?thesis using m(3) m'(3) by simp
  qed
  ultimately show ?case using e by (intro exI [of _ m'] exI [of _ tr']) blast
qed

section \<open>The scan leaves the hardware alone\<close>

lemma stage2_dev [simp]:
  "dev (stage2_putc c s) = dev s" "dev (stage2_puts cs s) = dev s"
proof -
  show putc: "dev (stage2_putc c s) = dev s" for c s by (simp add: stage2_putc_def store16_def Let_def)
  show "dev (stage2_puts cs s) = dev s" by (induction cs arbitrary: s) (simp_all add: putc)
qed

lemma read_word_dev [simp]: "dev (snd (pci_config_read_word b d f k s)) = dev s"
  by (simp add: pci_config_read_word_def outdw_def indw_def Let_def)

lemma stage2_get_dev [simp]:
  "dev (snd (stage2_get_vendorID b d f s)) = dev s" "dev (snd (stage2_get_header_type b d f s)) = dev s"
  "dev (snd (stage2_get_base_class b d f s)) = dev s" "dev (snd (stage2_get_sub_class b d f s)) = dev s"
  "dev (snd (stage2_get_progif b d f s)) = dev s"
  by (simp_all add: stage2_get_vendorID_def stage2_get_header_type_def stage2_get_base_class_def
      stage2_get_sub_class_def stage2_get_progif_def snd_map_prod)

lemma stage2_add_uhci_dev [simp]: "dev (stage2_add_uhci b d f s) = dev s"
  by (simp add: stage2_add_uhci_def pci_config_read_eq inw_def outw_def outdw_def Let_def)

lemma stage2_check_function_dev [simp]: "dev (stage2_check_function b d f s) = dev s"
  by (simp add: stage2_check_function_def case_prod_beta Let_def)

lemma stage2_check_further_dev [simp]: "dev (stage2_check_further b d f s) = dev s"
  by (simp add: stage2_check_further_def case_prod_beta Let_def)

lemma fold_dev: "(\<And>x s. dev (f x s) = dev s) \<Longrightarrow> dev (fold f xs s) = dev s"
  by (induction xs arbitrary: s) simp_all

lemma stage2_check_device_dev [simp]: "dev (stage2_check_device b d s) = dev s"
  by (simp add: stage2_check_device_def case_prod_beta Let_def fold_dev)

lemma stage2_scan_dev [simp]: "dev (stage2_check_all_buses s) = dev s"
  by (simp add: stage2_check_all_buses_def fold_dev)

section \<open>The whole loader\<close>

text \<open>The buffer once the sectors from \<open>L\<close> on are in it.\<close>

definition file_image :: "(nat \<Rightarrow> u8) \<Rightarrow> nat \<Rightarrow> mem" where
  "file_image D L x = D (512 * L + unat (x - 0xA000))"

lemma buffer_filled:
  assumes "disk D s" "unat L + 128 \<le> 268435456"
  shows "\<exists>m tr. each (\<lambda>i. read_sector (L + of_nat i) (0xA000 + of_nat i * 512)) [0..<KERNEL_SECS_TO_LOAD]
      (stage2_check_all_buses s) = Some ((stage2_check_all_buses s)\<lparr>mem := m, trace := tr\<rparr>) \<and>
    (\<forall>x \<in> region 0xA000 65536. m x = file_image D (unat L) x) \<and>
    (\<forall>x. x \<notin> region 0xA000 65536 \<longrightarrow> m x = mem (stage2_check_all_buses s) x)"
proof -
  let ?s = "stage2_check_all_buses s"
  have "disk D ?s" using assms(1) disk_dev [of ?s s D] by simp
  from read_sectors [OF this, of L 0 128] assms(2) obtain m tr where
    m: "each (\<lambda>i. read_sector (L + of_nat i) (0xA000 + of_nat i * 512)) [0..<0 + 128] ?s = Some (?s\<lparr>mem := m, trace := tr\<rparr>)"
    "\<forall>x<512 * 128. m (0xA000 + of_nat (512 * 0) + of_nat x) = D (512 * (unat L + 0) + x)"
    "\<forall>x. x \<notin> region (0xA000 + of_nat (512 * 0)) (512 * 128) \<longrightarrow> m x = mem ?s x" by auto
  have "m x = file_image D (unat L) x" if "x \<in> region 0xA000 65536" for x
  proof -
    have "unat (x - 0xA000) < 65536" using that by (simp add: region_def)
    with m(2) [rule_format, of "unat (x - 0xA000)"] show ?thesis by (simp add: file_image_def)
  qed
  with m(1,3) show ?thesis by (intro exI [of _ m] exI [of _ tr]) (simp add: KERNEL_SECS_TO_LOAD_def)
qed

lemma header_fields_cong:
  assumes "\<And>x. x \<in> region 0xA000 65536 \<Longrightarrow> m x = m0 x"
  shows "e_phoff (read_ehdr m 0xA000) = e_phoff (read_ehdr m0 0xA000)" "e_phnum (read_ehdr m 0xA000) = e_phnum (read_ehdr m0 0xA000)" "m 0xA000 = m0 0xA000"
proof -
  have "region (0xA000 + of_nat 28) 4 \<subseteq> region 0xA000 65536" "region (0xA000 + of_nat 44) 2 \<subseteq> region 0xA000 65536"
    by (rule region_inside, simp, simp)+
  then show "e_phoff (read_ehdr m 0xA000) = e_phoff (read_ehdr m0 0xA000)" "e_phnum (read_ehdr m 0xA000) = e_phnum (read_ehdr m0 0xA000)"
    unfolding read_ehdr_fields using assms by (intro s32.ld_cong s16.ld_cong; auto)+
  show "m 0xA000 = m0 0xA000" by (rule assms) (simp add: region_self)
qed

lemma parse_ELF_memory:
  fixes D :: "nat \<Rightarrow> u8" and a :: u32
  defines "m0 \<equiv> file_image D (unat (a div 512))"
  defines "table \<equiv> 0xA000 + e_phoff (read_ehdr m0 0xA000)" and "n \<equiv> unat (e_phnum (read_ehdr m0 0xA000))"
  assumes "disk D s" and "D (512 * unat (a div 512)) = 0x7F" and "unat (a div 512) + 128 \<le> 268435456"
    and "entries_ok 0xA000 table {0..<n} m0"
  shows "\<exists>t. parse_ELF a s = Some t \<and>
    (\<forall>j<n. loaded 0xA000 (entry m0 table j) m0 (mem t)) \<and>
    (\<forall>x. x \<notin> region 0xA000 65536 \<longrightarrow> (\<forall>j<n. x \<notin> target (entry m0 table j)) \<longrightarrow>
       mem t x = mem (stage2_check_all_buses s) x)"
proof -
  let ?s = "stage2_check_all_buses s"
  obtain m tr where m: "each (\<lambda>i. read_sector (a div 512 + of_nat i) (0xA000 + of_nat i * 512)) [0..<KERNEL_SECS_TO_LOAD] ?s =
      Some (?s\<lparr>mem := m, trace := tr\<rparr>)"
    and m2: "\<forall>x \<in> region 0xA000 65536. m x = m0 x" and m3: "\<forall>x. x \<notin> region 0xA000 65536 \<longrightarrow> m x = mem ?s x"
    using buffer_filled [OF assms(4,6)] unfolding m0_def by blast
  have hdr: "e_phoff (read_ehdr m 0xA000) = e_phoff (read_ehdr m0 0xA000)" "e_phnum (read_ehdr m 0xA000) = e_phnum (read_ehdr m0 0xA000)" "m 0xA000 = m0 0xA000"
    using header_fields_cong [of m m0] m2 by blast+
  have magic: "m 0xA000 = 0x7F" unfolding hdr(3) using assms(5) by (simp add: m0_def file_image_def)
  let ?t = "load_segments 0xA000 table 0 n m"
  have parse: "parse_ELF a s = Some (?s\<lparr>mem := ?t, trace := tr\<rparr>)"
    using m magic hdr(1,2) by (cases ?s) (simp add: parse_ELF_def Let_def table_def n_def)
  have same: "entry m table j = entry m0 table j" if "j < n" for j
  proof -
    have "region (table + 32 * of_nat j) 32 \<subseteq> region 0xA000 65536"
      using that assms(7) by (simp add: entries_ok_def)
    then show ?thesis unfolding entry_def by (intro read_phdr_cong) (use m2 in blast)
  qed
  then have "entries_ok 0xA000 table {0..<0 + n} m" using assms(7) by (simp add: entries_ok_def)
  note spec = load_segments_spec [OF this]
  have "loaded 0xA000 (entry m0 table j) m0 ?t" if "j < n" for j
  proof (rule loaded_cong [where mid = m])
    show "segment_ok 0xA000 (entry m0 table j)" using that assms(7) by (simp add: entries_ok_def)
    have "loaded 0xA000 (entry m table j) m ?t" using spec that by auto
    then show "loaded 0xA000 (entry m0 table j) m ?t" by (simp only: same [OF that])
  qed (use m2 in auto)
  moreover have "?t x = mem ?s x" if "x \<notin> region 0xA000 65536" "\<forall>j<n. x \<notin> target (entry m0 table j)" for x
    using spec that same m3 by auto
  ultimately show ?thesis unfolding parse by auto
qed

section \<open>Properties\<close>

text \<open>C3. From a disk on which an ELF file starts at a sector, and which is only known to deliver a sector after it was found ready,
  got the command, and was found ready again, whose program headers describe segments inside
  the first 64 KB of the file that go to disjoint places outside the buffer, the loader returns; the
  bytes of every segment that is not null are at their physical address, followed by zeros up to its
  size in memory, and all other memory outside the buffer is as the scan of the buses left it.\<close>

theorem parse_ELF_loads:
  fixes D :: "nat \<Rightarrow> u8" and a :: u32
  defines "m0 \<equiv> file_image D (unat (a div 512))"
  defines "table \<equiv> 0xA000 + e_phoff (read_ehdr m0 0xA000)" and "n \<equiv> unat (e_phnum (read_ehdr m0 0xA000))"
  assumes "disk D s" and "D (512 * unat (a div 512)) = 0x7F" and "unat (a div 512) + 128 \<le> 268435456"
    and "entries_ok 0xA000 table {0..<n} m0"
  shows "\<exists>t. parse_ELF a s = Some t \<and>
    (\<forall>j<n. loaded 0xA000 (entry m0 table j) m0 (mem t)) \<and>
    (\<forall>x. x \<notin> region 0xA000 65536 \<longrightarrow> (\<forall>j<n. x \<notin> target (entry m0 table j)) \<longrightarrow>
       mem t x = mem (stage2_check_all_buses s) x)"
  using parse_ELF_memory [OF assms(4-6)] assms(7) unfolding m0_def table_def n_def by blast

text \<open>Without the first byte of the ELF magic nothing is loaded: the loader prints the byte it found
  and returns, with the sectors in the buffer.\<close>

lemma parse_ELF_rejects:
  assumes "disk D s" and "D (512 * unat (a div 512)) \<noteq> 0x7F" and "unat (a div 512) + 128 \<le> 268435456"
  shows "\<exists>u. parse_ELF a s =
      Some (stage2_puth (ucast (D (512 * unat (a div 512)))) (stage2_puts (str ''Incorrect MAG0 '') u)) \<and>
    (\<forall>x. x \<notin> region 0xA000 65536 \<longrightarrow> mem u x = mem (stage2_check_all_buses s) x)"
proof -
  let ?s = "stage2_check_all_buses s"
  obtain m tr where m: "each (\<lambda>i. read_sector (a div 512 + of_nat i) (0xA000 + of_nat i * 512)) [0..<KERNEL_SECS_TO_LOAD] ?s =
      Some (?s\<lparr>mem := m, trace := tr\<rparr>)"
    "\<forall>x \<in> region 0xA000 65536. m x = file_image D (unat (a div 512)) x"
    "\<forall>x. x \<notin> region 0xA000 65536 \<longrightarrow> m x = mem ?s x"
    using buffer_filled [OF assms(1,3)] by blast
  have "m 0xA000 = D (512 * unat (a div 512))"
    using m(2) by (simp add: region_self file_image_def)
  then have "parse_ELF a s = Some (stage2_puth (ucast (D (512 * unat (a div 512))))
      (stage2_puts (str ''Incorrect MAG0 '') (?s\<lparr>mem := m, trace := tr\<rparr>)))"
    using m(1) assms(2) by (simp add: parse_ELF_def Let_def)
  with m(3) show ?thesis by (intro exI [of _ "?s\<lparr>mem := m, trace := tr\<rparr>"]) simp
qed

section \<open>Witnesses\<close>

text \<open>A machine with a disk that has the same 512 bytes in every sector, is busy until its status has been
  read once after a command, and gives no data before that.\<close>

definition demo_word :: "(nat \<Rightarrow> u8) \<Rightarrow> nat \<Rightarrow> u32" where
  "demo_word d n = ucast (d n) OR push_bit 8 (ucast (d (n + 1))) OR push_bit 16 (ucast (d (n + 2))) OR
     push_bit 24 (ucast (d (n + 3)))"

definition demo_disk :: "(nat \<Rightarrow> u8) \<Rightarrow> stage2" where
  "demo_disk d = \<lparr>mem = \<lambda>_. 0, dev = \<lambda>tr x.
     (case x of
        In8 p \<Rightarrow> if p = 0x1F7 then (case tr of Out8 _ _ # _ \<Rightarrow> 0xD0 | _ \<Rightarrow> 0x50)
          else 0xFFFFFFFF
      | In32 p \<Rightarrow>
          (case dropWhile (\<lambda>y. y = In32 0x1F0) tr of
             In8 p' # Out8 _ _ # _ \<Rightarrow> 0xFFFFFFFF
           | In8 p' # _ \<Rightarrow> if p = 0x1F0 \<and> p' = 0x1F7 then demo_word d (4 * length (takeWhile (\<lambda>y. y = In32 0x1F0) tr)) else 0xFFFFFFFF
           | _ \<Rightarrow> 0xFFFFFFFF)
      | _ \<Rightarrow> 0xFFFFFFFF),
     trace = [], cursor_ptr = 0xB8000, s2_bus0 = 0, s2_device0 = 0, s2_function0 = 0, s2_io_base0 = 0,
     s2_fl_base0 = 0\<rparr>"

text \<open>One program header: four bytes 7 and four zeros at 0x20000.\<close>

definition demo_file :: "nat \<Rightarrow> u8" where
  "demo_file n = (if n = 0 then 0x7F else if n = 28 then 52 else if n = 44 then 1 else if n = 52 then 1
     else if n = 56 then 96 else if n = 66 then 2 else if n = 68 then 4 else if n = 72 then 8
     else if 96 \<le> n \<and> n < 100 then 7 else 0)"

lemma demo_word_byte:
  assumes "b < 4"
  shows "ucast (drop_bit (8 * b) (demo_word d n)) = d (n + b)"
proof -
  consider "b = 0" | "b = 1" | "b = 2" | "b = 3" using assms by linarith
  then have "bit (drop_bit (8 * b) (demo_word d n)) i = bit (d (n + b)) i" if "i < 8" for i
    using that by cases (auto simp: demo_word_def bit_simps dest: bit_imp_le_length)
  then show ?thesis by (intro bit_word_eqI) (simp add: bit_simps)
qed

lemma demo_disk_ready: "disk_ready (demo_disk d) tr \<longleftrightarrow> \<not> (\<exists>p b T. tr = Out8 p b # T)"
  by (auto simp: disk_ready_def demo_disk_def split: list.splits port_op.splits)

lemma demo_disk_data:
  assumes "0 < j"
  shows "dev (demo_disk d) (replicate k (In32 0x1F0) @ In8 0x1F7 # sector_read lba j tr) (In32 0x1F0) = demo_word d (4 * k)"
proof -
  have "takeWhile (\<lambda>y. y = In32 0x1F0) (replicate k (In32 0x1F0) @ In8 0x1F7 # T) = replicate k (In32 0x1F0)"
    "dropWhile (\<lambda>y. y = In32 0x1F0) (replicate k (In32 0x1F0) @ In8 0x1F7 # T) = In8 0x1F7 # T" for T
    by (induction k) simp_all
  then show ?thesis using assms by (cases j) (simp_all add: demo_disk_def sector_read_def)
qed

lemma demo_disk_ok: "disk (\<lambda>n. d (n mod 512)) (demo_disk d)"
  unfolding disk_def
proof (intro conjI allI impI)
  fix tr :: "port_op list"
  show "\<exists>n. disk_ready (demo_disk d) (replicate n (In8 0x1F7) @ tr)"
    by (rule exI [of _ "Suc 0"]) (simp add: demo_disk_ready)
next
  fix tr and lba :: u32 and j k b :: nat
  assume "disk_ready (demo_disk d) (sector_read lba j tr)" and k: "k < 128" and b: "b < 4"
  then have "0 < j" by (cases j) (simp_all add: demo_disk_ready sector_read_def command_ops_def)
  note data = demo_disk_data [OF this]
  have "(512 * unat lba + 4 * k + b) mod 512 = 4 * k + b"
  proof -
    have "(512 * unat lba + (4 * k + b)) mod 512 = (4 * k + b) mod 512" by (rule mod_mult_self4)
    then show ?thesis using k b by (simp add: add.assoc)
  qed
  then show "ucast (drop_bit (8 * b) (dev (demo_disk d)
      (replicate k (In32 0x1F0) @ In8 0x1F7 # sector_read lba j tr) (In32 0x1F0))) =
      d ((512 * unat lba + 4 * k + b) mod 512)"
    using demo_word_byte [OF b] by (simp add: data)
qed

definition demo_image :: mem where
  "demo_image = file_image (\<lambda>n. demo_file (n mod 512)) (unat ((0 :: u32) div 512))"

definition demo_phdr :: phdr where
  "demo_phdr = \<lparr>p_type = 1, p_offset = 96, p_vaddr = 0, p_paddr = 0x20000, p_filesz = 4, p_memsz = 8, p_flags = 0, p_align = 0\<rparr>"

lemma demo_image_byte: "demo_image x = demo_file (unat (x - 0xA000) mod 512)"
  by (simp add: demo_image_def file_image_def)

lemma demo_image_headers:
  "e_phoff (read_ehdr demo_image 0xA000) = 52" "e_phnum (read_ehdr demo_image 0xA000) = 1"
  "entry demo_image (0xA000 + 52) 0 = demo_phdr"
  by (simp_all add: ld32_def ld16_def demo_image_byte demo_file_def entry_def read_phdr_def demo_phdr_def)

lemma demo_entries_ok: "entries_ok 0xA000 (0xA000 + 52) {0..<1} demo_image"
proof -
  have tg: "target (entry demo_image (0xA000 + 52) 0) = region 0x20000 8"
    unfolding demo_image_headers(3) by (simp add: target_def demo_phdr_def)
  have "region 0xA000 65536 \<inter> region 0x20000 8 = {}" by (rule region_disjoint) simp_all
  moreover have "region (0xA000 + of_nat 96) 4 \<subseteq> region 0xA000 65536" "region (0xA000 + of_nat 52) 32 \<subseteq> region 0xA000 65536"
    by (rule region_inside, simp, simp)+
  ultimately show ?thesis
    using tg demo_image_headers(3) by (auto simp: entries_ok_def segment_ok_def demo_phdr_def)
qed

lemma demo_loaded:
  assumes "loaded 0xA000 (entry demo_image (0xA000 + 52) 0) demo_image m"
  shows "m 0x20000 = 7" "m 0x20007 = 0"
proof -
  have "\<forall>k<4. m (0x20000 + of_nat k) = demo_image (0xA000 + 96 + of_nat k)"
    "\<forall>k. 4 \<le> k \<longrightarrow> k < 8 \<longrightarrow> m (0x20000 + of_nat k) = 0"
    using assms unfolding loaded_def demo_image_headers(3) by (simp_all add: demo_phdr_def)
  from this(1) [rule_format, of 0] this(2) [rule_format, of 7] show "m 0x20000 = 7" "m 0x20007 = 0"
    by (simp_all add: demo_image_byte demo_file_def)
qed

lemma parse_ELF_loads_witness:
  "\<exists>t. parse_ELF 0 (demo_disk demo_file) = Some t \<and> mem t 0x20000 = 7 \<and> mem t 0x20007 = 0"
proof -
  obtain t where "parse_ELF 0 (demo_disk demo_file) = Some t"
    "loaded 0xA000 (entry demo_image (0xA000 + 52) 0) demo_image (mem t)"
    using parse_ELF_loads [of "\<lambda>n. demo_file (n mod 512)" "demo_disk demo_file" 0, folded demo_image_def]
      demo_disk_ok [of demo_file] demo_image_headers(1,2) demo_entries_ok
    by (auto simp: demo_file_def)
  then show ?thesis using demo_loaded by blast
qed

end
