(* ===== verification/SecondStage.thy ===== *)
theory SecondStage
  imports ElfLoader
begin

text \<open>
  \<open>p_mode/stage2.asm\<close>, the entry of the second boot stage: it opens address line 20 through the keyboard
  controller, calls \<open>parse_ELF\<close> and jumps to the kernel. The two routines that wait for the controller
  may not return. \<open>cli\<close> has no effect here, since no interrupt is modelled before the kernel installs its
  descriptor table.
\<close>

section \<open>The code\<close>

partial_function (option) Wait_8042_command :: "'a machine_scheme \<Rightarrow> 'a machine_scheme option" where
  "Wait_8042_command s = (case inb 0x64 s of (al, s) \<Rightarrow> if al AND 2 \<noteq> 0 then Wait_8042_command s else Some s)"

partial_function (option) Wait_8042_data :: "'a machine_scheme \<Rightarrow> 'a machine_scheme option" where
  "Wait_8042_data s = (case inb 0x64 s of (al, s) \<Rightarrow> if al AND 1 = 0 then Wait_8042_data s else Some s)"

definition KERNEL_OFFSET :: u32 where "KERNEL_OFFSET = 0x20000"

text \<open>Line 20: disable the keyboard, read the output port, set its bit 1, write it, enable the keyboard.\<close>

definition enable_A20 :: "'a machine_scheme \<Rightarrow> 'a machine_scheme option" where
  "enable_A20 s =
     Option.bind (Wait_8042_command s) (\<lambda>s.
     Option.bind (Wait_8042_command (outb 0x64 0xAD s)) (\<lambda>s.
     Option.bind (Wait_8042_data (outb 0x64 0xD0 s)) (\<lambda>s.
       let (al, s) = inb 0x60 s in
     Option.bind (Wait_8042_command s) (\<lambda>s.
     Option.bind (Wait_8042_command (outb 0x64 0xD1 s)) (\<lambda>s.
     Option.bind (Wait_8042_command (outb 0x60 (al OR 2) s)) (\<lambda>s.
       Wait_8042_command (outb 0x64 0xAE s)))))))"

text \<open>The address jumped to, with the state of the machine.\<close>

definition stage2_main :: "u32 \<Rightarrow> 'a stage2_scheme \<Rightarrow> (u32 \<times> 'a stage2_scheme) option" where
  "stage2_main stage2_end s =
     Option.bind (enable_A20 s) (\<lambda>s. Option.bind (parse_ELF stage2_end s) (\<lambda>s. Some (KERNEL_OFFSET, s)))"

section \<open>Waiting\<close>

definition status :: "nat \<Rightarrow> 'a machine_scheme \<Rightarrow> u8" where
  "status n s = ucast (dev s (replicate n (In8 0x64) @ trace s) (In8 0x64))"

lemma status_Suc: "status n (s\<lparr>trace := In8 0x64 # trace s\<rparr>) = status (Suc n) s"
  by (simp add: status_def replicate_app_Cons_same)

lemma wait_steps:
  "Wait_8042_command s = (if status 0 s AND 2 \<noteq> 0 then Wait_8042_command (s\<lparr>trace := In8 0x64 # trace s\<rparr>)
     else Some (s\<lparr>trace := In8 0x64 # trace s\<rparr>))"
  "Wait_8042_data s = (if status 0 s AND 1 = 0 then Wait_8042_data (s\<lparr>trace := In8 0x64 # trace s\<rparr>)
     else Some (s\<lparr>trace := In8 0x64 # trace s\<rparr>))"
  by (subst Wait_8042_command.simps Wait_8042_data.simps, simp add: inb_def status_def)+

text \<open>A wait ends at the first reading that has the bit.\<close>

lemma first_reading:
  assumes "\<exists>n. P n"
  obtains n :: nat where "P n" "\<forall>k<n. \<not> P k"
  using assms exists_least_iff [of P] by auto

lemma wait_command_first:
  "status n s AND 2 = 0 \<Longrightarrow> \<forall>k<n. status k s AND 2 \<noteq> 0 \<Longrightarrow>
     Wait_8042_command s = Some (s\<lparr>trace := replicate (Suc n) (In8 0x64) @ trace s\<rparr>)"
proof (induction n arbitrary: s)
  case 0
  then show ?case by (subst wait_steps) simp
next
  case (Suc n)
  let ?s = "s\<lparr>trace := In8 0x64 # trace s\<rparr>"
  have "Wait_8042_command ?s = Some (?s\<lparr>trace := replicate (Suc n) (In8 0x64) @ trace ?s\<rparr>)"
    by (rule Suc.IH) (use Suc.prems in \<open>auto simp: status_Suc\<close>)
  moreover have "status 0 s AND 2 \<noteq> 0" using Suc.prems(2) by simp
  ultimately show ?case by (subst wait_steps) (simp add: replicate_app_Cons_same)
qed

lemma wait_data_first:
  "status n s AND 1 \<noteq> 0 \<Longrightarrow> \<forall>k<n. status k s AND 1 = 0 \<Longrightarrow>
     Wait_8042_data s = Some (s\<lparr>trace := replicate (Suc n) (In8 0x64) @ trace s\<rparr>)"
proof (induction n arbitrary: s)
  case 0
  then show ?case by (subst wait_steps) simp
next
  case (Suc n)
  let ?s = "s\<lparr>trace := In8 0x64 # trace s\<rparr>"
  have "Wait_8042_data ?s = Some (?s\<lparr>trace := replicate (Suc n) (In8 0x64) @ trace ?s\<rparr>)"
    by (rule Suc.IH) (use Suc.prems in \<open>auto simp: status_Suc\<close>)
  moreover have "status 0 s AND 1 = 0" using Suc.prems(2) by simp
  ultimately show ?case by (subst wait_steps) (simp add: replicate_app_Cons_same)
qed

section \<open>The keyboard controller\<close>

text \<open>What the controller has done with a history of port accesses (last access first), as its documentation
  describes it. \<open>st\<close> is the status it gives after a history. A byte written to its ports counts only when the last
  access was a reading of the status with bit 1 clear; a byte is on offer when it was one with bit 0 set.\<close>

definition taken :: "(port_op list \<Rightarrow> u8) \<Rightarrow> port_op list \<Rightarrow> bool" where
  "taken st tr \<longleftrightarrow> (case tr of In8 p # tr \<Rightarrow> p = 0x64 \<and> st tr AND 2 = 0 | _ \<Rightarrow> False)"

definition offered :: "(port_op list \<Rightarrow> u8) \<Rightarrow> port_op list \<Rightarrow> bool" where
  "offered st tr \<longleftrightarrow> (case tr of In8 p # tr \<Rightarrow> p = 0x64 \<and> st tr AND 1 \<noteq> 0 | _ \<Rightarrow> False)"

text \<open>The commands 0xAD and 0xAE disable and enable the keyboard.\<close>

fun keyboard_enabled :: "(port_op list \<Rightarrow> u8) \<Rightarrow> port_op list \<Rightarrow> bool" where
  "keyboard_enabled st [] = True"
| "keyboard_enabled st (Out8 p b # tr) =
     (if p = 0x64 \<and> taken st tr \<and> b = 0xAD then False else if p = 0x64 \<and> taken st tr \<and> b = 0xAE then True
      else keyboard_enabled st tr)"
| "keyboard_enabled st (_ # tr) = keyboard_enabled st tr"

text \<open>The byte in the output buffer is the output port: the command 0xD0 was the last one, it was given with the
  keyboard disabled and the buffer empty, and nothing was read since.\<close>

fun port_requested :: "(port_op list \<Rightarrow> u8) \<Rightarrow> port_op list \<Rightarrow> bool" where
  "port_requested st [] = False"
| "port_requested st (Out8 p b # tr) =
     (if p = 0x64 then taken st tr \<and> b = 0xD0 \<and> \<not> offered st tr \<and> \<not> keyboard_enabled st tr
      else p \<noteq> 0x60 \<and> port_requested st tr)"
| "port_requested st (In8 p # tr) = (p \<noteq> 0x60 \<and> port_requested st tr)"
| "port_requested st (_ # tr) = port_requested st tr"

text \<open>The next byte for port 0x60 goes to the output port: the command 0xD1 was the last one, and
  nothing was written to port 0x60 since.\<close>

fun port_addressed :: "(port_op list \<Rightarrow> u8) \<Rightarrow> port_op list \<Rightarrow> bool" where
  "port_addressed st [] = False"
| "port_addressed st (Out8 p b # tr) =
     (if p = 0x64 then taken st tr \<and> b = 0xD1 else p \<noteq> 0x60 \<and> port_addressed st tr)"
| "port_addressed st (_ # tr) = port_addressed st tr"

text \<open>The output port, whose bit 1 is line 20, when it was \<open>p\<close> at first.\<close>

fun output_port :: "(port_op list \<Rightarrow> u8) \<Rightarrow> u8 \<Rightarrow> port_op list \<Rightarrow> u8" where
  "output_port st p [] = p"
| "output_port st p (Out8 q b # tr) =
     (if q = 0x60 \<and> taken st tr \<and> port_addressed st tr then b else output_port st p tr)"
| "output_port st p (_ # tr) = output_port st p tr"

definition controller_status :: "'a machine_scheme \<Rightarrow> port_op list \<Rightarrow> u8" where
  "controller_status s tr = ucast (dev s tr (In8 0x64))"

text \<open>A controller that takes every byte in the end, and offers one after a command 0xD0 it has taken.\<close>

definition controller_answers :: "'a machine_scheme \<Rightarrow> bool" where
  "controller_answers s \<longleftrightarrow> (let st = controller_status s in
     (\<forall>tr. \<exists>n. st (replicate n (In8 0x64) @ tr) AND 2 = 0) \<and>
     (\<forall>tr. taken st tr \<longrightarrow> (\<exists>n. st (replicate n (In8 0x64) @ Out8 0x64 0xD0 # tr) AND 1 \<noteq> 0)))"

text \<open>The byte it offers for the command 0xD0 is the output port.\<close>

definition gives_output_port :: "u8 \<Rightarrow> 'a machine_scheme \<Rightarrow> bool" where
  "gives_output_port p s \<longleftrightarrow> (let st = controller_status s in
     \<forall>tr. port_requested st tr \<longrightarrow> offered st tr \<longrightarrow> ucast (dev s tr (In8 0x60)) = output_port st p tr)"

text \<open>No key waits in the output buffer when the keyboard has been disabled. (The code does not look: a key that waits there
  is taken for the output port.)\<close>

definition no_key_waits :: "'a machine_scheme \<Rightarrow> bool" where
  "no_key_waits s \<longleftrightarrow> (\<forall>n k. controller_status s
     (replicate n (In8 0x64) @ Out8 0x64 0xAD # replicate k (In8 0x64) @ trace s) AND 1 = 0)"

lemma status_controller: "status n (s\<lparr>trace := tr\<rparr>) = controller_status s (replicate n (In8 0x64) @ tr)"
  by (simp add: status_def controller_status_def)

text \<open>Each wait ends with a reading of the status that has what is waited for.\<close>

lemma wait_command_taken:
  assumes "controller_answers s"
  obtains n where "Wait_8042_command (s\<lparr>trace := tr\<rparr>) = Some (s\<lparr>trace := replicate (Suc n) (In8 0x64) @ tr\<rparr>)"
    and "taken (controller_status s) (replicate (Suc n) (In8 0x64) @ tr)"
proof -
  have "\<exists>n. status n (s\<lparr>trace := tr\<rparr>) AND 2 = 0"
    using assms unfolding controller_answers_def status_controller Let_def by blast
  then obtain n where n: "status n (s\<lparr>trace := tr\<rparr>) AND 2 = 0" "\<forall>i<n. status i (s\<lparr>trace := tr\<rparr>) AND 2 \<noteq> 0"
    by (elim first_reading) blast
  show thesis
    by (rule that [of n]) (use wait_command_first [OF n] n(1) in \<open>simp_all add: taken_def status_controller\<close>)
qed

lemma wait_data_offered:
  assumes "controller_answers s" "taken (controller_status s) tr"
  obtains n where "Wait_8042_data (s\<lparr>trace := Out8 0x64 0xD0 # tr\<rparr>) =
      Some (s\<lparr>trace := replicate (Suc n) (In8 0x64) @ Out8 0x64 0xD0 # tr\<rparr>)"
    and "offered (controller_status s) (replicate (Suc n) (In8 0x64) @ Out8 0x64 0xD0 # tr)"
proof -
  have "\<exists>n. status n (s\<lparr>trace := Out8 0x64 0xD0 # tr\<rparr>) AND 1 \<noteq> 0"
    using assms unfolding controller_answers_def status_controller Let_def by blast
  then obtain n where n: "status n (s\<lparr>trace := Out8 0x64 0xD0 # tr\<rparr>) AND 1 \<noteq> 0"
    "\<forall>i<n. \<not> status i (s\<lparr>trace := Out8 0x64 0xD0 # tr\<rparr>) AND 1 \<noteq> 0" by (elim first_reading) blast
  show thesis
    by (rule that [of n]) (use wait_data_first [OF n(1)] n in \<open>simp_all add: offered_def status_controller\<close>)
qed

text \<open>Reading the status changes nothing in the controller.\<close>

lemma status_reads [simp]:
  "keyboard_enabled st (replicate n (In8 0x64) @ tr) = keyboard_enabled st tr"
  "port_requested st (replicate n (In8 0x64) @ tr) = port_requested st tr"
  "port_addressed st (replicate n (In8 0x64) @ tr) = port_addressed st tr"
  "output_port st p (replicate n (In8 0x64) @ tr) = output_port st p tr"
  by (induction n) simp_all

text \<open>The bytes sent to a port, first to last.\<close>

definition sent :: "port_op list \<Rightarrow> (u16 \<times> u8) list" where
  "sent tr = rev (List.map_filter (\<lambda>x. case x of Out8 p b \<Rightarrow> Some (p, b) | _ \<Rightarrow> None) tr)"

lemma sent_simps [simp]:
  "sent [] = []" "sent (Out8 p b # tr) = sent tr @ [(p, b)]" "sent (In8 p # tr) = sent tr"
  "sent (replicate n (In8 p)) = []" "sent (tr @ tr') = sent tr' @ sent tr"
proof -
  show "sent (replicate n (In8 p)) = []" by (induction n) (simp_all add: sent_def map_filter_simps)
  show "sent (tr @ tr') = sent tr' @ sent tr" by (simp add: sent_def map_filter_def)
qed (simp_all add: sent_def map_filter_simps)

lemma enable_A20_spec:
  assumes "controller_answers s"
  shows "\<exists>tr b. enable_A20 s = Some (s\<lparr>trace := tr @ trace s\<rparr>) \<and>
    sent tr = [(0x64, 0xAD), (0x64, 0xD0), (0x64, 0xD1), (0x60, b OR 2), (0x64, 0xAE)] \<and>
    (\<forall>p. gives_output_port p s \<longrightarrow> no_key_waits s \<longrightarrow> (let st = controller_status s in
      b = output_port st p (trace s) \<and> output_port st p (tr @ trace s) = b OR 2 \<and> keyboard_enabled st (tr @ trace s)))"
proof -
  note w = wait_command_taken [OF assms]
  define st where "st = controller_status s"
  obtain n1 where 1: "Wait_8042_command (s\<lparr>trace := trace s\<rparr>) = Some (s\<lparr>trace := replicate (Suc n1) (In8 0x64) @ trace s\<rparr>)"
    "taken st (replicate (Suc n1) (In8 0x64) @ trace s)" unfolding st_def by (rule w)
  define t1 where "t1 = Out8 0x64 0xAD # replicate (Suc n1) (In8 0x64)"
  obtain n2 where 2: "Wait_8042_command (s\<lparr>trace := t1 @ trace s\<rparr>) = Some (s\<lparr>trace := replicate (Suc n2) (In8 0x64) @ t1 @ trace s\<rparr>)"
    "taken st (replicate (Suc n2) (In8 0x64) @ t1 @ trace s)" unfolding st_def by (rule w)
  define t2 where "t2 = Out8 0x64 0xD0 # replicate (Suc n2) (In8 0x64) @ t1"
  obtain n3 where 3: "Wait_8042_data (s\<lparr>trace := t2 @ trace s\<rparr>) = Some (s\<lparr>trace := replicate (Suc n3) (In8 0x64) @ t2 @ trace s\<rparr>)"
    "offered st (replicate (Suc n3) (In8 0x64) @ t2 @ trace s)"
    using wait_data_offered [OF assms 2(2) [unfolded st_def]] unfolding t2_def st_def append_Cons append_assoc by blast
  define b where "b = (ucast (dev s (replicate (Suc n3) (In8 0x64) @ t2 @ trace s) (In8 0x60)) :: u8)"
  define t3 where "t3 = In8 0x60 # replicate (Suc n3) (In8 0x64) @ t2"
  obtain n4 where 4: "Wait_8042_command (s\<lparr>trace := t3 @ trace s\<rparr>) = Some (s\<lparr>trace := replicate (Suc n4) (In8 0x64) @ t3 @ trace s\<rparr>)"
    "taken st (replicate (Suc n4) (In8 0x64) @ t3 @ trace s)" unfolding st_def by (rule w)
  define t4 where "t4 = Out8 0x64 0xD1 # replicate (Suc n4) (In8 0x64) @ t3"
  obtain n5 where 5: "Wait_8042_command (s\<lparr>trace := t4 @ trace s\<rparr>) = Some (s\<lparr>trace := replicate (Suc n5) (In8 0x64) @ t4 @ trace s\<rparr>)"
    "taken st (replicate (Suc n5) (In8 0x64) @ t4 @ trace s)" unfolding st_def by (rule w)
  define t5 where "t5 = Out8 0x60 (b OR 2) # replicate (Suc n5) (In8 0x64) @ t4"
  obtain n6 where 6: "Wait_8042_command (s\<lparr>trace := t5 @ trace s\<rparr>) = Some (s\<lparr>trace := replicate (Suc n6) (In8 0x64) @ t5 @ trace s\<rparr>)"
    "taken st (replicate (Suc n6) (In8 0x64) @ t5 @ trace s)" unfolding st_def by (rule w)
  define t6 where "t6 = Out8 0x64 0xAE # replicate (Suc n6) (In8 0x64) @ t5"
  obtain n7 where 7: "Wait_8042_command (s\<lparr>trace := t6 @ trace s\<rparr>) = Some (s\<lparr>trace := replicate (Suc n7) (In8 0x64) @ t6 @ trace s\<rparr>)"
    unfolding st_def by (rule w)
  define tr where "tr = replicate (Suc n7) (In8 0x64) @ t6"
  have run: "enable_A20 s = Some (s\<lparr>trace := tr @ trace s\<rparr>)"
    using 1(1) 2(1) 3(1) 4(1) 5(1) 6(1) 7
    by (simp add: enable_A20_def inb_def outb_def b_def Let_def tr_def t1_def t2_def t3_def t4_def t5_def t6_def)
  have sent: "sent tr = [(0x64, 0xAD), (0x64, 0xD0), (0x64, 0xD1), (0x60, b OR 2), (0x64, 0xAE)]"
    by (simp add: tr_def t1_def t2_def t3_def t4_def t5_def t6_def)
  have "b = output_port st p (trace s) \<and> output_port st p (tr @ trace s) = b OR 2 \<and> keyboard_enabled st (tr @ trace s)"
    if port: "gives_output_port p s" and quiet: "no_key_waits s" for p
  proof -
    have "st (replicate n2 (In8 0x64) @ t1 @ trace s) AND 1 = 0"
      using quiet unfolding no_key_waits_def t1_def st_def append_Cons by blast
    then have "\<not> offered st (replicate (Suc n2) (In8 0x64) @ t1 @ trace s)" by (simp add: offered_def)
    moreover have "\<not> keyboard_enabled st (t1 @ trace s)" using 1(2) by (simp add: t1_def)
    ultimately have req: "port_requested st (t2 @ trace s)" using 2(2) by (simp add: t2_def)
    have "b = output_port st p (replicate (Suc n3) (In8 0x64) @ t2 @ trace s)"
      using port req 3(2) status_reads(2) [of st "Suc n3" "t2 @ trace s"]
      unfolding gives_output_port_def b_def Let_def st_def by blast
    then have b: "b = output_port st p (trace s)" by (simp add: t1_def t2_def)
    have addr: "port_addressed st (t4 @ trace s)" using 4(2) by (simp add: t4_def)
    then have "output_port st p (t5 @ trace s) = b OR 2" using 5(2) by (simp add: t5_def)
    moreover have "keyboard_enabled st (t6 @ trace s)" using 6(2) by (simp add: t6_def)
    ultimately show ?thesis using b by (simp add: tr_def t6_def)
  qed
  then show ?thesis using run sent unfolding st_def Let_def by blast
qed

section \<open>Properties\<close>

text \<open>C4. The second boot stage starts the kernel. With a controller that answers, gives its output port for the
  command 0xD0, and holds no key, and with a disk with the kernel's file, the stage returns from all its waits and loops. It opens
  line 20: the output port of the controller has its bit 1 set afterwards and all other bits as before, and the keyboard is
  enabled again; the controller counts only bytes that were sent when it had said that it takes them. It
  loads the segments, and jumps to \<open>KERNEL_OFFSET\<close>; where the file has a segment for
  that address, the code there is the segment's.\<close>

theorem stage2_starts_kernel:
  fixes D :: "nat \<Rightarrow> u8" and a :: u32 and p :: u8 and s :: "'a stage2_scheme"
  defines "m0 \<equiv> file_image D (unat (a div 512))" and "port \<equiv> output_port (controller_status s) p"
  defines "table \<equiv> 0xA000 + e_phoff (read_ehdr m0 0xA000)" and "n \<equiv> unat (e_phnum (read_ehdr m0 0xA000))"
  assumes "controller_answers s" and "gives_output_port p s" and "no_key_waits s" and "disk D s"
    and "D (512 * unat (a div 512)) = 0x7F" and "unat (a div 512) + 128 \<le> 268435456"
    and "entries_ok 0xA000 table {0..<n} m0"
  shows "\<exists>tr t. stage2_main a s = Some (KERNEL_OFFSET, t) \<and>
    sent tr = [(0x64, 0xAD), (0x64, 0xD0), (0x64, 0xD1), (0x60, port (trace s) OR 2), (0x64, 0xAE)] \<and>
    port (tr @ trace s) = port (trace s) OR 2 \<and> keyboard_enabled (controller_status s) (tr @ trace s) \<and>
    (\<forall>j<n. loaded 0xA000 (entry m0 table j) m0 (mem t)) \<and>
    (\<forall>x. x \<notin> region 0xA000 65536 \<longrightarrow> (\<forall>j<n. x \<notin> target (entry m0 table j)) \<longrightarrow>
       mem t x = mem (stage2_check_all_buses (s\<lparr>trace := tr @ trace s\<rparr>)) x) \<and>
    (\<forall>j<n. let ph = entry m0 table j in p_type ph \<noteq> 0 \<and> p_paddr ph = KERNEL_OFFSET \<longrightarrow>
       (\<forall>k < unat (p_filesz ph). mem t (KERNEL_OFFSET + of_nat k) = D (512 * unat (a div 512) + unat (p_offset ph + of_nat k))))"
proof -
  obtain tr where A: "enable_A20 s = Some (s\<lparr>trace := tr @ trace s\<rparr>)"
    "sent tr = [(0x64, 0xAD), (0x64, 0xD0), (0x64, 0xD1), (0x60, port (trace s) OR 2), (0x64, 0xAE)]"
    "port (tr @ trace s) = port (trace s) OR 2" "keyboard_enabled (controller_status s) (tr @ trace s)"
    using enable_A20_spec [OF assms(5)] assms(6,7) unfolding port_def Let_def by metis
  have "disk D (s\<lparr>trace := tr @ trace s\<rparr>)" using assms(8) disk_dev [of "s\<lparr>trace := tr @ trace s\<rparr>" s D] by simp
  from parse_ELF_memory [OF this assms(9,10)] assms(11) obtain t where t: "parse_ELF a (s\<lparr>trace := tr @ trace s\<rparr>) = Some t"
    "\<forall>j<n. loaded 0xA000 (entry m0 table j) m0 (mem t)"
    "\<forall>x. x \<notin> region 0xA000 65536 \<longrightarrow> (\<forall>j<n. x \<notin> target (entry m0 table j)) \<longrightarrow>
       mem t x = mem (stage2_check_all_buses (s\<lparr>trace := tr @ trace s\<rparr>)) x"
    unfolding m0_def table_def n_def by blast
  have "stage2_main a s = Some (KERNEL_OFFSET, t)" using A(1) t(1) by (simp add: stage2_main_def)
  moreover have "mem t (KERNEL_OFFSET + of_nat k) = D (512 * unat (a div 512) + unat (p_offset (entry m0 table j) + of_nat k))"
    if "j < n" "p_type (entry m0 table j) \<noteq> 0 \<and> p_paddr (entry m0 table j) = KERNEL_OFFSET" "k < unat (p_filesz (entry m0 table j))"
    for j k
  proof -
    have "loaded 0xA000 (entry m0 table j) m0 (mem t)" using t(2) that(1) by blast
    then have "mem t (p_paddr (entry m0 table j) + of_nat k) = m0 (0xA000 + p_offset (entry m0 table j) + of_nat k)"
      using that(2,3) unfolding loaded_def by blast
    moreover have "m0 (0xA000 + x + y) = D (512 * unat (a div 512) + unat (x + y))" for x y
      by (simp add: m0_def file_image_def add.assoc)
    ultimately show ?thesis using that(2) by simp
  qed
  ultimately show ?thesis using A(2-4) t(2,3) unfolding Let_def by blast
qed

text \<open>C39. The second boot stage does not look at the result of the loader: without a valid magic byte the loader
  says so on the screen and has loaded nothing outside its buffer, and the stage jumps to \<open>KERNEL_OFFSET\<close>
  all the same, into whatever memory holds there.\<close>

theorem stage2_ignores_rejection:
  assumes "controller_answers s" and "disk D s" and "D (512 * unat (a div 512)) \<noteq> 0x7F" and "unat (a div 512) + 128 \<le> 268435456"
  shows "\<exists>tr u. let t = stage2_puth (ucast (D (512 * unat (a div 512)))) (stage2_puts (str ''Incorrect MAG0 '') u) in
    stage2_main a s = Some (KERNEL_OFFSET, t) \<and>
    (\<forall>x. x \<notin> region 0xA000 65536 \<longrightarrow> mem u x = mem (stage2_check_all_buses (s\<lparr>trace := tr @ trace s\<rparr>)) x)"
proof -
  obtain tr where A: "enable_A20 s = Some (s\<lparr>trace := tr @ trace s\<rparr>)" using enable_A20_spec [OF assms(1)] by blast
  have "disk D (s\<lparr>trace := tr @ trace s\<rparr>)" using assms(2) disk_dev [of "s\<lparr>trace := tr @ trace s\<rparr>" s D] by simp
  from parse_ELF_rejects [OF this assms(3,4)] obtain u where
    "parse_ELF a (s\<lparr>trace := tr @ trace s\<rparr>) =
      Some (stage2_puth (ucast (D (512 * unat (a div 512)))) (stage2_puts (str ''Incorrect MAG0 '') u))"
    "\<forall>x. x \<notin> region 0xA000 65536 \<longrightarrow> mem u x = mem (stage2_check_all_buses (s\<lparr>trace := tr @ trace s\<rparr>)) x" by blast
  then show ?thesis unfolding Let_def by (intro exI [of _ tr] exI [of _ u]) (simp add: stage2_main_def A)
qed

section \<open>Witnesses\<close>

text \<open>A machine with the disk of \<open>ElfLoader\<close> and a keyboard controller that takes a byte when its status has been read
  once since the last, and offers its output port (\<open>0xDD\<close> at first) after the command 0xD0.\<close>

definition demo_status :: "port_op list \<Rightarrow> u8" where
  "demo_status tr = (case tr of Out8 _ _ # _ \<Rightarrow> 2
     | _ \<Rightarrow> (case dropWhile (\<lambda>y. y = In8 0x64) tr of Out8 p b # _ \<Rightarrow> if p = 0x64 \<and> b = 0xD0 then 1 else 0 | _ \<Rightarrow> 0))"

definition demo_machine :: "(nat \<Rightarrow> u8) \<Rightarrow> stage2" where
  "demo_machine d = (demo_disk d)\<lparr>dev := \<lambda>tr x.
     if x = In8 0x64 then ucast (demo_status tr)
     else if x = In8 0x60 then ucast (output_port demo_status 0xDD tr)
     else dev (demo_disk d) tr x\<rparr>"

lemma demo_machine_disk: "disk (\<lambda>n. d (n mod 512)) (demo_machine d)"
proof -
  have "dev (demo_machine d) tr (In8 0x1F7) = dev (demo_disk d) tr (In8 0x1F7)"
    "dev (demo_machine d) tr (In32 0x1F0) = dev (demo_disk d) tr (In32 0x1F0)" for tr
    by (simp_all add: demo_machine_def)
  then show ?thesis using demo_disk_ok [of d] by (simp add: disk_def disk_ready_def)
qed

lemma byte_back: "ucast (ucast (b :: u8) :: u32) = b"
  by (rule bit_word_eqI) (simp add: bit_simps)

lemma demo_controller_status: "controller_status (demo_machine d) = demo_status"
  by (intro ext) (simp add: controller_status_def demo_machine_def byte_back)

lemma demo_controller_answers: "controller_answers (demo_machine d)"
proof -
  have "demo_status (In8 0x64 # tr) AND 2 = 0" for tr
    by (auto simp: demo_status_def split: list.splits port_op.splits)
  then have "\<exists>n. demo_status (replicate n (In8 0x64) @ tr) AND 2 = 0" for tr by (intro exI [of _ "Suc 0"]) simp
  moreover have "demo_status (replicate (Suc 0) (In8 0x64) @ Out8 0x64 0xD0 # tr) AND 1 \<noteq> 0" for tr
    by (simp add: demo_status_def)
  ultimately show ?thesis unfolding controller_answers_def demo_controller_status Let_def by blast
qed

lemma demo_gives_output_port: "gives_output_port 0xDD (demo_machine d)"
  unfolding gives_output_port_def demo_controller_status Let_def by (simp add: demo_machine_def byte_back)

lemma demo_no_key_waits: "no_key_waits (demo_machine d)"
  unfolding no_key_waits_def demo_controller_status
proof (intro allI)
  fix n k :: nat
  have "dropWhile (\<lambda>y. y = In8 0x64) (replicate n (In8 0x64) @ Out8 0x64 0xAD # T) = Out8 0x64 0xAD # T" for T
    by (induction n) simp_all
  then show "demo_status (replicate n (In8 0x64) @ Out8 0x64 0xAD # replicate k (In8 0x64) @ trace (demo_machine d)) AND 1 = 0"
    by (cases n) (simp_all add: demo_status_def)
qed

lemma stage2_starts_kernel_witness:
  "\<exists>t. stage2_main 0 (demo_machine demo_file) = Some (0x20000, t) \<and> mem t 0x20000 = 7 \<and> mem t 0x20007 = 0"
proof -
  obtain t where "stage2_main 0 (demo_machine demo_file) = Some (KERNEL_OFFSET, t)"
    "loaded 0xA000 (entry demo_image (0xA000 + 52) 0) demo_image (mem t)"
    using stage2_starts_kernel [OF demo_controller_answers demo_gives_output_port demo_no_key_waits,
        of "\<lambda>n. demo_file (n mod 512)" demo_file 0, folded demo_image_def]
      demo_machine_disk [of demo_file] demo_image_headers(1,2) demo_entries_ok
    by (auto simp: demo_file_def)
  then show ?thesis using demo_loaded unfolding KERNEL_OFFSET_def by blast
qed

lemma stage2_ignores_rejection_witness: "\<exists>t. stage2_main 0 (demo_machine (\<lambda>_. 0)) = Some (0x20000, t :: stage2)"
  using stage2_ignores_rejection [OF demo_controller_answers demo_machine_disk [of "\<lambda>_. 0"], of 0]
  by (auto simp: KERNEL_OFFSET_def Let_def)

end
