(* ===== verification/KernelTables.thy ===== *)
theory KernelTables
  imports Interrupts
begin

text \<open>
  The arrays of the running kernel: the process table, the handlers of the hardware lines, the layout of
  the keyboard and its shifted characters. C does not check an index
  and calls whatever address a table holds. In the model an access outside an array and a call of an address that is
  not a handler's have no result (\<open>item\<close>, \<open>call_irq\<close>), so that a handler that returns has made none; here, that
  every hardware interrupt returns, however long the kernel has run.
\<close>

definition same_tables :: "'a keyboard_scheme \<Rightarrow> 'a keyboard_scheme \<Rightarrow> bool" where
  "same_tables s t \<longleftrightarrow> irq_routines t = irq_routines s \<and> shiftLookup t = shiftLookup s \<and> dev t = dev s"

lemma same_tables_refl [simp]: "same_tables s s"
  by (simp add: same_tables_def)

lemma same_tables_trans [trans]: "same_tables s t \<Longrightarrow> same_tables t u \<Longrightarrow> same_tables s u"
  by (simp add: same_tables_def)

lemma same_tables_fields [simp]:
  "same_tables s (t\<lparr>timer_ticks := n\<rparr>) = same_tables s t" "same_tables s (t\<lparr>keyStatus := k\<rparr>) = same_tables s t"
  "same_tables s (t\<lparr>time_slice_millis := n\<rparr>) = same_tables s t" "same_tables s (t\<lparr>trace := tr\<rparr>) = same_tables s t"
  "same_tables (s\<lparr>timer_ticks := n\<rparr>) t = same_tables s t" "same_tables (s\<lparr>keyStatus := k\<rparr>) t = same_tables s t"
  "same_tables (s\<lparr>trace := tr\<rparr>) t = same_tables s t" "same_tables s (t\<lparr>proc_arr := ps\<rparr>) = same_tables s t"
  "same_tables s (outb p b t) = same_tables s t"
  by (simp_all add: same_tables_def outb_def)

lemma same_tables_console: "console_step s t \<Longrightarrow> same_tables s t"
proof -
  assume "console_step s t"
  then have e: "t = s\<lparr>mem := mem t, trace := trace t, cx := cx t, cy := cy t\<rparr>"
    by (simp add: console_step_def console_frame_def)
  show ?thesis unfolding same_tables_def by (intro conjI; subst e) simp_all
qed

lemma same_tables_switched [simp]: "same_tables s (switched i r t) = same_tables s t"
  by (simp add: same_tables_def switched_def Let_def)

lemma start_next_process_same_tables:
  assumes "kernel_ok s" "start_next_process r s = Some (w, r', t)"
  shows "same_tables s t"
proof (cases "scheduler_active s = 0")
  case True
  with assms(2) show ?thesis by (simp add: start_next_process_def)
next
  case False
  have "procs_ok (proc_arr s)" "0 \<le> cur_proc_index s" "cur_proc_index s < int MAX_PROC"
    using assms(1) by (simp_all add: kernel_ok_def)
  from start_next_process_eq [OF this False, of r] assms(2) show ?thesis
    by (auto simp: Let_def split: if_splits)
qed

lemma timer_handler_same_tables:
  assumes "kernel_ok s" "timer_handler r s = Some (r', t)"
  shows "same_tables s t"
proof (cases "timer_ticks s + 1 = slice_ticks s")
  case False
  with assms(2) show ?thesis by (auto simp: timer_handler_quiet)
next
  case True
  let ?s = "s\<lparr>timer_ticks := timer_ticks s + 1\<rparr>"
  obtain w q u where u: "start_next_process r ?s = Some (w, q, u)" "t = u\<lparr>time_slice_millis := w, timer_ticks := 0\<rparr>"
    using assms(2) True by (auto simp: timer_handler_def set_time_slice_def split: option.splits prod.splits)
  have "kernel_ok ?s" using assms(1) by simp
  from start_next_process_same_tables [OF this u(1)] show ?thesis by (simp add: u(2))
qed

lemma key_event_same_tables:
  assumes "cursor_ok s" "key_event sc s = Some t"
  shows "same_tables s t"
proof (cases "sc = 58")
  case False
  from key_event_step [OF assms(1) False assms(2)]
  have "console_step (s\<lparr>keyStatus := next_status sc (keyStatus s)\<rparr>) t" .
  from same_tables_console [OF this] show ?thesis by simp
next
  case True
  have send: "same_tables s t" if "sendByte p b s = Some t" for p b and s t :: "'a keyboard_scheme"
    using that by (auto simp: sendByte_eq split: if_splits)
  have "\<exists>k a b. Option.bind (sendByte 0x60 a (s\<lparr>keyStatus := k\<rparr>)) (sendByte 0x60 b) = Some t"
    using assms(2) True
    by (auto simp: key_event_def key_pressed_def kbdus_numerals press_masks_numerals chr_def
        switchCapsLightOff_def switchCapsLightOn_def split: if_splits)
  then obtain k a b u where "sendByte 0x60 a (s\<lparr>keyStatus := k\<rparr>) = Some u" "sendByte 0x60 b u = Some t"
    by (auto simp: bind_eq_Some_conv)
  from same_tables_trans [OF send [OF this(1)] send [OF this(2)]] show ?thesis by simp
qed

lemma call_irq_same_tables:
  assumes "kernel_ok s" "call_irq syms h r s = Some (r', t)"
  shows "same_tables s t"
proof (cases "h = sym_timer_handler syms")
  case True
  with assms show ?thesis by (auto simp: call_irq_def intro: timer_handler_same_tables)
next
  case False
  with assms(2) have "\<exists>sc. key_event sc (s\<lparr>trace := In8 0x60 # trace s\<rparr>) = Some t"
    by (auto simp: call_irq_def keyboard_handler_def inb_def split: if_splits)
  then obtain sc where "key_event sc (s\<lparr>trace := In8 0x60 # trace s\<rparr>) = Some t" by blast
  from key_event_same_tables [OF _ this] assms(1) show ?thesis by (simp add: kernel_ok_def cursor_ok_def)
qed

lemma irq_handler_same_tables:
  assumes "kernel_ok s" "irq_handler syms r s = Some (r', t)"
  shows "same_tables s t"
proof -
  define h where "h = irq_routines s ! unat (r_int_no r - 32)"
  obtain q u where q: "(if h \<noteq> 0 then call_irq syms h r s else Some (r, s)) = Some (q, u)"
    and t: "t = outb 0x20 0x20 (if 40 \<le> r_int_no q then outb 0xA0 0x20 u else u)"
    using assms(2) by (auto simp: irq_handler_def h_def Let_def split: if_splits option.splits)
  have "same_tables s u" using q assms(1) call_irq_same_tables by (auto split: if_splits)
  then show ?thesis by (simp add: t)
qed

lemma add_process_same_tables:
  assumes "cursor_ok s" "add_process p s = Some (i, t)"
  shows "same_tables s t"
proof (cases "free_slot (proc_arr s) 0")
  case None
  then have "printf (str (''No space for any other process!'' @ [nl])) [] s = Some t"
    using assms(2) by (auto simp: add_process_def split: option.splits)
  from same_tables_console [OF printf_step [OF this assms(1)]] show ?thesis .
next
  case (Some k)
  with assms(2) show ?thesis by (auto simp: add_process_def)
qed

lemma kernel_step_same_tables: "kernel_step syms s t \<Longrightarrow> kernel_ok s \<Longrightarrow> same_tables s t"
  by (elim kernel_stepE) (auto intro: irq_handler_same_tables add_process_same_tables
      simp: kernel_ok_def remove_process_def)

lemma kernel_steps_same_tables:
  "(kernel_step syms)\<^sup>*\<^sup>* s t \<Longrightarrow> kernel_ok s \<Longrightarrow> kernel_ok t \<and> same_tables s t"
  by (induction rule: rtranclp_induct) (auto intro: kernel_step_ok kernel_step_same_tables same_tables_trans)

section \<open>Sizes and indices\<close>

text \<open>The sizes the C declarations give.\<close>

definition tables_typed :: "symbols \<Rightarrow> 'a keyboard_scheme \<Rightarrow> bool" where
  "tables_typed syms s \<longleftrightarrow> length (proc_arr s) = MAX_PROC \<and> length (irq_routines s) = 16 \<and>
     length (shiftLookup s) = 128 \<and> 0 \<le> cur_proc_index s \<and> nat (cur_proc_index s) < length (proc_arr s) \<and>
     set (irq_routines s) \<subseteq> {0, sym_timer_handler syms, sym_keyboard_handler syms}"

lemma tables_typed_steps:
  assumes "(kernel_step syms)\<^sup>*\<^sup>* s t" "kernel_ok s" "tables_typed syms s"
  shows "tables_typed syms t"
  using kernel_steps_same_tables [OF assms(1,2)] assms(3)
  by (auto simp: tables_typed_def same_tables_def kernel_ok_def procs_ok_def)

lemma hardware_line_less: "32 \<le> n \<Longrightarrow> n < 48 \<Longrightarrow> unat (n - 32) < 16" for n :: u32
  by (simp add: word_le_nat_alt word_less_nat_alt unat_sub)

lemma controller_ok_dev: "dev t = dev s \<Longrightarrow> controller_ok t = controller_ok s"
  by (simp add: controller_ok_def)

text \<open>A hardware interrupt with typed tables returns.\<close>

lemma irq_handler_returns:
  assumes "kernel_ok s" "tables_typed syms s" "controller_ok s" "32 \<le> r_int_no r" "r_int_no r < 48"
  shows "\<exists>r' t. irq_handler syms r s = Some (r', t)"
proof -
  define h where "h = irq_routines s ! unat (r_int_no r - 32)"
  have i: "unat (r_int_no r - 32) < length (irq_routines s)"
    using assms(2) hardware_line_less [OF assms(4,5)] by (simp add: tables_typed_def)
  then have h: "h \<in> {0, sym_timer_handler syms, sym_keyboard_handler syms}"
    using assms(2) nth_mem [OF i] unfolding tables_typed_def h_def by blast
  have "\<exists>q u. call_irq syms h r s = Some (q, u)" if "h \<noteq> 0"
  proof (cases "h = sym_timer_handler syms")
    case True
    then show ?thesis using timer_handler_kernel_ok [OF assms(1), of r] by (auto simp: call_irq_def)
  next
    case False
    let ?s = "s\<lparr>trace := In8 0x60 # trace s\<rparr>"
    have "cursor_ok ?s" "controller_ok ?s" "length (shiftLookup ?s) = 128"
      using assms(1-3) by (simp_all add: kernel_ok_def cursor_ok_def controller_ok_def tables_typed_def)
    from key_event_returns [OF this] obtain u where "key_event (ucast (dev s (trace s) (In8 0x60))) ?s = Some u" by blast
    then show ?thesis using False h that by (simp add: call_irq_def keyboard_handler_def inb_def)
  qed
  then obtain q u where "(if h \<noteq> 0 then call_irq syms h r s else Some (r, s)) = Some (q, u)" by (cases "h = 0") auto
  then show ?thesis using i by (simp add: irq_handler_def h_def [symmetric] Let_def split del: if_split)
qed

text \<open>C20. However long the kernel has run, whatever interrupts arrived and processes came and went, the next hardware
  interrupt on any of the 16 lines, and any scan code, is handled to the end. Since the definitions look up every array with a check and
  give no result outside, this says that no access of the handlers leaves \<open>proc_arr\<close>, \<open>irq_routines\<close>, \<open>kbdus\<close> or
  \<open>shiftLookup\<close>, that the call through \<open>irq_routines\<close> reaches a handler, and that the scheduler's loop ends; what
  is left to wait for is only the keyboard controller. The arrays keep the sizes they are declared with.\<close>

theorem interrupts_stay_in_bounds:
  assumes "(kernel_step syms)\<^sup>*\<^sup>* s t" and "kernel_ok s" and "tables_typed syms s" and "controller_ok s"
  shows "tables_typed syms t \<and>
    (\<forall>r. 32 \<le> r_int_no r \<and> r_int_no r < 48 \<longrightarrow> (\<exists>r' u. irq_handler syms r t = Some (r', u) \<and> kernel_step syms t u)) \<and>
    (\<forall>sc. \<exists>u. key_event sc t = Some u)"
proof -
  have t: "kernel_ok t" "tables_typed syms t" "controller_ok t"
    using kernel_steps_same_tables [OF assms(1,2)] tables_typed_steps [OF assms(1-3)] assms(4)
      controller_ok_dev [of t s] by (simp_all add: same_tables_def)
  have "cursor_ok t" "length (shiftLookup t) = 128" using t(1,2) by (simp_all add: kernel_ok_def tables_typed_def)
  with key_event_returns [OF _ t(3)] irq_handler_returns [OF t] t(2) show ?thesis by (blast intro: kernel_step.Irq)
qed

section \<open>Witness\<close>

lemma demo_kernel_typed: "tables_typed demo_addresses (demo_kernel\<lparr>shiftLookup := replicate 128 0\<rparr>)"
  using demo_kernel_ok
  by (auto simp: tables_typed_def demo_kernel_def demo_addresses_def kernel_ok_def procs_ok_def)

text \<open>After the exit of a process, the release of a key whose code, unmasked, is outside \<open>kbdus\<close>, and a tick.\<close>

lemma interrupts_stay_in_bounds_witness:
  "\<exists>r' u v. irq_handler demo_addresses ((read_regs (\<lambda>_. 0) 0)\<lparr>r_int_no := 32\<rparr>)
     (remove_process (demo_table ! 2) (demo_kernel\<lparr>shiftLookup := replicate 128 0\<rparr>)) = Some (r', u) \<and>
   key_event 0xAA (remove_process (demo_table ! 2) (demo_kernel\<lparr>shiftLookup := replicate 128 0\<rparr>)) = Some v"
proof -
  let ?s = "demo_kernel\<lparr>shiftLookup := replicate 128 0\<rparr>"
  have "kernel_ok ?s" "controller_ok ?s"
    using demo_kernel_ok by (simp_all add: kernel_ok_def cursor_ok_def controller_ok_def demo_kernel_def demo_keyboard_def)
  moreover have "(kernel_step demo_addresses)\<^sup>*\<^sup>* ?s (remove_process (demo_table ! 2) ?s)" by (blast intro: Exit)
  ultimately have P: "(\<forall>r. 32 \<le> r_int_no r \<and> r_int_no r < 48 \<longrightarrow>
      (\<exists>r' u. irq_handler demo_addresses r (remove_process (demo_table ! 2) ?s) = Some (r', u))) \<and>
      (\<forall>sc. \<exists>u. key_event sc (remove_process (demo_table ! 2) ?s) = Some u)"
    using interrupts_stay_in_bounds [OF _ _ demo_kernel_typed] by metis
  show ?thesis using conjunct1 [OF P, rule_format, of "(read_regs (\<lambda>_. 0) 0)\<lparr>r_int_no := 32\<rparr>"] conjunct2 [OF P] by auto
qed

end
