(* ===== verification/HeapBlocks.thy ===== *)
theory HeapBlocks
  imports Heap
begin

text \<open>
  The heap of a process as a list of blocks. \<open>blocks m a bs\<close> says that the memory \<open>m\<close> holds, from
  address \<open>a\<close> on, exactly the chain of headers that the list \<open>bs\<close> of (free?, size) describes;
  \<open>fit\<close> is first fit and \<open>coalesce\<close> is the merging of neighbours on such lists. The lemmas say that
  the pointer code of \<open>heap.c\<close> computes these functions.
\<close>

type_synonym blk = "bool \<times> nat"

section \<open>Headers at numeric addresses\<close>

text \<open>Two headers are the same one or do not overlap.\<close>

definition apart :: "nat \<Rightarrow> nat \<Rightarrow> bool" where
  "apart a b \<longleftrightarrow> (a = b \<or> a + 6 \<le> b \<or> b + 6 \<le> a) \<and> a + 6 \<le> 4294967296 \<and> b + 6 \<le> 4294967296"

lemma header_word:
  "a + 6 \<le> 4294967296 \<Longrightarrow> unat (of_nat a :: u32) = a"
  "a + 6 \<le> 4294967296 \<Longrightarrow> unat (of_nat a + 2 :: u32) = a + 2"
  using unat_of_nat_32 [of a] unat_of_nat_32 [of "a + 2"] by (simp_all add: add.commute)

lemma header_regions:
  assumes "a + 6 \<le> 4294967296"
  shows "x \<in> region (of_nat a) 2 \<longleftrightarrow> a \<le> unat x \<and> unat x < a + 2"
    "x \<in> region (of_nat a + 2) 4 \<longleftrightarrow> a + 2 \<le> unat x \<and> unat x < a + 6"
  using assms region_iff [of "of_nat a" 2 x] region_iff [of "of_nat a + 2" 4 x]
  by (auto simp: header_word)

lemma header_fields [mem_simps]:
  assumes "apart a b"
  shows "block_is_free (set_is_free (of_nat a) v m) (of_nat b) =
      (if a = b then v else block_is_free m (of_nat b))"
    "block_size (set_is_free (of_nat a) v m) (of_nat b) = block_size m (of_nat b)"
    "block_is_free (set_size (of_nat a) w m) (of_nat b) = block_is_free m (of_nat b)"
    "block_size (set_size (of_nat a) w m) (of_nat b) =
      (if a = b then w else block_size m (of_nat b))"
proof -
  note r = header_regions [of a] header_regions [of b]
  have "region (of_nat a) 2 \<inter> region (of_nat b) 2 = {}" if "a \<noteq> b"
    using assms that by (auto simp: apart_def r)
  then show "block_is_free (set_is_free (of_nat a) v m) (of_nat b) =
      (if a = b then v else block_is_free m (of_nat b))"
    by (simp add: block_is_free_def set_is_free_def s16.ld_st s16.ld_st_disjoint)
  have "region (of_nat a) 2 \<inter> region (of_nat b + 2) 4 = {}"
    using assms by (auto simp: apart_def r)
  then show "block_size (set_is_free (of_nat a) v m) (of_nat b) = block_size m (of_nat b)"
    by (simp add: block_size_def set_is_free_def ld32_st16)
  have "region (of_nat a + 2) 4 \<inter> region (of_nat b) 2 = {}"
    using assms by (auto simp: apart_def r)
  then show "block_is_free (set_size (of_nat a) w m) (of_nat b) = block_is_free m (of_nat b)"
    by (simp add: block_is_free_def set_size_def ld16_st32)
  have "region (of_nat a + 2) 4 \<inter> region (of_nat b + 2) 4 = {}" if "a \<noteq> b"
    using assms that by (auto simp: apart_def r)
  then show "block_size (set_size (of_nat a) w m) (of_nat b) =
      (if a = b then w else block_size m (of_nat b))"
    by (simp add: block_size_def set_size_def s32.ld_st s32.ld_st_disjoint)
qed

lemma header_frame:
  assumes "a + 6 \<le> 4294967296" and "unat x < a \<or> a + 6 \<le> unat x"
  shows "set_is_free (of_nat a) v m x = m x" "set_size (of_nat a) w m x = m x"
  using assms header_regions [of a x]
  by (auto simp: set_is_free_def set_size_def intro!: s16.st_frame s32.st_frame)

lemma header_cong:
  assumes "a + 6 \<le> 4294967296" and "\<And>x. a \<le> unat x \<Longrightarrow> unat x < a + 6 \<Longrightarrow> m x = m' x"
  shows "block_is_free m (of_nat a) = block_is_free m' (of_nat a)"
    "block_size m (of_nat a) = block_size m' (of_nat a)"
  using assms header_regions [of a]
  by (auto simp: block_is_free_def block_size_def intro!: s16.ld_cong s32.ld_cong)

lemma sizeof_block_add: "of_nat a + sizeof_block = of_nat (a + 6)"
  by (simp add: sizeof_block_def)

section \<open>The chain of headers\<close>

fun span :: "blk list \<Rightarrow> nat" where
  "span [] = 0"
| "span ((f, k) # bs) = 6 + k + span bs"

fun blocks :: "mem \<Rightarrow> nat \<Rightarrow> blk list \<Rightarrow> bool" where
  "blocks m a [] \<longleftrightarrow> True"
| "blocks m a ((f, k) # bs) \<longleftrightarrow>
     (block_is_free m (of_nat a) \<noteq> 0) = f \<and> block_size m (of_nat a) = of_nat k \<and>
     blocks m (a + 6 + k) bs"

text \<open>The addresses of the headers, and the payloads (address and size) of the allocated blocks.\<close>

fun in_header :: "nat \<Rightarrow> blk list \<Rightarrow> nat \<Rightarrow> bool" where
  "in_header a [] x \<longleftrightarrow> False"
| "in_header a ((f, k) # bs) x \<longleftrightarrow> (a \<le> x \<and> x < a + 6) \<or> in_header (a + 6 + k) bs x"

fun allocs :: "nat \<Rightarrow> blk list \<Rightarrow> (nat \<times> nat) list" where
  "allocs a [] = []"
| "allocs a ((f, k) # bs) = (if f then [] else [(a + 6, k)]) @ allocs (a + 6 + k) bs"

lemma span_append [simp]: "span (bs @ cs) = span bs + span cs"
  by (induction bs rule: span.induct) auto

lemma blocks_append: "blocks m a (bs @ cs) \<longleftrightarrow> blocks m a bs \<and> blocks m (a + span bs) cs"
  by (induction bs arbitrary: a rule: span.induct) (auto simp: algebra_simps)

lemma allocs_append: "allocs a (bs @ cs) = allocs a bs @ allocs (a + span bs) cs"
  by (induction bs arbitrary: a rule: span.induct) (auto simp: algebra_simps)

lemma in_header_append: "in_header a (bs @ cs) x \<longleftrightarrow> in_header a bs x \<or> in_header (a + span bs) cs x"
  by (induction bs arbitrary: a rule: span.induct) (auto simp: algebra_simps)

lemma in_header_bounds: "in_header a bs x \<Longrightarrow> a \<le> x \<and> x < a + span bs"
  by (induction bs arbitrary: a rule: span.induct) fastforce+

lemma allocs_bounds: "(p, k) \<in> set (allocs a bs) \<Longrightarrow> a + 6 \<le> p \<and> p + k \<le> a + span bs"
  by (induction bs arbitrary: a rule: span.induct) (fastforce split: if_splits)+

lemma allocs_not_header:
  "(p, k) \<in> set (allocs a bs) \<Longrightarrow> p \<le> x \<Longrightarrow> x < p + k \<Longrightarrow> \<not> in_header a bs x"
proof (induction bs arbitrary: a rule: span.induct)
  case (2 f n bs)
  show ?case
  proof (cases "(p, k) \<in> set (allocs (a + 6 + n) bs)")
    case True
    with 2 allocs_bounds [OF True] show ?thesis by auto
  next
    case False
    with 2(2) have "p = a + 6" "k = n" by (auto split: if_splits)
    with 2(3,4) in_header_bounds [of "a + 6 + n" bs x] show ?thesis by auto
  qed
qed simp

text \<open>The payloads of allocated blocks are pairwise disjoint, in address order.\<close>

lemma allocs_disjoint:
  "sorted_wrt (\<lambda>(p, k) (q, l). p + k + 6 \<le> q) (allocs a bs)"
  by (induction bs arbitrary: a rule: span.induct) (auto dest: allocs_bounds)

text \<open>Only the headers matter: writing to payloads keeps the chain.\<close>

lemma blocks_cong:
  assumes "a + span bs \<le> 4294967296" and "\<And>x. in_header a bs (unat x) \<Longrightarrow> m x = m' x"
  shows "blocks m a bs \<longleftrightarrow> blocks m' a bs"
  using assms
proof (induction bs arbitrary: a rule: span.induct)
  case (2 f k bs)
  have h: "block_is_free m (of_nat a) = block_is_free m' (of_nat a)"
    "block_size m (of_nat a) = block_size m' (of_nat a)"
    using 2(2,3) by (auto intro!: header_cong)
  have "blocks m (a + 6 + k) bs \<longleftrightarrow> blocks m' (a + 6 + k) bs"
    using 2(2,3) by (intro 2(1)) auto
  with h show ?case by simp
qed simp

end
