(* ===== verification/HeapFit.thy ===== *)
theory HeapFit
  imports HeapBlocks
begin

text \<open>
  First fit and coalescing on block lists, and the pointer code of \<open>heap.c\<close> as their
  implementation.
\<close>

section \<open>First fit\<close>

text \<open>A free block that is large enough is used whole, or cut in two when the header of a second
  block fits too.\<close>

definition carve :: "nat \<Rightarrow> nat \<Rightarrow> blk list" where
  "carve n k = (if n + 6 \<le> k then [(False, n), (True, k - n - 6)] else [(False, k)])"

text \<open>The offset of the block chosen, and the list afterwards.\<close>

fun fit :: "nat \<Rightarrow> blk list \<Rightarrow> (nat \<times> blk list) option" where
  "fit n [] = None"
| "fit n ((f, k) # bs) =
     (if f \<and> n \<le> k then Some (0, carve n k @ bs)
      else map_option (\<lambda>(off, cs). (6 + k + off, (f, k) # cs)) (fit n bs))"

lemma span_carve: "n \<le> k \<Longrightarrow> span (carve n k) = 6 + k"
  by (simp add: carve_def)

lemma fit_None: "fit n bs = None \<longleftrightarrow> (\<forall>(f, k) \<in> set bs. f \<longrightarrow> k < n)"
  by (induction n bs rule: fit.induct) auto

lemma fit_Some:
  "fit n bs = Some (off, cs) \<Longrightarrow>
     \<exists>bs1 k bs2. bs = bs1 @ (True, k) # bs2 \<and> cs = bs1 @ carve n k @ bs2 \<and> off = span bs1 \<and>
       n \<le> k \<and> (\<forall>(f, j) \<in> set bs1. f \<longrightarrow> j < n)"
proof (induction n bs arbitrary: off cs rule: fit.induct)
  case (2 n f k bs)
  show ?case
  proof (cases "f \<and> n \<le> k")
    case True
    then show ?thesis using 2(2) by (intro exI [of _ "[]"]) auto
  next
    case False
    then obtain off' cs' where r: "fit n bs = Some (off', cs')" "off = 6 + k + off'" "cs = (f, k) # cs'"
      using 2(2) by auto
    obtain bs1 j bs2 where "bs = bs1 @ (True, j) # bs2" "cs' = bs1 @ carve n j @ bs2"
      "off' = span bs1" "n \<le> j" "\<forall>(f, i) \<in> set bs1. f \<longrightarrow> i < n"
      using 2(1) [OF False r(1)] by blast
    moreover from this(5) have "\<forall>(f, i) \<in> set ((f, k) # bs1). f \<longrightarrow> i < n" using False by auto
    ultimately show ?thesis using r(2,3)
      by (intro exI [of _ "(f, k) # bs1"] exI [of _ j] exI [of _ bs2]) simp
  qed
qed simp

lemma span_fit: "fit n bs = Some (off, cs) \<Longrightarrow> span cs = span bs"
  by (drule fit_Some) (auto simp: span_carve)

lemma allocs_fit:
  assumes "fit n bs = Some (off, cs)"
  shows "\<exists>xs ys k. allocs a bs = xs @ ys \<and> allocs a cs = xs @ (a + off + 6, k) # ys \<and> n \<le> k"
proof -
  obtain bs1 k bs2 where b: "bs = bs1 @ (True, k) # bs2" "cs = bs1 @ carve n k @ bs2" "off = span bs1"
    "n \<le> k" using fit_Some [OF assms] by blast
  define h where "h = a + span bs1"
  have e: "h + 6 + n + 6 + (k - n - 6) = h + 6 + k" if "n + 6 \<le> k" using that by simp
  have "allocs a bs = allocs a bs1 @ allocs (h + 6 + k) bs2"
    by (simp add: b(1) allocs_append h_def)
  moreover have "allocs a cs = allocs a bs1 @ (h + 6, if n + 6 \<le> k then n else k) # allocs (h + 6 + k) bs2"
    using b(4) e by (cases "n + 6 \<le> k")
      (simp_all add: b(2) allocs_append span_carve carve_def h_def [symmetric] add.commute
        add.left_commute)
  moreover have "n \<le> (if n + 6 \<le> k then n else k)" using b(4) by simp
  moreover have "a + off + 6 = h + 6" by (simp add: h_def b(3))
  ultimately show ?thesis by metis
qed

section \<open>claim_block and find_block\<close>

lemma divide_block_eq:
  assumes "block_size m (of_nat a) = of_nat k" "6 \<le> k" "a + 6 + k \<le> 4294967295" "n \<le> k" "0 < a"
  shows "divide_block (of_nat a) (of_nat n) m =
    (if n + 6 \<le> k then (of_nat (a + 6 + n),
       set_size (of_nat a) (of_nat n) (set_size (of_nat (a + 6 + n)) (of_nat (k - n - 6)) m))
     else (0, m))"
proof -
  have sub: "of_nat k - sizeof_block = (of_nat (k - 6) :: u32)"
    using assms(2) by (simp add: sizeof_block_def of_nat_diff)
  have cmp: "(of_nat (k - 6) :: u32) < of_nat n \<longleftrightarrow> k - 6 < n"
    using assms(2-4) by (simp add: word_less_nat_alt unat_of_nat_32 del: of_nat_diff)
  have sub2: "of_nat (k - 6) - of_nat n = (of_nat (k - n - 6) :: u32)" if "n + 6 \<le> k"
    using that by (simp add: of_nat_diff [symmetric] add.commute del: of_nat_diff)
  have c: "k - 6 < n \<longleftrightarrow> \<not> n + 6 \<le> k" using assms(2) by auto
  have ad: "of_nat a + sizeof_block + of_nat n = of_nat (a + 6 + n)" by (simp add: sizeof_block_def)
  show ?thesis
    unfolding divide_block_def assms(1) sub cmp ad Let_def c
    by (cases "n + 6 \<le> k") (simp_all add: sub2 del: of_nat_add of_nat_diff)
qed

lemma divide_block_addr:
  assumes "a + 6 + k \<le> 4294967295" "n + 6 \<le> k"
  shows "(of_nat (a + 6 + n) :: u32) \<noteq> 0"
proof -
  have "unat (of_nat (a + 6 + n) :: u32) = a + 6 + n" using assms by (intro unat_of_nat_32) simp
  then show ?thesis by (metis unat_0 add_is_0 zero_neq_numeral)
qed

text \<open>\<open>claim_block\<close> on the block \<open>(True, k)\<close> at \<open>a\<close> carves it, and touches its headers only.\<close>

lemma claim_block_blocks:
  assumes b: "blocks m a ((True, k) # bs)" and n: "6 \<le> k" "n \<le> k"
    and fits: "a + 6 + k + span bs \<le> 4294967295" "0 < a"
  shows "blocks (claim_block (of_nat a) (of_nat n) m) a (carve n k @ bs)"
    and "unat x < a \<or> a + 6 \<le> unat x \<Longrightarrow> unat x < a + 6 + n \<or> a + 12 + n \<le> unat x \<Longrightarrow>
      claim_block (of_nat a) (of_nat n) m x = m x"
    and "unat x < a \<or> a + 6 + k \<le> unat x \<Longrightarrow> claim_block (of_nat a) (of_nat n) m x = m x"
proof -
  have ap: "apart a a" using fits by (simp add: apart_def)
  have sz: "block_size (set_is_free (of_nat a) 0 m) (of_nat a) = of_nat k"
    using b by (simp add: header_fields [OF ap])
  define m1 where "m1 = set_is_free (of_nat a) 0 m"
  define m2 where "m2 = (if n + 6 \<le> k then set_is_free (of_nat (a + 6 + n)) 1
    (set_size (of_nat a) (of_nat n) (set_size (of_nat (a + 6 + n)) (of_nat (k - n - 6)) m1)) else m1)"
  have eq: "claim_block (of_nat a) (of_nat n) m = m2"
    using divide_block_addr [of a k n] fits n
    by (simp add: claim_block_def divide_block_eq [OF sz [folded m1_def]] m1_def [symmetric]
        m2_def Let_def del: of_nat_add of_nat_diff)
  have frame: "m2 x = m x"
    if "unat x < a \<or> a + 6 \<le> unat x" "n + 6 \<le> k \<longrightarrow> unat x < a + 6 + n \<or> a + 12 + n \<le> unat x" for x
    using that fits by (auto simp: m2_def m1_def header_frame simp del: of_nat_add)
  show "claim_block (of_nat a) (of_nat n) m x = m x"
    if "unat x < a \<or> a + 6 \<le> unat x" "unat x < a + 6 + n \<or> a + 12 + n \<le> unat x"
    using that by (simp add: eq frame)
  show "claim_block (of_nat a) (of_nat n) m x = m x" if "unat x < a \<or> a + 6 + k \<le> unat x"
    using that by (auto simp: eq intro!: frame)
  have rest: "blocks m2 (a + 6 + k) bs"
  proof -
    have "blocks m2 (a + 6 + k) bs \<longleftrightarrow> blocks m (a + 6 + k) bs"
      by (rule blocks_cong) (use fits in \<open>auto intro!: frame dest!: in_header_bounds\<close>)
    then show ?thesis using b by simp
  qed
  show "blocks (claim_block (of_nat a) (of_nat n) m) a (carve n k @ bs)"
  proof (cases "n + 6 \<le> k")
    case True
    then have ap2: "apart a (a + 6 + n)" "apart (a + 6 + n) a" "apart (a + 6 + n) (a + 6 + n)"
      using fits by (simp_all add: apart_def)
    have "block_is_free m2 (of_nat a) = 0" "block_size m2 (of_nat a) = of_nat n"
      "block_is_free m2 (of_nat (a + 6 + n)) = 1"
      "block_size m2 (of_nat (a + 6 + n)) = of_nat (k - n - 6)"
      using True unfolding m2_def m1_def
      by (simp_all add: header_fields [OF ap] header_fields [OF ap2(1)] header_fields [OF ap2(2)]
          header_fields [OF ap2(3)] del: of_nat_add of_nat_diff)
    moreover have "a + 6 + n + 6 + (k - n - 6) = a + 6 + k" using True by simp
    ultimately show ?thesis
      using True rest by (simp add: eq carve_def add.commute add.left_commute del: of_nat_add of_nat_diff)
  next
    case False
    then show ?thesis
      using rest b by (simp add: eq carve_def m2_def m1_def header_fields [OF ap])
  qed
qed

text \<open>The search is first fit; it changes nothing until it has found its block.\<close>

lemma find_block_first_fit:
  assumes "blocks m (start + i) bs" "i + span bs = hsize" "start + hsize \<le> 4294967295"
    "n \<le> 4294967295"
  shows "find_block (of_nat start) (of_nat hsize) (of_nat n) 0 (of_nat i) m =
    (case fit n bs of None \<Rightarrow> Some (0, m)
     | Some (off, cs) \<Rightarrow> Some (of_nat (start + i + off), claim_block (of_nat (start + i + off)) (of_nat n) m))"
  using assms(1,2)
proof (induction bs arbitrary: i rule: span.induct)
  case 1
  then show ?case by (simp add: find_block.simps)
next
  case (2 f k bs)
  have k: "k \<le> 4294967295" and i: "(of_nat i :: u32) < of_nat hsize"
    using 2(3) assms(3) by (auto simp: word_less_nat_alt unat_of_nat_32)
  have le: "(of_nat n :: u32) \<le> of_nat k \<longleftrightarrow> n \<le> k"
    using k assms(4) by (simp add: word_le_nat_alt unat_of_nat_32)
  have addr: "of_nat start + of_nat i = (of_nat (start + i) :: u32)" by simp
  have hd: "(block_is_free m (of_nat (start + i)) \<noteq> 0) = f" "block_size m (of_nat (start + i)) = of_nat k"
    using 2(2) by simp_all
  have next_i: "of_nat i + (sizeof_block + of_nat k) = (of_nat (i + 6 + k) :: u32)"
    by (simp add: sizeof_block_def)
  have IH: "find_block (of_nat start) (of_nat hsize) (of_nat n) 0 (of_nat (i + 6 + k)) m =
    (case fit n bs of None \<Rightarrow> Some (0, m)
     | Some (off, cs) \<Rightarrow> Some (of_nat (start + (i + 6 + k) + off),
         claim_block (of_nat (start + (i + 6 + k) + off)) (of_nat n) m))"
    by (rule 2(1)) (use 2(2,3) in \<open>simp_all add: add.assoc\<close>)
  have reass: "start + (i + 6 + k) + off = start + i + (6 + k + off)" for off by simp
  show ?case
    by (subst find_block.simps)
      (simp add: i addr hd le next_i IH reass Let_def split: option.splits del: of_nat_add)
qed

lemma fit_blocks:
  assumes b: "blocks m a bs" and f: "fit n bs = Some (off, cs)" and n: "6 \<le> n"
    and room: "a + span bs \<le> 4294967295" "0 < a"
  defines "m' \<equiv> claim_block (of_nat (a + off)) (of_nat n) m"
  shows "blocks m' a cs"
    and "unat x < a \<or> a + span bs \<le> unat x \<Longrightarrow> m' x = m x"
    and "(p, k) \<in> set (allocs a bs) \<Longrightarrow> p \<le> unat x \<Longrightarrow> unat x < p + k \<Longrightarrow> m' x = m x"
proof -
  obtain bs1 k bs2 where d: "bs = bs1 @ (True, k) # bs2" "cs = bs1 @ carve n k @ bs2" "off = span bs1"
    "n \<le> k" using fit_Some [OF f] by blast
  have bk: "blocks m (a + off) ((True, k) # bs2)" and b1: "blocks m a bs1"
    using b by (simp_all add: d blocks_append)
  have le: "a + off + 6 + k + span bs2 \<le> 4294967295" and pos: "0 < a + off" and k6: "6 \<le> k"
    using room n d(4) by (simp_all add: d(1,3))
  note cb = claim_block_blocks [OF bk k6 d(4) le pos, folded m'_def]
  have "blocks m' a bs1 \<longleftrightarrow> blocks m a bs1"
    using le by (intro blocks_cong) (auto simp: d(3) intro!: cb(3) dest!: in_header_bounds)
  then show "blocks m' a cs"
    using cb(1) b1 span_carve [OF d(4)] by (simp add: d(2,3) blocks_append)
  show "m' x = m x" if "unat x < a \<or> a + span bs \<le> unat x"
    using that by (intro cb(3)) (auto simp: d)
  show "m' x = m x" if "(p, l) \<in> set (allocs a bs)" "p \<le> unat x" "unat x < p + l" for p l
  proof (rule cb(3))
    from that(1) consider "(p, l) \<in> set (allocs a bs1)"
      | "(p, l) \<in> set (allocs (a + off + 6 + k) bs2)"
      by (auto simp: d allocs_append)
    then show "unat x < a + off \<or> a + off + 6 + k \<le> unat x"
      using that(2,3) by cases (auto simp: d(3) dest!: allocs_bounds)
  qed
qed

end
