(* ===== verification/HeapUnite.thy ===== *)
theory HeapUnite
  imports HeapFit
begin

text \<open>
  \<open>unite_free_blocks\<close> merges every run of free blocks into one. \<open>merge\<close> is the loop with its
  \<open>prev_info\<close> as the block in hand.
\<close>

section \<open>Coalescing lists\<close>

fun merge :: "blk \<Rightarrow> blk list \<Rightarrow> blk list" where
  "merge b [] = [b]"
| "merge (f, k) ((g, j) # bs) =
     (if f \<and> g then merge (True, k + 6 + j) bs else (f, k) # merge (g, j) bs)"

fun coalesce :: "blk list \<Rightarrow> blk list" where
  "coalesce [] = []"
| "coalesce (b # bs) = merge b bs"

text \<open>No two neighbours are free.\<close>

fun coalesced :: "blk list \<Rightarrow> bool" where
  "coalesced ((f, k) # (g, j) # bs) \<longleftrightarrow> \<not> (f \<and> g) \<and> coalesced ((g, j) # bs)"
| "coalesced bs \<longleftrightarrow> True"

lemma merge_not_Nil [simp]: "merge b bs \<noteq> []"
  by (induction b bs rule: merge.induct) auto

lemma fst_hd_merge: "fst (hd (merge b bs)) = fst b"
  by (induction b bs rule: merge.induct) auto

lemma span_merge [simp]: "span (merge b bs) = span (b # bs)"
  by (induction b bs rule: merge.induct) auto

lemma span_coalesce [simp]: "span (coalesce bs) = span bs"
  by (cases bs) auto

lemma coalesced_Cons: "coalesced (b # bs) \<longleftrightarrow> (bs \<noteq> [] \<longrightarrow> \<not> (fst b \<and> fst (hd bs))) \<and> coalesced bs"
  by (cases b; cases bs) auto

lemma coalesced_merge: "coalesced (merge b bs)"
  by (induction b bs rule: merge.induct) (auto simp: coalesced_Cons fst_hd_merge)

lemma coalesced_coalesce: "coalesced (coalesce bs)"
  by (cases bs) (auto simp: coalesced_merge)

lemma allocs_merge: "allocs a (merge b bs) = allocs a (b # bs)"
  by (induction b bs arbitrary: a rule: merge.induct) (auto simp: algebra_simps)

lemma allocs_coalesce [simp]: "allocs a (coalesce bs) = allocs a bs"
  by (cases bs) (auto simp: allocs_merge)

lemma coalesce_id: "coalesced bs \<Longrightarrow> coalesce bs = bs"
proof (cases bs)
  case (Cons b cs)
  have "coalesced (b # cs) \<Longrightarrow> merge b cs = b # cs" for b cs
    by (induction b cs rule: merge.induct) auto
  then show "coalesced bs \<Longrightarrow> coalesce bs = bs" using Cons by simp
qed simp

section \<open>The loop\<close>

lemma unite_loop_merge:
  assumes "blocks m a ((f, k) # bs)" "a + 6 + k + span bs = start + hsize"
    "start \<le> a" "start + hsize \<le> 4294967295"
  shows "\<exists>m'. unite_loop (of_nat start) (of_nat hsize) (of_nat a) (of_nat (a + 6 + k - start)) m = Some m' \<and>
    blocks m' a (merge (f, k) bs) \<and> (\<forall>x. \<not> in_header a ((f, k) # bs) (unat x) \<longrightarrow> m' x = m x)"
  using assms(1-3)
proof (induction bs arbitrary: a f k m rule: span.induct)
  case 1
  then have "a + 6 + k - start = hsize" by simp
  with 1 show ?case by (simp add: unite_loop.simps)
next
  case (2 g j bs)
  define i where "i = a + 6 + k - start"
  have i: "start + i = a + 6 + k" "i < hsize" using 2(3,4) by (simp_all add: i_def)
  have ui: "(of_nat i :: u32) < of_nat hsize"
    using i assms(4) by (simp add: word_less_nat_alt unat_of_nat_32)
  have info: "of_nat start + of_nat i = (of_nat (a + 6 + k) :: u32)"
    using i(1) by (metis of_nat_add)
  have le: "a + 6 + k + 6 + j + span bs \<le> 4294967295" using 2(3) assms(4) by simp
  have hd: "(block_is_free m (of_nat a) \<noteq> 0) = f" "block_size m (of_nat a) = of_nat k"
    "(block_is_free m (of_nat (a + 6 + k)) \<noteq> 0) = g" "block_size m (of_nat (a + 6 + k)) = of_nat j"
    and rest: "blocks m (a + 6 + k + 6 + j) bs"
    using 2(2) by simp_all
  have ap: "apart a a" "apart a (a + 6 + k)" using le by (simp_all add: apart_def)
  have next_i: "of_nat i + (sizeof_block + of_nat j) = (of_nat (a + 6 + k + 6 + j - start) :: u32)"
  proof -
    have "a + 6 + k + 6 + j - start = i + (6 + j)" using i(1) by simp
    then show ?thesis by (simp add: sizeof_block_def)
  qed
  have sum: "of_nat k + (sizeof_block + of_nat j) = (of_nat (k + 6 + j) :: u32)"
    by (simp add: sizeof_block_def)
  show ?case
  proof (cases "f \<and> g")
    case True
    define m1 where "m1 = set_size (of_nat a) (of_nat (k + 6 + j)) m"
    have m1: "m1 x = m x" if "unat x < a \<or> a + 6 \<le> unat x" for x
      using that le by (simp add: m1_def header_frame del: of_nat_add)
    have hd1: "block_is_free m1 (of_nat a) = block_is_free m (of_nat a)"
      "block_size m1 (of_nat a) = of_nat (k + 6 + j)"
      "block_size m1 (of_nat (a + 6 + k)) = of_nat j"
      using hd by (simp_all add: m1_def header_fields [OF ap(1)] header_fields [OF ap(2)] del: of_nat_add)
    have "blocks m1 (a + 6 + k + 6 + j) bs"
      using rest le by (subst blocks_cong [where m' = m]) (auto intro!: m1 dest!: in_header_bounds)
    then have b1: "blocks m1 a ((True, k + 6 + j) # bs)"
      using hd1 hd(1) True by (simp add: add.assoc del: of_nat_add)
    obtain m' where m': "unite_loop (of_nat start) (of_nat hsize) (of_nat a)
        (of_nat (a + 6 + (k + 6 + j) - start)) m1 = Some m'"
      "blocks m' a (merge (True, k + 6 + j) bs)"
      "\<forall>x. \<not> in_header a ((True, k + 6 + j) # bs) (unat x) \<longrightarrow> m' x = m1 x"
      using 2(1) [OF b1] 2(3,4) by auto
    have ad: "a + 6 + (k + 6 + j) - start = a + 6 + k + 6 + j - start" by simp
    have step: "unite_loop (of_nat start) (of_nat hsize) (of_nat a) (of_nat i) m = Some m'"
      using m'(1) True unfolding ad
      by (subst unite_loop.simps)
        (simp add: ui info hd hd1(3) sum m1_def [symmetric] next_i Let_def del: of_nat_add)
    have "m' x = m x" if "\<not> in_header a ((f, k) # (g, j) # bs) (unat x)" for x
      using that m'(3) m1 [of x] by (auto simp: algebra_simps)
    with step m'(2) True show ?thesis unfolding i_def by auto
  next
    case False
    obtain m' where m': "unite_loop (of_nat start) (of_nat hsize) (of_nat (a + 6 + k))
        (of_nat (a + 6 + k + 6 + j - start)) m = Some m'"
      "blocks m' (a + 6 + k) (merge (g, j) bs)"
      "\<forall>x. \<not> in_header (a + 6 + k) ((g, j) # bs) (unat x) \<longrightarrow> m' x = m x"
      using 2(1) [of m "a + 6 + k" g j] 2(2,3,4) by auto
    have step: "unite_loop (of_nat start) (of_nat hsize) (of_nat a) (of_nat i) m = Some m'"
      using m'(1) False
      by (subst unite_loop.simps) (auto simp: ui info hd next_i Let_def simp del: of_nat_add)
    have "m' x = m x" if "unat x < a + 6" for x
      using that m'(3) in_header_bounds [of "a + 6 + k" "(g, j) # bs" "unat x"] by fastforce
    then have "block_is_free m' (of_nat a) = block_is_free m (of_nat a)"
      "block_size m' (of_nat a) = block_size m (of_nat a)"
      using le by (auto intro!: header_cong)
    with step m'(2,3) hd False show ?thesis unfolding i_def by auto
  qed
qed

text \<open>On a chain that fills the heap.\<close>

definition heap_ok :: "process \<Rightarrow> blk list \<Rightarrow> mem \<Rightarrow> bool" where
  "heap_ok p bs m \<longleftrightarrow> bs \<noteq> [] \<and> blocks m (unat (heap_stack_boundary p)) bs \<and>
     span bs = unat (heap_size p) \<and> 0 < unat (heap_stack_boundary p) \<and>
     unat (heap_stack_boundary p) + span bs \<le> 4294967295"

lemma unite_free_blocks_coalesce:
  assumes "heap_ok p bs m"
  shows "\<exists>m'. unite_free_blocks p m = Some m' \<and> heap_ok p (coalesce bs) m' \<and>
    (\<forall>x. \<not> in_header (unat (heap_stack_boundary p)) bs (unat x) \<longrightarrow> m' x = m x)"
proof -
  define a where "a = unat (heap_stack_boundary p)"
  obtain f k cs where bs: "bs = (f, k) # cs" using assms by (cases bs) (auto simp: heap_ok_def)
  have b: "blocks m a ((f, k) # cs)" and sp: "a + 6 + k + span cs = a + unat (heap_size p)"
    and le: "a + unat (heap_size p) \<le> 4294967295"
    using assms by (simp_all add: heap_ok_def a_def bs)
  have start: "heap_stack_boundary p = of_nat a" "heap_size p = of_nat (unat (heap_size p))"
    by (simp_all add: a_def)
  obtain m' where m': "unite_loop (of_nat a) (of_nat (unat (heap_size p))) (of_nat a) (of_nat (a + 6 + k - a)) m = Some m'"
    "blocks m' a (merge (f, k) cs)" "\<forall>x. \<not> in_header a ((f, k) # cs) (unat x) \<longrightarrow> m' x = m x"
    using unite_loop_merge [OF b sp _ le] by auto
  have sz: "block_size m (heap_stack_boundary p) + sizeof_block = of_nat (a + 6 + k - a)"
    using b by (simp add: start(1) sizeof_block_def)
  have "unite_free_blocks p m = Some m'"
    using m'(1) unfolding unite_free_blocks_def sz using start by simp
  moreover have "heap_ok p (coalesce bs) m'"
    using assms m'(2) by (simp add: heap_ok_def bs a_def)
  ultimately show ?thesis using m'(3) by (simp add: bs a_def)
qed

end
