(* ===== verification/HeapMalloc.thy ===== *)
theory HeapMalloc
  imports HeapUnite
begin

text \<open>
  \<open>malloc\<close> and \<open>free\<close> on the list of blocks. What \<open>malloc\<close> needs of paging is the locale
  \<open>page_supply\<close>: while \<open>ready n\<close> holds, \<open>n\<close> more pages can be mapped behind the heap without
  touching it.
\<close>

section \<open>Growing\<close>

definition grown :: "blk list \<Rightarrow> blk list" where
  "grown bs = coalesce (bs @ [(True, 4090)])"

text \<open>The bytes of a free last block, header included.\<close>

fun tail_room :: "blk list \<Rightarrow> nat" where
  "tail_room [] = 0"
| "tail_room [(f, k)] = (if f then 6 + k else 0)"
| "tail_room (b # bs) = tail_room bs"

lemma tail_room_Cons:
  "tail_room (b # bs) = (if bs = [] then if fst b then 6 + snd b else 0 else tail_room bs)"
  by (cases b; cases bs) auto

declare tail_room.simps(2,3) [simp del]

lemma tail_room_merge: "tail_room (b # bs) + 6 + j \<le> tail_room (merge b (bs @ [(True, j)]))"
  by (induction b bs rule: merge.induct) (auto simp: tail_room_Cons split: if_splits)

lemma tail_room_grown: "tail_room bs + 4096 \<le> tail_room (grown bs)"
proof (cases bs)
  case (Cons b cs)
  then show ?thesis using tail_room_merge [of b cs 4090] by (simp add: grown_def)
qed (simp add: grown_def tail_room_Cons)

lemma fit_tail_room: "0 < n \<Longrightarrow> n + 6 \<le> tail_room bs \<Longrightarrow> fit n bs \<noteq> None"
  by (induction bs rule: tail_room.induct) (auto simp: tail_room_Cons split: if_splits)

lemma allocs_grown [simp]: "allocs a (grown bs) = allocs a bs"
  by (simp add: grown_def allocs_append)

lemma span_grown [simp]: "span (grown bs) = span bs + 4096"
  by (simp add: grown_def)

lemma grown_not_Nil [simp]: "grown bs \<noteq> []"
  by (cases bs) (auto simp: grown_def)

definition in_heap :: "process \<Rightarrow> u32 \<Rightarrow> bool" where
  "in_heap p x \<longleftrightarrow> unat (heap_stack_boundary p) \<le> unat x \<and>
     unat x < unat (heap_stack_boundary p) + unat (heap_size p)"

text \<open>The process with one more page.\<close>

definition one_page_more :: "process \<Rightarrow> process" where
  "one_page_more p = p\<lparr>heap_size := heap_size p + PAGE_SIZE\<rparr>"

text \<open>What the two operations promise: \<open>malloc\<close> adds one payload of at least \<open>n\<close> bytes, and the
  payloads in use keep their bytes.\<close>

definition one_more :: "nat \<Rightarrow> blk list \<Rightarrow> blk list \<Rightarrow> nat \<Rightarrow> nat \<Rightarrow> bool" where
  "one_more a bs cs q n \<longleftrightarrow>
     (\<exists>xs ys k. allocs a bs = xs @ ys \<and> allocs a cs = xs @ (q, k) # ys \<and> n \<le> k)"

definition payloads_kept :: "nat \<Rightarrow> blk list \<Rightarrow> mem \<Rightarrow> mem \<Rightarrow> bool" where
  "payloads_kept a bs m m' \<longleftrightarrow>
     (\<forall>q k x. (q, k) \<in> set (allocs a bs) \<longrightarrow> q \<le> unat x \<longrightarrow> unat x < q + k \<longrightarrow> m' x = m x)"

lemma get_free_block_first_fit:
  assumes "heap_ok p bs m" "n \<le> 4294967295"
  defines "a \<equiv> unat (heap_stack_boundary p)"
  shows "get_free_block p (of_nat n) 0 m =
    (case fit n bs of None \<Rightarrow> Some (0, m)
     | Some (off, cs) \<Rightarrow> Some (of_nat (a + off), claim_block (of_nat (a + off)) (of_nat n) m))"
proof -
  have "find_block (of_nat a) (of_nat (unat (heap_size p))) (of_nat n) 0 (of_nat 0) m =
    (case fit n bs of None \<Rightarrow> Some (0, m)
     | Some (off, cs) \<Rightarrow> Some (of_nat (a + 0 + off), claim_block (of_nat (a + 0 + off)) (of_nat n) m))"
    by (rule find_block_first_fit) (use assms in \<open>auto simp: heap_ok_def\<close>)
  then show ?thesis unfolding add_0_right by (simp add: get_free_block_def a_def)
qed

section \<open>Initialisation and release\<close>

lemma initialise_heap_ok:
  assumes "0 < heap_stack_boundary p" "6 \<le> heap_size p"
    and "unat (heap_stack_boundary p) + unat (heap_size p) \<le> 4294967295"
  shows "heap_ok p [(True, unat (heap_size p) - 6)] (initialise_heap p m)"
    and "\<not> in_heap p x \<Longrightarrow> initialise_heap p m x = m x"
proof -
  define a where "a = unat (heap_stack_boundary p)"
  have st: "heap_stack_boundary p = of_nat a" by (simp add: a_def)
  have sz: "6 \<le> unat (heap_size p)" using assms(2) by (simp add: word_le_nat_alt)
  have ap: "apart a a" using assms(3) sz by (simp add: apart_def a_def)
  have ua: "unat (of_nat a :: u32) = a" by (simp add: a_def)
  have "heap_size p - sizeof_block = of_nat (unat (heap_size p) - 6)"
    using sz by (simp add: sizeof_block_def)
  moreover have "0 < a" using assms(1) by (simp add: a_def word_less_nat_alt)
  ultimately show "heap_ok p [(True, unat (heap_size p) - 6)] (initialise_heap p m)"
    using assms(3) sz ua by (simp add: heap_ok_def initialise_heap_def st header_fields [OF ap] Let_def)
  show "initialise_heap p m x = m x" if "\<not> in_heap p x"
  proof -
    have "unat x < a \<or> a + 6 \<le> unat x" using that sz by (auto simp: in_heap_def a_def)
    then show ?thesis using ap by (simp add: initialise_heap_def header_frame Let_def st apart_def)
  qed
qed

lemma allocs_split:
  "(q, k) \<in> set (allocs a bs) \<Longrightarrow>
     \<exists>bs1 bs2. bs = bs1 @ (False, k) # bs2 \<and> q = a + span bs1 + 6"
proof (induction bs arbitrary: a rule: span.induct)
  case (2 f j bs)
  show ?case
  proof (cases "\<not> f \<and> q = a + 6 \<and> k = j")
    case True
    then show ?thesis by (intro exI [of _ "[]"] exI [of _ bs]) simp
  next
    case False
    then obtain bs1 bs2 where "bs = bs1 @ (False, k) # bs2" "q = a + 6 + j + span bs1 + 6"
      using 2(1) [of "a + 6 + j"] 2(2) by (auto split: if_splits)
    then show ?thesis by (intro exI [of _ "(f, j) # bs1"] exI [of _ bs2]) simp
  qed
qed simp

lemma set_is_free_blocks:
  assumes b: "blocks m a (bs1 @ (f, k) # bs2)" and le: "a + span (bs1 @ (f, k) # bs2) \<le> 4294967295"
  defines "m' \<equiv> set_is_free (of_nat (a + span bs1)) 1 m"
  shows "blocks m' a (bs1 @ (True, k) # bs2)"
    and "unat x < a + span bs1 \<or> a + span bs1 + 6 \<le> unat x \<Longrightarrow> m' x = m x"
proof -
  define h where "h = a + span bs1"
  have h: "h + 6 + k + span bs2 \<le> 4294967295" using le by (simp add: h_def)
  have ap: "apart h h" using h by (simp add: apart_def)
  have fr: "m' x = m x" if "unat x < h \<or> h + 6 \<le> unat x" for x
    using that h by (simp add: m'_def h_def [symmetric] header_frame)
  have "blocks m' a bs1 \<longleftrightarrow> blocks m a bs1" "blocks m' (h + 6 + k) bs2 \<longleftrightarrow> blocks m (h + 6 + k) bs2"
    using h by (intro blocks_cong; auto simp: h_def intro!: fr [unfolded h_def] dest!: in_header_bounds)+
  then show "blocks m' a (bs1 @ (True, k) # bs2)"
    using b by (simp add: blocks_append m'_def h_def [symmetric] header_fields [OF ap])
  show "unat x < a + span bs1 \<or> a + span bs1 + 6 \<le> unat x \<Longrightarrow> m' x = m x"
    using fr by (simp add: h_def)
qed

lemma free_block_releases:
  assumes ok: "heap_ok p (bs1 @ (False, k) # bs2) m"
  defines "a \<equiv> unat (heap_stack_boundary p)"
  shows "\<exists>m'. free_block p (of_nat (a + span bs1 + 6)) m = Some m' \<and>
    heap_ok p (coalesce (bs1 @ (True, k) # bs2)) m' \<and>
    payloads_kept a (bs1 @ (True, k) # bs2) m m' \<and> (\<forall>x. \<not> in_heap p x \<longrightarrow> m' x = m x)"
proof -
  define m1 where "m1 = set_is_free (of_nat (a + span bs1)) 1 m"
  have hdr: "of_nat (a + span bs1 + 6) - sizeof_block = (of_nat (a + span bs1) :: u32)"
    by (simp add: sizeof_block_def)
  have b: "blocks m a (bs1 @ (False, k) # bs2)" "a + span (bs1 @ (False, k) # bs2) \<le> 4294967295"
    using ok by (simp_all add: heap_ok_def a_def)
  note m1 = set_is_free_blocks [OF b, folded m1_def]
  have "heap_ok p (bs1 @ (True, k) # bs2) m1" using ok m1(1) by (simp add: heap_ok_def a_def)
  then obtain m' where m': "unite_free_blocks p m1 = Some m'"
    "heap_ok p (coalesce (bs1 @ (True, k) # bs2)) m'"
    "\<forall>x. \<not> in_header a (bs1 @ (True, k) # bs2) (unat x) \<longrightarrow> m' x = m1 x"
    unfolding a_def using unite_free_blocks_coalesce by blast
  have "payloads_kept a (bs1 @ (True, k) # bs2) m m'"
    unfolding payloads_kept_def
  proof (intro allI impI)
    fix q l and x :: u32
    assume x: "(q, l) \<in> set (allocs a (bs1 @ (True, k) # bs2))" "q \<le> unat x" "unat x < q + l"
    have "\<not> in_header a (bs1 @ (True, k) # bs2) (unat x)" using allocs_not_header [OF x] .
    with m'(3) have "m' x = m1 x" and "unat x < a + span bs1 \<or> a + span bs1 + 6 \<le> unat x"
      by (auto simp: in_header_append)
    with m1(2) show "m' x = m x" by simp
  qed
  moreover have "m' x = m x" if "\<not> in_heap p x" for x
  proof -
    have out: "unat x < a \<or> a + span (bs1 @ (True, k) # bs2) \<le> unat x"
      using that ok by (auto simp: in_heap_def heap_ok_def a_def)
    then have "\<not> in_header a (bs1 @ (True, k) # bs2) (unat x)" using in_header_bounds by fastforce
    then have "m' x = m1 x" using m'(3) by blast
    also have "\<dots> = m x" by (rule m1(2)) (use out in auto)
    finally show ?thesis .
  qed
  ultimately show ?thesis using m'(1,2) by (simp only: free_block_def hdr m1_def [symmetric]) blast
qed

lemma merge_twice:
  "merge b (xs @ (True, n) # (True, j) # ys) = merge b (xs @ (True, n + 6 + j) # ys)"
proof (induction xs arbitrary: b)
  case Nil
  then show ?case by (cases b) (simp add: add.assoc)
next
  case (Cons c xs)
  then show ?case by (cases b; cases c) simp
qed

text \<open>Cutting a block and merging the halves again is the identity.\<close>

lemma coalesce_carve:
  assumes "coalesced (bs1 @ (True, k) # bs2)" "n \<le> k"
  shows "coalesce (bs1 @ (if n + 6 \<le> k then [(True, n), (True, k - n - 6)] else [(True, k)]) @ bs2)
    = bs1 @ (True, k) # bs2"
proof -
  have "coalesce (bs1 @ (True, n) # (True, k - n - 6) # bs2) = coalesce (bs1 @ (True, k) # bs2)"
    if "n + 6 \<le> k"
    using that merge_twice [of _ "tl bs1" n "k - n - 6" bs2] by (cases bs1) auto
  then show ?thesis using coalesce_id [OF assms(1)] by simp
qed

section \<open>The interface to paging\<close>

locale page_supply =
  fixes ready :: "nat \<Rightarrow> process \<Rightarrow> 'a paging_scheme \<Rightarrow> bool"
  assumes give: "ready (Suc n) p s \<Longrightarrow>
      \<exists>t. alloc_new_page p s = Some (Ret (heap_size p + heap_stack_boundary p) t) \<and>
        ready n (one_page_more p) t \<and> (\<forall>x. in_heap p x \<longrightarrow> mem t x = mem s x)"
    and keep: "ready n p s \<Longrightarrow> (\<And>x. \<not> in_heap p x \<Longrightarrow> m x = mem s x) \<Longrightarrow> ready n p (s\<lparr>mem := m\<rparr>)"
    and room: "ready n p s \<Longrightarrow>
      unat (heap_stack_boundary p) + unat (heap_size p) + 4096 * n \<le> 4294967295"
begin

lemma malloc_loop_fits:
  assumes r: "ready N p s" and ok: "heap_ok p bs (mem s)" and n: "6 \<le> n"
    and f: "fit n bs = Some (off, cs)"
  shows "\<exists>q p' t cs N'. malloc_loop (of_nat n) 0 p s = Some (Ret (of_nat q, p') t) \<and>
    heap_stack_boundary p' = heap_stack_boundary p \<and> unat (heap_size p') + 4096 * N' = unat (heap_size p) + 4096 * N \<and>
    ready N' p' t \<and> heap_ok p' cs (mem t) \<and>
    one_more (unat (heap_stack_boundary p)) bs cs q n \<and>
    payloads_kept (unat (heap_stack_boundary p)) bs (mem s) (mem t)"
proof -
  define a where "a = unat (heap_stack_boundary p)"
  define m where "m = claim_block (of_nat (a + off)) (of_nat n) (mem s)"
  have b: "blocks (mem s) a bs" "0 < a" "a + span bs \<le> 4294967295"
    using ok by (simp_all add: heap_ok_def a_def)
  have le: "off + 6 + n \<le> span bs" using fit_Some [OF f] by auto
  note fb = fit_blocks [OF b(1) f n b(3,2), folded m_def]
  have found: "get_free_block p (of_nat n) 0 (mem s) = Some (of_nat (a + off), m)"
    using get_free_block_first_fit [OF ok, of n] le b(3) by (simp add: f m_def a_def)
  have "unat (of_nat (a + off) :: u32) = a + off" using le b by (intro unat_of_nat_32) simp
  then have nz: "(of_nat (a + off) :: u32) \<noteq> 0" using b(2) by (metis unat_0 add_is_0 less_irrefl)
  have "malloc_loop (of_nat n) 0 p s = Some (Ret (of_nat (a + off + 6), p) (s\<lparr>mem := m\<rparr>))"
    using nz by (subst malloc_loop.simps) (simp add: found sizeof_block_def)
  moreover have "ready N p (s\<lparr>mem := m\<rparr>)"
    by (rule keep [OF r]) (use ok fb(2) in \<open>auto simp: in_heap_def heap_ok_def a_def\<close>)
  moreover have "heap_ok p cs m"
    using ok fb(1) span_fit [OF f] fit_Some [OF f] by (auto simp: heap_ok_def a_def carve_def)
  moreover have "one_more a bs cs (a + off + 6) n"
    using allocs_fit [OF f, of a] by (simp add: one_more_def)
  moreover have "payloads_kept a bs (mem s) m"
    using fb(3) by (simp add: payloads_kept_def)
  ultimately show ?thesis
    unfolding a_def [symmetric] by (intro exI [of _ "a + off + 6"] exI [of _ p] exI [of _ "s\<lparr>mem := m\<rparr>"] exI [of _ cs] exI [of _ N]) simp
qed

lemma malloc_loop_grows:
  assumes r: "ready N p s" and ok: "heap_ok p bs (mem s)" and f: "fit n bs = None"
    and n: "n \<le> 4294967295" and g: "grow_heap p s = Some (Ret p' s')"
  shows "malloc_loop (of_nat n) 0 p s = malloc_loop (of_nat n) 0 p' s'"
  using get_free_block_first_fit [OF ok n] by (subst malloc_loop.simps) (simp add: f g)

lemma heap_ok_keep:
  assumes "ready n p s" "heap_ok p bs (mem s)"
    and "\<And>x. unat x < unat (heap_stack_boundary p) \<or>
           unat (heap_stack_boundary p) + span bs \<le> unat x \<Longrightarrow> m x = mem s x"
  shows "ready n p (s\<lparr>mem := m\<rparr>)"
  by (rule keep [OF assms(1)]) (use assms(2,3) in \<open>auto simp: in_heap_def heap_ok_def\<close>)

lemma grow_heap_grown:
  assumes r: "ready (Suc n) p s" and ok: "heap_ok p bs (mem s)"
  shows "\<exists>t. grow_heap p s = Some (Ret (one_page_more p) t) \<and> ready n (one_page_more p) t \<and>
    heap_ok (one_page_more p) (grown bs) (mem t) \<and>
    payloads_kept (unat (heap_stack_boundary p)) bs (mem s) (mem t)"
proof -
  define a where "a = unat (heap_stack_boundary p)"
  define p' where "p' = one_page_more p"
  define e where "e = a + span bs"
  have b: "blocks (mem s) a bs" "span bs = unat (heap_size p)" "0 < a" "bs \<noteq> []"
    using ok by (simp_all add: heap_ok_def a_def)
  have le: "e + 4096 \<le> 4294967295" using room [OF r] by (simp add: a_def e_def b(2))
  have p': "unat (heap_stack_boundary p') = a" "unat (heap_size p') = span bs + 4096"
    using le by (simp_all add: p'_def one_page_more_def a_def e_def b(2) PAGE_SIZE_def unat_add_no_wrap)
  obtain s1 where s1: "alloc_new_page p s = Some (Ret (heap_size p + heap_stack_boundary p) s1)"
    "ready n p' s1" "\<forall>x. in_heap p x \<longrightarrow> mem s1 x = mem s x"
    using give [OF r] by (auto simp: p'_def)
  define m1 where "m1 = set_is_free (of_nat e) 1 (set_size (of_nat e) (PAGE_SIZE - sizeof_block) (mem s1))"
  have info: "heap_stack_boundary p + heap_size p = of_nat e"
    by (simp add: e_def a_def b(2))
  have ap: "apart e e" using le by (simp add: apart_def)
  have m1: "m1 x = mem s1 x" if "unat x < e \<or> e + 6 \<le> unat x" for x
    using that le by (simp add: m1_def header_frame)
  have same: "m1 x = mem s x" if "a \<le> unat x" "unat x < e" for x
    using that s1(3) m1 [of x] by (auto simp: in_heap_def a_def e_def b(2))
  have "blocks m1 a bs"
    using b(1) le by (subst blocks_cong [where m' = "mem s"])
      (auto simp: e_def intro!: same dest!: in_header_bounds)
  moreover have "blocks m1 e [(True, 4090)]"
    by (simp add: m1_def header_fields [OF ap] PAGE_SIZE_def sizeof_block_def)
  ultimately have "heap_ok p' (bs @ [(True, 4090)]) m1"
    using p' b(3) le by (simp add: heap_ok_def blocks_append e_def)
  then obtain m2 where m2: "unite_free_blocks p' m1 = Some m2" "heap_ok p' (grown bs) m2"
    "\<forall>x. \<not> in_header a (bs @ [(True, 4090)]) (unat x) \<longrightarrow> m2 x = m1 x"
    using unite_free_blocks_coalesce [of p' "bs @ [(True, 4090)]" m1] p'(1) by (auto simp: grown_def)
  have run: "grow_heap p s = Some (Ret p' (s1\<lparr>mem := m2\<rparr>))"
    by (simp add: grow_heap_def s1(1) info Let_def m1_def [symmetric] p'_def [unfolded one_page_more_def, symmetric] m2(1))
  have "ready n p' (s1\<lparr>mem := m2\<rparr>)"
  proof (rule keep [OF s1(2)])
    fix x assume out: "\<not> in_heap p' x"
    then have "\<not> in_header a (bs @ [(True, 4090)]) (unat x)"
      using p' by (auto simp: in_heap_def dest!: in_header_bounds)
    then show "m2 x = mem s1 x" using out m2(3) p' m1 [of x] by (auto simp: in_heap_def e_def)
  qed
  moreover have "m2 x = mem s x" if "(q, k) \<in> set (allocs a bs)" "q \<le> unat x" "unat x < q + k" for q k x
  proof -
    have "a + 6 \<le> q" "q + k \<le> e" using allocs_bounds [OF that(1)] by (simp_all add: e_def)
    moreover have "\<not> in_header a (bs @ [(True, 4090)]) (unat x)"
      using that allocs_not_header [of q k a "bs @ [(True, 4090)]"] by (simp add: allocs_append)
    ultimately show ?thesis using m2(3) same that by simp
  qed
  ultimately show ?thesis using run m2(2) by (auto simp: p'_def a_def payloads_kept_def)
qed

text \<open>\<open>malloc\<close> returns once the free end of the heap and the pages it can get are enough.\<close>

lemma malloc_loop_allocates:
  assumes "ready N p s" "heap_ok p bs (mem s)" "6 \<le> n" "n + 6 \<le> tail_room bs + 4096 * N"
  shows "\<exists>q p' t cs N'. malloc_loop (of_nat n) 0 p s = Some (Ret (of_nat q, p') t) \<and>
    heap_stack_boundary p' = heap_stack_boundary p \<and> unat (heap_size p') + 4096 * N' = unat (heap_size p) + 4096 * N \<and>
    ready N' p' t \<and> heap_ok p' cs (mem t) \<and>
    one_more (unat (heap_stack_boundary p)) bs cs q n \<and>
    payloads_kept (unat (heap_stack_boundary p)) bs (mem s) (mem t)"
  using assms
proof (induction N arbitrary: p s bs)
  case 0
  then obtain off cs where f: "fit n bs = Some (off, cs)" using fit_tail_room [of n bs] by auto
  show ?case using malloc_loop_fits [OF 0(1,2,3) f] by blast
next
  case (Suc N)
  show ?case
  proof (cases "fit n bs")
    case (Some r)
    then show ?thesis using malloc_loop_fits [OF Suc(2,3,4)] by (cases r) blast
  next
    case None
    define p' where "p' = one_page_more p"
    obtain s' where s': "grow_heap p s = Some (Ret p' s')" "ready N p' s'"
      "heap_ok p' (grown bs) (mem s')" "payloads_kept (unat (heap_stack_boundary p)) bs (mem s) (mem s')"
      using grow_heap_grown [OF Suc(2,3)] by (auto simp: p'_def)
    have st: "heap_stack_boundary p' = heap_stack_boundary p" by (simp add: p'_def one_page_more_def)
    have "n + 6 \<le> tail_room (grown bs) + 4096 * N" using tail_room_grown [of bs] Suc(5) by simp
    then obtain q p'' t cs N' where r: "malloc_loop (of_nat n) 0 p' s' = Some (Ret (of_nat q, p'') t)"
      "heap_stack_boundary p'' = heap_stack_boundary p" "unat (heap_size p'') + 4096 * N' = unat (heap_size p') + 4096 * N"
      "ready N' p'' t" "heap_ok p'' cs (mem t)"
      "one_more (unat (heap_stack_boundary p)) (grown bs) cs q n"
      "payloads_kept (unat (heap_stack_boundary p)) (grown bs) (mem s') (mem t)"
      using Suc(1) [OF s'(2,3) Suc(4)] by (auto simp: st)
    have "tail_room bs \<le> span bs" by (induction bs rule: tail_room.induct) (auto simp: tail_room_Cons)
    then have le: "n \<le> 4294967295"
      using Suc(5) room [OF Suc(2)] Suc(3) by (simp add: heap_ok_def)
    have "malloc_loop (of_nat n) 0 p s = Some (Ret (of_nat q, p'') t)"
      using malloc_loop_grows [OF Suc(2,3) None _ s'(1)] r(1) le by simp
    moreover have "one_more (unat (heap_stack_boundary p)) bs cs q n"
      using r(6) by (simp add: one_more_def)
    moreover have "payloads_kept (unat (heap_stack_boundary p)) bs (mem s) (mem t)"
      using r(7) s'(4) by (simp add: payloads_kept_def)
    moreover have "unat (heap_size p') = unat (heap_size p) + 4096"
      using room [OF Suc(2)] by (simp add: p'_def one_page_more_def PAGE_SIZE_def unat_add_no_wrap)
    then have "unat (heap_size p'') + 4096 * N' = unat (heap_size p) + 4096 * Suc N" using r(3) by simp
    ultimately show ?thesis using r(2,4,5) by blast
  qed
qed

end

end
