(* ===== verification/HeapAligned.thy ===== *)
theory HeapAligned
  imports HeapMalloc
begin

text \<open>
  The aligned case of \<open>get_free_block\<close>. \<open>next_page a\<close> is the first page boundary at which a payload
  can start in a free block at \<open>a\<close> when the rest before it stays a block of its own. If the request
  fits behind that boundary, the block is cut in two or three; if the free block has no page boundary
  at all, the loop over aligned addresses goes round the address space for ever.
\<close>

definition next_page :: "nat \<Rightarrow> nat" where
  "next_page a = page_up (a + 13)"

lemma next_page: "a + 12 < next_page a" "next_page a \<le> a + 12 + 4096" "next_page a mod 4096 = 0"
  "4096 dvd next_page a"
  using page_up_ge [of "a + 13"] page_up_lt [of "a + 13"] page_up_mod [of "a + 13"]
  by (simp_all add: next_page_def mod_eq_0_iff_dvd)

definition carve_aligned :: "nat \<Rightarrow> nat \<Rightarrow> nat \<Rightarrow> blk list" where
  "carve_aligned a n k =
     (let r = a + 6 + k - next_page a
      in (True, next_page a - a - 12) #
         (if n + 6 < r then [(False, n), (True, r - n - 6)] else [(False, r)]))"

section \<open>One turn of the loop\<close>

lemma find_aligned_skip:
  assumes "n \<le> be - x" "x - info \<le> 12"
  shows "find_aligned info n be x m = find_aligned info n be (x + 0x1000) m"
  using assms by (subst find_aligned.simps) (simp add: sizeof_block_def)

lemma find_aligned_take:
  assumes "n \<le> be - x" "\<not> x - info \<le> 12" "divide_block info (x - info - 12) m = (q, m')" "q \<noteq> 0"
  shows "find_aligned info n be x m = Some (Some (q, claim_aligned q n be m'))"
  using assms by (subst find_aligned.simps) (simp add: sizeof_block_def)

lemma find_aligned_miss:
  assumes "n \<le> be - x" "\<not> x - info \<le> 12" "divide_block info (x - info - 12) m = (0, m)"
  shows "find_aligned info n be x m = find_aligned info n be (x + 0x1000) m"
  using assms by (subst find_aligned.simps) (simp add: sizeof_block_def)

text \<open>The first candidate is the boundary behind the header; it is \<open>next_page\<close> or the one before.\<close>

definition first_candidate :: "nat \<Rightarrow> nat" where
  "first_candidate a = ((a + 6) div 4096 + 1) * 4096"

lemma first_candidate_cases:
  "first_candidate a = next_page a \<or> (first_candidate a \<le> a + 12 \<and> a + 6 < first_candidate a \<and>
     next_page a = first_candidate a + 4096)"
proof -
  define q r where "q = (a + 6) div 4096" and "r = (a + 6) mod 4096"
  have a: "a + 6 = 4096 * q + r" "r < 4096" by (simp_all add: q_def r_def)
  have fc: "first_candidate a = (q + 1) * 4096" by (simp add: first_candidate_def q_def)
  show ?thesis
  proof (cases "r + 6 < 4096")
    case True
    have "(a + 13 + 4095) div 4096 = q + 1" using a True by (intro div_nat_eqI) auto
    then show ?thesis by (simp add: fc next_page_def page_up_def)
  next
    case False
    have "(a + 13 + 4095) div 4096 = q + 2" using a False by (intro div_nat_eqI) auto
    then have "next_page a = (q + 2) * 4096" by (simp add: next_page_def page_up_def)
    then show ?thesis using a False by (simp add: fc)
  qed
qed

lemma first_candidate_word:
  assumes "a + 6 \<le> 4294967295"
  shows "push_bit 12 (drop_bit 12 (of_nat a + sizeof_block) + 1) = (of_nat (first_candidate a) :: u32)"
proof -
  have u: "unat (of_nat (a + 6) :: u32) = a + 6" using assms by (intro unat_of_nat_32) simp
  have "drop_bit 12 (of_nat a + sizeof_block) = (of_nat ((a + 6) div 4096) :: u32)"
    using assms unfolding sizeof_block_add
    by (simp add: word_unat_eq_iff drop_bit_eq_div unat_div u unat_of_nat_32 del: of_nat_add)
  then show ?thesis by (simp add: push_bit_eq_mult first_candidate_def)
qed

lemma word_diff_of_nat: "b \<le> a \<Longrightarrow> of_nat a - of_nat b = (of_nat (a - b) :: u32)"
  by simp

lemma word_le_of_nat: "a \<le> 4294967295 \<Longrightarrow> b \<le> 4294967295 \<Longrightarrow> (of_nat a :: u32) \<le> of_nat b \<longleftrightarrow> a \<le> b"
  by (simp add: word_le_nat_alt unat_of_nat_32)

lemma find_aligned_hit:
  assumes sz: "block_size m (of_nat a) = of_nat k" and le: "a + 6 + k \<le> 4294967295"
    and fits: "next_page a + n \<le> a + 6 + k" and a: "0 < a" and n: "0 < n"
  defines "X \<equiv> next_page a"
  defines "m1 \<equiv> set_size (of_nat a) (of_nat (X - a - 12)) (set_size (of_nat (X - 6)) (of_nat (a + 6 + k - X)) m)"
  shows "find_aligned (of_nat a) (of_nat n) (of_nat (a + 6 + k)) (of_nat (first_candidate a)) m =
    Some (Some (of_nat (X - 6), claim_aligned (of_nat (X - 6)) (of_nat n) (of_nat (a + 6 + k)) m1))"
proof -
  have X: "a + 12 < X" "X + n \<le> a + 6 + k" using next_page fits by (simp_all add: X_def)
  have hit: "find_aligned (of_nat a) (of_nat n) (of_nat (a + 6 + k)) (of_nat X) m =
    Some (Some (of_nat (X - 6), claim_aligned (of_nat (X - 6)) (of_nat n) (of_nat (a + 6 + k)) m1))"
  proof (rule find_aligned_take)
    show "(of_nat n :: u32) \<le> of_nat (a + 6 + k) - of_nat X"
      using X le by (subst word_diff_of_nat) (simp_all add: word_le_of_nat del: of_nat_diff)
    have d: "(of_nat X - of_nat a :: u32) = of_nat (X - a)" using X by (intro word_diff_of_nat) simp
    then show "\<not> (of_nat X - of_nat a :: u32) \<le> 12"
      using X le by (simp add: word_le_nat_alt unat_of_nat_32 del: of_nat_diff)
    have e: "(of_nat X - of_nat a - 12 :: u32) = of_nat (X - a - 12)"
      unfolding d using X word_diff_of_nat [of 12 "X - a"] by (simp del: of_nat_diff)
    have s: "X - a - 12 + 6 \<le> k" "6 \<le> k" "X - a - 12 \<le> k" using X n by simp_all
    have r: "a + 6 + (X - a - 12) = X - 6" "k - (X - a - 12) - 6 = a + 6 + k - X" using X by simp_all
    show "divide_block (of_nat a) (of_nat X - of_nat a - 12) m = (of_nat (X - 6), m1)"
      unfolding e divide_block_eq [OF sz s(2) le s(3) a] by (simp only: s(1) if_True r m1_def)
    have "unat (of_nat (X - 6) :: u32) = X - 6" using X le by (intro unat_of_nat_32) simp
    then have "0 < unat (of_nat (X - 6) :: u32)" using X by simp
    then show "(of_nat (X - 6) :: u32) \<noteq> 0" by (simp only: unat_gt_0 not_False_eq_True)
  qed
  from first_candidate_cases [of a] show ?thesis
  proof
    assume "first_candidate a = next_page a"
    then show ?thesis using hit by (simp add: X_def)
  next
    assume c: "first_candidate a \<le> a + 12 \<and> a + 6 < first_candidate a \<and> next_page a = first_candidate a + 4096"
    define Y where "Y = first_candidate a"
    have Y: "Y \<le> a + 12" "a + 6 < Y" "X = Y + 4096" using c by (simp_all add: Y_def X_def)
    have "find_aligned (of_nat a) (of_nat n) (of_nat (a + 6 + k)) (of_nat Y) m =
        find_aligned (of_nat a) (of_nat n) (of_nat (a + 6 + k)) (of_nat Y + 0x1000) m"
    proof (rule find_aligned_skip)
      show "(of_nat n :: u32) \<le> of_nat (a + 6 + k) - of_nat Y"
        using X Y le by (subst word_diff_of_nat) (simp_all add: word_le_of_nat del: of_nat_diff)
      show "(of_nat Y - of_nat a :: u32) \<le> 12"
        using Y word_le_of_nat [of "Y - a" 12] by (subst word_diff_of_nat) (simp_all del: of_nat_diff)
    qed
    also have "(of_nat Y + 0x1000 :: u32) = of_nat X" by (simp add: Y)
    finally show ?thesis using hit by (simp add: Y_def)
  qed
qed

section \<open>The blocks afterwards\<close>

lemma claim_aligned_blocks:
  assumes b: "blocks m a ((True, k) # bs)" and room: "a + 6 + k + span bs \<le> 4294967295"
    and fits: "next_page a + n \<le> a + 6 + k" and n: "0 < n"
  defines "X \<equiv> next_page a"
  defines "m1 \<equiv> set_size (of_nat a) (of_nat (X - a - 12)) (set_size (of_nat (X - 6)) (of_nat (a + 6 + k - X)) m)"
  defines "m' \<equiv> claim_aligned (of_nat (X - 6)) (of_nat n) (of_nat (a + 6 + k)) m1"
  shows "blocks m' a (carve_aligned a n k @ bs)"
    and "unat x < a \<or> a + 6 + k \<le> unat x \<Longrightarrow> m' x = m x"
proof -
  define r where "r = a + 6 + k - X"
  have X: "a + 12 < X" "X + n \<le> a + 6 + k" "a + 6 + k = X + r"
    using next_page [of a] fits by (simp_all add: X_def r_def)
  have ap: "apart a a" "apart (X - 6) (X - 6)" "apart a (X - 6)" "apart (X - 6) a"
    using X(1,2) room unfolding apart_def by linarith+
  have ap2: "apart (X + n) (X + n)" "apart (X + n) (X - 6)" "apart (X + n) a" "apart (X - 6) (X + n)"
    if "n + 6 < r" using X room that n unfolding apart_def by linarith+
  have ne: "a \<noteq> X - 6" "X - 6 \<noteq> a" "X + n \<noteq> X - 6" "X - 6 \<noteq> X + n" "X + n \<noteq> a"
    using X(1) n by auto
  define m2 where "m2 = set_is_free (of_nat (X - 6)) 0 m1"
  define m3 where "m3 = set_size (of_nat (X - 6)) (of_nat n)
    (set_size (of_nat (X + n)) (of_nat (r - n - 6)) (set_is_free (of_nat (X + n)) 1 m2))"
  have sz2: "block_size m2 (of_nat (X - 6)) = of_nat r"
    unfolding m2_def m1_def r_def [symmetric]
    by (simp add: header_fields [OF ap(2)] header_fields [OF ap(3)] ne del: of_nat_diff)
  have cmp: "(of_nat n + sizeof_block < (of_nat r :: u32)) \<longleftrightarrow> n + 6 < r"
    unfolding sizeof_block_add using X room by (simp add: word_less_nat_alt unat_of_nat_32 del: of_nat_add)
  have info2: "of_nat (X - 6) + sizeof_block + of_nat n = (of_nat (X + n) :: u32)"
    using X by (simp add: sizeof_block_def of_nat_diff)
  have sz3: "(of_nat (a + 6 + k) - of_nat (X + n) - sizeof_block :: u32) = of_nat (r - n - 6)" if "n + 6 < r"
    using that X(3) by (simp add: sizeof_block_def of_nat_diff)
  have m': "m' = (if n + 6 < r then m3 else m2)"
    unfolding m'_def claim_aligned_def m2_def [symmetric] Let_def sz2 cmp info2 using sz3
    by (auto simp: m3_def simp del: of_nat_add of_nat_diff)
  have f1: "m1 x = m x" if "unat x < a \<or> a + 6 \<le> unat x" "unat x < X - 6 \<or> X \<le> unat x" for x
    using that X room by (simp add: m1_def header_frame del: of_nat_diff of_nat_add)
  have f2: "m2 x = m1 x" if "unat x < X - 6 \<or> X \<le> unat x" for x
    using that X room by (simp add: m2_def header_frame del: of_nat_diff)
  have f3: "m3 x = m2 x" if "n + 6 < r" "unat x < X - 6 \<or> X + n + 6 \<le> unat x" for x
  proof -
    have "X + n + 6 \<le> 4294967296" "unat x < X + n \<or> X + n + 6 \<le> unat x" using that X room by auto
    moreover have "X - 6 + 6 \<le> 4294967296" "unat x < X - 6 \<or> X - 6 + 6 \<le> unat x" using that X room by auto
    ultimately show ?thesis by (simp add: m3_def header_frame del: of_nat_diff of_nat_add)
  qed
  show out: "m' x = m x" if "unat x < a \<or> a + 6 + k \<le> unat x" for x
    using that X f1 [of x] f2 [of x] f3 [of x] by (auto simp: m')
  have rest: "blocks m' (a + 6 + k) bs"
  proof -
    have "blocks m' (a + 6 + k) bs \<longleftrightarrow> blocks m (a + 6 + k) bs"
      by (rule blocks_cong) (use room in \<open>auto intro!: out dest!: in_header_bounds\<close>)
    then show ?thesis using b by simp
  qed
  have b1: "block_is_free m1 (of_nat a) = block_is_free m (of_nat a)" "block_size m1 (of_nat a) = of_nat (X - a - 12)"
    unfolding m1_def by (simp_all add: header_fields [OF ap(1)] header_fields [OF ap(4)] ne del: of_nat_diff)
  have b2: "block_is_free m2 (of_nat a) = block_is_free m (of_nat a)" "block_size m2 (of_nat a) = of_nat (X - a - 12)"
    "block_is_free m2 (of_nat (X - 6)) = 0"
    using b1 by (simp_all add: m2_def header_fields [OF ap(4)] header_fields [OF ap(2)] ne del: of_nat_diff)
  have ad: "a + 6 + (X - a - 12) = X - 6" "X - 6 + 6 + n = X + n" "X - 6 + 6 + r = a + 6 + k" using X by simp_all
  show "blocks m' a (carve_aligned a n k @ bs)"
  proof (cases "n + 6 < r")
    case True
    note ap2 = ap2 [OF True]
    have b3: "block_is_free m3 (of_nat a) = block_is_free m (of_nat a)" "block_size m3 (of_nat a) = of_nat (X - a - 12)"
      "block_is_free m3 (of_nat (X - 6)) = 0" "block_size m3 (of_nat (X - 6)) = of_nat n"
      "block_is_free m3 (of_nat (X + n)) = 1" "block_size m3 (of_nat (X + n)) = of_nat (r - n - 6)"
      using b2 unfolding m3_def
      by (simp_all add: header_fields [OF ap(4)] header_fields [OF ap(2)] header_fields [OF ap2(1)]
          header_fields [OF ap2(2)] header_fields [OF ap2(3)] header_fields [OF ap2(4)]
          ne del: of_nat_diff of_nat_add)
    have "X + n + 6 + (r - n - 6) = a + 6 + k" using True X(3) by simp
    moreover have "carve_aligned a n k = [(True, X - a - 12), (False, n), (True, r - n - 6)]"
      using True by (simp add: carve_aligned_def Let_def X_def r_def)
    ultimately show ?thesis
      using b3 b rest True ad by (simp add: m' del: of_nat_diff of_nat_add)
  next
    case False
    then have "carve_aligned a n k = [(True, X - a - 12), (False, r)]"
      by (simp add: carve_aligned_def Let_def X_def r_def)
    then show ?thesis using b2 sz2 b rest False ad by (simp add: m' del: of_nat_diff of_nat_add)
  qed
qed

section \<open>The search\<close>

text \<open>Blocks that are in use or too small are passed over.\<close>

lemma find_block_skip:
  assumes "blocks m (start + i) bs" "i + span bs < hsize" "start + hsize \<le> 4294967295"
    "n \<le> 4294967295" "\<forall>(f, j) \<in> set bs. f \<longrightarrow> j < n"
  shows "find_block (of_nat start) (of_nat hsize) (of_nat n) al (of_nat i) m =
    find_block (of_nat start) (of_nat hsize) (of_nat n) al (of_nat (i + span bs)) m"
  using assms(1,2,5)
proof (induction bs arbitrary: i rule: span.induct)
  case (2 f k bs)
  have k: "k \<le> 4294967295" and i: "(of_nat i :: u32) < of_nat hsize"
    using 2(3) assms(3) by (auto simp: word_less_nat_alt unat_of_nat_32)
  have addr: "of_nat start + of_nat i = (of_nat (start + i) :: u32)" by simp
  have hd: "(block_is_free m (of_nat (start + i)) \<noteq> 0) = f" "block_size m (of_nat (start + i)) = of_nat k"
    using 2(2) by simp_all
  have skip: "\<not> (f \<and> (of_nat n :: u32) \<le> of_nat k)"
    using 2(4) k assms(4) by (auto simp: word_le_of_nat)
  have next_i: "of_nat i + (sizeof_block + of_nat k) = (of_nat (i + 6 + k) :: u32)"
    by (simp add: sizeof_block_def)
  have "find_block (of_nat start) (of_nat hsize) (of_nat n) al (of_nat i) m =
      find_block (of_nat start) (of_nat hsize) (of_nat n) al (of_nat (i + 6 + k)) m"
    using skip by (subst find_block.simps)
      (simp add: i addr hd next_i Let_def del: of_nat_add de_Morgan_conj not_le)
  also have "\<dots> = find_block (of_nat start) (of_nat hsize) (of_nat n) al (of_nat (i + 6 + k + span bs)) m"
    by (rule 2(1)) (use 2(2,3,4) in \<open>simp_all add: add.assoc\<close>)
  finally show ?case by (simp add: add.assoc)
qed simp

text \<open>At the first block that is large enough, the aligned search is the loop over its boundaries.\<close>

lemma find_block_aligned:
  assumes ok: "heap_ok p (bs1 @ (True, k) # bs2) m" and al: "al \<noteq> 0"
    and first: "\<forall>(f, j) \<in> set bs1. f \<longrightarrow> j < n" "n \<le> k"
  defines "A \<equiv> unat (heap_stack_boundary p) + span bs1"
  shows "get_free_block p (of_nat n) al m =
    (case find_aligned (of_nat A) (of_nat n) (of_nat (A + 6 + k)) (of_nat (first_candidate A)) m of
       None \<Rightarrow> None
     | Some None \<Rightarrow> find_block (heap_stack_boundary p) (heap_size p) (of_nat n) al
         (of_nat (span bs1 + 6 + k)) m
     | Some (Some r) \<Rightarrow> Some r)"
proof -
  define a where "a = unat (heap_stack_boundary p)"
  define h where "h = unat (heap_size p)"
  have st: "heap_stack_boundary p = of_nat a" "heap_size p = of_nat h" by (simp_all add: a_def h_def)
  have b: "blocks m (a + 0) bs1" "blocks m A ((True, k) # bs2)" and h: "span bs1 + 6 + k + span bs2 = h"
    and le: "a + h \<le> 4294967295" and A: "A = a + span bs1"
    using ok by (simp_all add: heap_ok_def a_def h_def A_def blocks_append)
  have n: "n \<le> 4294967295" using first(2) h le by simp
  have i: "(of_nat (span bs1) :: u32) < of_nat h"
    using h le by (simp add: word_less_nat_alt unat_of_nat_32)
  have hd: "block_is_free m (of_nat A) \<noteq> 0" "block_size m (of_nat A) = of_nat k" using b(2) by simp_all
  have addr: "of_nat a + of_nat (span bs1) = (of_nat A :: u32)" by (simp add: A)
  have fit: "(of_nat n :: u32) \<le> of_nat k" using first(2) n h le by (simp add: word_le_of_nat)
  have fc: "push_bit 12 (drop_bit 12 (of_nat A + sizeof_block) + 1) = (of_nat (first_candidate A) :: u32)"
    using h le by (intro first_candidate_word) (simp add: A)
  have be: "of_nat A + sizeof_block + of_nat k = (of_nat (A + 6 + k) :: u32)"
    by (simp add: sizeof_block_def)
  have "unat (of_nat (A + 6) :: u32) = A + 6" using h le by (intro unat_of_nat_32) (simp add: A)
  then have "0 < unat (of_nat (A + 6) :: u32)" by simp
  then have nz: "of_nat A + sizeof_block mod 0x1000 \<noteq> (0 :: u32)"
    by (simp only: unat_gt_0) (simp add: sizeof_block_def)
  have next_i: "of_nat (span bs1) + (sizeof_block + of_nat k) = (of_nat (span bs1 + 6 + k) :: u32)"
    by (simp add: sizeof_block_def)
  have "get_free_block p (of_nat n) al m = find_block (of_nat a) (of_nat h) (of_nat n) al (of_nat 0) m"
    by (simp add: get_free_block_def st)
  also have "\<dots> = find_block (of_nat a) (of_nat h) (of_nat n) al (of_nat (0 + span bs1)) m"
    by (rule find_block_skip [OF b(1) _ le n first(1)]) (use h in simp)
  also have "\<dots> = (case find_aligned (of_nat A) (of_nat n) (of_nat (A + 6 + k)) (of_nat (first_candidate A)) m of
       None \<Rightarrow> None
     | Some None \<Rightarrow> find_block (of_nat a) (of_nat h) (of_nat n) al (of_nat (span bs1 + 6 + k)) m
     | Some (Some r) \<Rightarrow> Some r)"
    unfolding add_0 by (subst find_block.simps)
      (simp add: i addr hd fit al nz fc be next_i Let_def del: of_nat_add split: option.splits)
  finally show ?thesis unfolding st .
qed

lemma get_free_block_aligned:
  assumes ok: "heap_ok p (bs1 @ (True, k) # bs2) m" and al: "al \<noteq> 0" and n: "0 < n"
    and first: "\<forall>(f, j) \<in> set bs1. f \<longrightarrow> j < n"
    and fits: "next_page (unat (heap_stack_boundary p) + span bs1) + n
      \<le> unat (heap_stack_boundary p) + span bs1 + 6 + k"
  defines "a \<equiv> unat (heap_stack_boundary p)"
  defines "A \<equiv> a + span bs1"
  shows "\<exists>m'. get_free_block p (of_nat n) al m = Some (of_nat (next_page A - 6), m') \<and>
    heap_ok p (bs1 @ carve_aligned A n k @ bs2) m' \<and> payloads_kept a (bs1 @ (True, k) # bs2) m m'"
proof -
  have b: "blocks m a bs1" "blocks m A ((True, k) # bs2)" "A + 6 + k + span bs2 \<le> 4294967295" "0 < A"
    using ok by (simp_all add: heap_ok_def a_def A_def blocks_append)
  have f: "next_page A + n \<le> A + 6 + k" using fits by (simp add: A_def a_def)
  have nk: "n \<le> k" using f next_page(1) [of A] by simp
  define m1 where "m1 = set_size (of_nat A) (of_nat (next_page A - A - 12))
    (set_size (of_nat (next_page A - 6)) (of_nat (A + 6 + k - next_page A)) m)"
  define m' where "m' = claim_aligned (of_nat (next_page A - 6)) (of_nat n) (of_nat (A + 6 + k)) m1"
  note blk = claim_aligned_blocks [OF b(2,3) f n, folded m1_def, folded m'_def]
  have sz: "block_size m (of_nat A) = of_nat k" using b(2) by simp
  have "get_free_block p (of_nat n) al m = Some (of_nat (next_page A - 6), m')"
    using find_block_aligned [OF ok al first nk, folded a_def, folded A_def] b(3)
      find_aligned_hit [OF sz _ f b(4) n, folded m1_def]
    by (simp add: m'_def del: of_nat_diff of_nat_add)
  moreover have "heap_ok p (bs1 @ carve_aligned A n k @ bs2) m'"
  proof -
    have "blocks m' a bs1 \<longleftrightarrow> blocks m a bs1"
      using b(3) by (intro blocks_cong) (auto simp: A_def intro!: blk(2) dest!: in_header_bounds)
    moreover have "span (carve_aligned A n k) = 6 + k"
      using f next_page(1) [of A] by (auto simp: carve_aligned_def Let_def)
    ultimately show ?thesis
      using ok b(1) blk(1) by (simp add: heap_ok_def blocks_append a_def A_def) (simp add: carve_aligned_def Let_def)
  qed
  moreover have "payloads_kept a (bs1 @ (True, k) # bs2) m m'"
    unfolding payloads_kept_def
  proof (intro allI impI)
    fix q l and x :: u32
    assume x: "(q, l) \<in> set (allocs a (bs1 @ (True, k) # bs2))" "q \<le> unat x" "unat x < q + l"
    then have "unat x < A \<or> A + 6 + k \<le> unat x"
      by (auto simp: allocs_append A_def dest!: allocs_bounds)
    then show "m' x = m x" by (rule blk(2))
  qed
  ultimately show ?thesis by blast
qed

section \<open>A free block without a page boundary\<close>

text \<open>No candidate ends the loop: those before the end of the block are at most at its header, those
  behind it cannot be cut off, and the loop condition compares modulo the address space.\<close>

lemma no_boundary_candidate:
  assumes none: "\<forall>x. 4096 dvd x \<longrightarrow> \<not> (a + 6 < x \<and> x \<le> a + 6 + k)"
    and k: "6 \<le> k" "a + 6 + k \<le> 4294967295" "n \<le> k" and x: "4096 dvd unat (x :: u32)"
  shows "of_nat n \<le> of_nat (a + 6 + k) - x"
    and "\<not> x - of_nat a \<le> 12 \<Longrightarrow> of_nat (k - 6) < x - of_nat a - 12"
proof -
  have ux: "unat x + 4096 \<le> 4294967296" using x by (intro page_room) (simp add: mod_eq_0_iff_dvd)
  have u: "unat (of_nat (a + 6 + k) :: u32) = a + 6 + k" "unat (of_nat a :: u32) = a"
    "unat (of_nat n :: u32) = n" "unat (of_nat (k - 6) :: u32) = k - 6"
    by (rule unat_of_nat_32; use k in linarith)+
  have cases: "unat x \<le> a + 6 \<or> a + 6 + k < unat x"
    using none [rule_format, OF x] by linarith
  have "n \<le> unat (of_nat (a + 6 + k) - x)"
  proof (cases "unat x \<le> a + 6 + k")
    case True
    then have "unat (of_nat (a + 6 + k) - x) = a + 6 + k - unat x" using u by (simp add: unat_diff_ge)
    then show ?thesis using cases True k by simp
  next
    case False
    then have "unat (of_nat (a + 6 + k) - x) = a + 6 + k + 4294967296 - unat x"
      using u by (simp add: unat_diff_lt)
    then show ?thesis using ux k by simp
  qed
  then show "of_nat n \<le> of_nat (a + 6 + k) - x" by (simp add: word_le_nat_alt u del: of_nat_add)
  assume far: "\<not> x - of_nat a \<le> 12"
  then have "12 < unat (x - of_nat a)" by (simp add: word_le_nat_alt)
  moreover have "k - 6 + 12 < unat (x - of_nat a)"
  proof (cases "a \<le> unat x")
    case True
    then have e: "unat (x - of_nat a) = unat x - a" using u by (simp add: unat_diff_ge)
    then show ?thesis using cases calculation True k by auto
  next
    case False
    then have e: "unat (x - of_nat a) = unat x + 4294967296 - a" using u by (simp add: unat_diff_lt)
    then show ?thesis using k by simp
  qed
  moreover have "unat (x - of_nat a - 12) = unat (x - of_nat a) - 12"
    using calculation(1) by (subst unat_diff_ge) simp_all
  ultimately show "of_nat (k - 6) < x - of_nat a - 12"
    by (simp add: word_less_nat_alt u del: of_nat_diff)
qed

lemma find_aligned_no_result:
  assumes "find_aligned info n be x m = Some y"
    and "info = of_nat a" "n = of_nat b" "be = of_nat (a + 6 + k)" "4096 dvd unat x"
    and "block_size m info = of_nat k" "6 \<le> k" "a + 6 + k \<le> 4294967295" "b \<le> k"
    and "\<forall>x. 4096 dvd x \<longrightarrow> \<not> (a + 6 < x \<and> x \<le> a + 6 + k)"
  shows False
  using assms
proof (induction info n be x m y rule: find_aligned.raw_induct [rotated, consumes 1, case_names step])
  case (step rec info n be x m y)
  note c = no_boundary_candidate [OF step(11) step(8,9,10) step(6)]
  have next_x: "4096 dvd unat (x + 0x1000)"
  proof -
    have "unat (x + 0x1000) = (unat x + 4096) mod (4096 * 1048576)"
      by (simp add: unat_word_ariths)
    then show ?thesis using step(6) by (simp add: dvd_mod)
  qed
  have rest: "rec info n be (x + 0x1000) m = Some y \<Longrightarrow> False"
    using step(1) [of info n be "x + 0x1000" m y] step(3-5,7-11) next_x by simp
  have small: "divide_block info (x - info - 12) m = (0, m)" if "\<not> x - info \<le> 12"
  proof -
    have "(of_nat k - sizeof_block :: u32) = of_nat (k - 6)" using step(8) by (simp add: sizeof_block_def)
    then show ?thesis using c(2) that step(3,7) by (simp add: divide_block_def del: of_nat_diff)
  qed
  have le: "n \<le> be - x" using c(1) step(4,5) by simp
  show False
  proof (cases "x - info \<le> 12")
    case True
    with step(2) le rest show ?thesis by (simp add: sizeof_block_def)
  next
    case False
    with step(2) le rest small show ?thesis by (simp add: sizeof_block_def)
  qed
qed

lemma get_free_block_diverges:
  assumes ok: "heap_ok p (bs1 @ (True, k) # bs2) m" and al: "al \<noteq> 0"
    and first: "\<forall>(f, j) \<in> set bs1. f \<longrightarrow> j < n" "n \<le> k" and k: "6 \<le> k"
    and none: "\<forall>x. 4096 dvd x \<longrightarrow> \<not> (unat (heap_stack_boundary p) + span bs1 + 6 < x \<and>
      x \<le> unat (heap_stack_boundary p) + span bs1 + 6 + k)"
  shows "get_free_block p (of_nat n) al m = None"
proof -
  define A where "A = unat (heap_stack_boundary p) + span bs1"
  have le: "A + 6 + k + span bs2 \<le> 4294967295" and sz: "block_size m (of_nat A) = of_nat k"
    using ok by (simp_all add: heap_ok_def A_def blocks_append)
  have "drop_bit 12 (x :: u32) = x div 4096" for x by (simp add: drop_bit_eq_div)
  have "push_bit 12 (drop_bit 12 (of_nat A + sizeof_block) + 1) = (of_nat (first_candidate A) :: u32)"
    using le by (intro first_candidate_word) simp
  have fc: "4096 dvd unat (of_nat (first_candidate A) :: u32)"
  proof -
    have "unat (of_nat (first_candidate A) :: u32) = first_candidate A mod (4096 * 1048576)"
      by (simp add: unat_of_nat)
    then show ?thesis by (simp add: dvd_mod first_candidate_def)
  qed
  have "find_aligned (of_nat A) (of_nat n) (of_nat (A + 6 + k)) (of_nat (first_candidate A)) m = None"
    using find_aligned_no_result [OF _ refl refl refl fc sz k _ first(2)] le none
    by (cases "find_aligned (of_nat A) (of_nat n) (of_nat (A + 6 + k)) (of_nat (first_candidate A)) m")
      (auto simp: A_def)
  then show ?thesis
    using find_block_aligned [OF ok al first] by (simp add: A_def del: of_nat_add)
qed

end
