(* ===== verification/PageWords.thy ===== *)
theory PageWords
  imports Paging
begin

text \<open>
  Arithmetic of page tables: indices of a virtual address, entries with flags, and words at
  4-byte boundaries. An aligned word is named by its address as a natural number (\<open>word_at\<close>),
  so that two of them are disjoint as soon as their numbers differ.
\<close>

section \<open>Aligned words\<close>

definition word_at :: "mem \<Rightarrow> nat \<Rightarrow> u32" where
  "word_at m n = ld32 m (of_nat n)"

lemma dvd4_less: "4 dvd a \<Longrightarrow> 4 dvd b \<Longrightarrow> a < b \<Longrightarrow> a + 4 \<le> (b :: nat)"
  by presburger

lemma aligned_disjoint:
  assumes "4 dvd a" "4 dvd b" "a < 4294967296" "b < 4294967296" "a \<noteq> b"
  shows "region (of_nat a) 4 \<inter> region (of_nat b) 4 = {}"
proof -
  have "a + 4 \<le> 4294967296" "b + 4 \<le> 4294967296" "a + 4 \<le> b \<or> b + 4 \<le> a"
    using assms dvd4_less [of a b] dvd4_less [of b a] dvd4_less [of a 4294967296]
      dvd4_less [of b 4294967296] by simp_all linarith
  then show ?thesis
    using assms(3,4) region_disjoint [of "of_nat a" 4 "of_nat b" 4]
      region_disjoint [of "of_nat b" 4 "of_nat a" 4]
    by (auto simp: unat_of_nat_32)
qed

lemma word_at_store:
  assumes "4 dvd a" "4 dvd b" "a < 4294967296" "b < 4294967296"
  shows "word_at (st32 m (of_nat a) v) b = (if a = b then v else word_at m b)"
  using assms aligned_disjoint [OF assms]
  by (simp add: word_at_def mem_simps s32.ld_st_disjoint)

lemma word_at_cong:
  assumes "b + 4 \<le> 4294967296" "\<And>x. b \<le> unat x \<Longrightarrow> unat x < b + 4 \<Longrightarrow> m x = m' x"
  shows "word_at m b = word_at m' b"
  unfolding word_at_def
  by (rule s32.ld_cong) (use assms in \<open>auto simp: region_iff unat_of_nat_32\<close>)

lemma word_at_zeroed:
  assumes "4 dvd a" "4 dvd b" "4 dvd unat n" "a + unat n \<le> 4294967296" "b < 4294967296"
    and "a < 4294967296"
  shows "word_at (mem_set (of_nat a) 0 n m) b = (if a \<le> b \<and> b < a + unat n then 0 else word_at m b)"
proof (cases "a \<le> b \<and> b < a + unat n")
  case True
  then have "b + 4 \<le> a + unat n" using assms dvd4_less [of b "a + unat n"] by simp
  then have "region (of_nat b) 4 \<subseteq> region (of_nat a) (unat n)"
    using assms True by (auto simp: region_iff unat_of_nat_32)
  with True show ?thesis by (simp add: word_at_def ld32_mem_set_zero)
next
  case False
  then have "b + 4 \<le> a \<or> a + unat n \<le> b" using assms dvd4_less [of b a] by auto
  moreover have "b + 4 \<le> 4294967296" using assms dvd4_less [of b 4294967296] by simp
  ultimately have "region (of_nat b) 4 \<inter> region (of_nat a) (unat n) = {}"
    using assms by (auto simp: region_iff unat_of_nat_32)
  with False show ?thesis by (auto simp: word_at_def ld32_mem_set_outside)
qed

section \<open>Indices\<close>

lemma unat_table_index: "unat (TABLE_INDEX_FROM_VIRTUAL_ADDRESS a) = unat a div 4096 div 1024"
  by (simp add: TABLE_INDEX_FROM_VIRTUAL_ADDRESS_def drop_bit_eq_div unat_div
      div_mult2_eq [symmetric])

lemma unat_page_index: "unat (PAGE_INDEX_FROM_VIRTUAL_ADDRESS a) = unat a div 4096 mod 1024"
proof -
  have "(0x3FF :: u32) = mask 10" by (simp add: mask_eq_exp_minus_1)
  then have "drop_bit 12 a AND 0x3FF = take_bit 10 (drop_bit 12 a)"
    by (simp only: take_bit_eq_mask)
  then show ?thesis
    by (simp add: PAGE_INDEX_FROM_VIRTUAL_ADDRESS_def drop_bit_eq_div take_bit_eq_mod
        unat_div unat_mod)
qed

lemma table_index_of_nat: "TABLE_INDEX_FROM_VIRTUAL_ADDRESS a = of_nat (unat a div 4096 div 1024)"
  by (metis of_nat_unat ucast_id unat_table_index)

lemma page_index_of_nat: "PAGE_INDEX_FROM_VIRTUAL_ADDRESS a = of_nat (unat a div 4096 mod 1024)"
  by (metis of_nat_unat ucast_id unat_page_index)

section \<open>Entries\<close>

lemma page_bits:
  assumes "unat (p :: u32) mod 4096 = 0" and "bit p n"
  shows "12 \<le> n"
proof -
  have "take_bit 12 p = 0"
    using assms by (simp add: word_unat_eq_iff take_bit_eq_mod unat_mod)
  then have "\<not> bit (take_bit 12 p) n" by simp
  then show ?thesis using assms(2) by (auto simp: bit_simps)
qed

lemma flag_bits:
  assumes "unat (f :: u32) < 4096" and "bit f n"
  shows "n < 12"
proof -
  have "f = take_bit 12 f"
    using assms by (simp add: word_unat_eq_iff take_bit_eq_mod unat_mod)
  then show ?thesis using assms(2) by (metis bit_take_bit_iff)
qed

lemma page_mask: "(0xFFFFF000 :: u32) = NOT (mask 12)"
  by (simp add: mask_eq_exp_minus_1)

lemma entry_page:
  assumes "unat p mod 4096 = 0" "unat f < 4096"
  shows "(p OR f) AND 0xFFFFF000 = (p :: u32)"
  unfolding page_mask
  by (intro bit_word_eqI)
    (auto simp: bit_simps not_less dest: page_bits [OF assms(1)] flag_bits [OF assms(2)])

lemma entry_flag:
  assumes "unat p mod 4096 = 0"
  shows "(p OR f) AND 1 = (f AND 1 :: u32)"
  by (intro bit_word_eqI) (auto simp: bit_simps dest: page_bits [OF assms])

lemma page_offset_split:
  assumes "unat a div 4096 * 4096 = unat p"
  shows "p OR (a AND 0xFFF) = (a :: u32)"
proof -
  have e: "(0xFFF :: u32) = mask 12" by (simp add: mask_eq_exp_minus_1)
  have "unat (a div 4096 * 4096) = unat a div 4096 * 4096"
    using le_less_trans [OF div_times_less_eq_dividend unat_less_2p32]
    by (subst unat_word_ariths) (simp add: unat_div)
  then have "p = push_bit 12 (drop_bit 12 a)"
    using assms by (simp add: word_unat_eq_iff drop_bit_eq_div push_bit_eq_mult)
  then show ?thesis unfolding e
    by (intro bit_word_eqI) (auto simp: bit_simps)
qed

section \<open>The bitset\<close>

definition frame_used :: "mem \<Rightarrow> u32 \<Rightarrow> nat \<Rightarrow> bool" where
  "frame_used m fr f \<longleftrightarrow> bit (ld32 m (fr + 4 * of_nat (f div 32))) (f mod 32)"

lemma and_bit_0_iff: "j < 32 \<Longrightarrow> w AND 2 ^ j = 0 \<longleftrightarrow> \<not> bit (w :: u32) j"
proof -
  assume j: "j < 32"
  have "bit (w AND 2 ^ j) n = (n = j \<and> bit w j)" for n
    using j by (auto simp: bit_simps)
  moreover have "w AND 2 ^ j = 0 \<longleftrightarrow> (\<forall>n. \<not> bit (w AND 2 ^ j) n)"
    by (auto intro: bit_word_eqI)
  ultimately show ?thesis by simp
qed

lemma free_bit_eq:
  "j \<le> k \<Longrightarrow> k < 32 \<Longrightarrow> \<not> bit w k \<Longrightarrow> (\<And>i. j \<le> i \<Longrightarrow> i < k \<Longrightarrow> bit w i) \<Longrightarrow> free_bit w j = Some k"
proof (induction w j rule: free_bit.induct)
  case (1 w j)
  show ?case
  proof (cases "j = k")
    case True
    with 1 show ?thesis by (subst free_bit.simps) (simp add: and_bit_0_iff)
  next
    case False
    with 1 have "bit w j" "j < 32" by simp_all
    with 1 False have "free_bit w (Suc j) = Some k" by (simp add: and_bit_0_iff)
    with \<open>bit w j\<close> \<open>j < 32\<close> show ?thesis by (subst free_bit.simps) (simp add: and_bit_0_iff)
  qed
qed

lemma all_ones_iff: "w = (0xFFFFFFFF :: u32) \<longleftrightarrow> (\<forall>k<32. bit w k)"
proof -
  have e: "(0xFFFFFFFF :: u32) = mask 32" by (simp add: mask_eq_exp_minus_1)
  show ?thesis unfolding e by (auto simp: bit_eq_iff bit_simps)
qed

lemma words_of_bitset: "unat (INDEX_FROM_BIT nframes) = 32768"
  by (simp add: INDEX_FROM_BIT_def nframes_def PAGES_PER_TABLE_def TABLES_PER_DIRECTORY_def)

lemma scan_frames_full:
  "\<forall>f<1048576. 32 * i \<le> f \<longrightarrow> frame_used m fr f \<Longrightarrow> scan_frames m fr i = None"
proof (induction m fr i rule: scan_frames.induct)
  case (1 m fr i)
  show ?case
  proof (cases "i < 32768")
    case True
    have "bit (ld32 m (fr + 4 * of_nat i)) k" if "k < 32" for k
      using 1(3) True that by (auto simp: frame_used_def dest!: spec [of _ "32 * i + k"])
    then have ones: "ld32 m (fr + 4 * of_nat i) = 0xFFFFFFFF" by (simp add: all_ones_iff)
    have "scan_frames m fr (Suc i) = None"
      using 1(2,3) True ones by (simp add: words_of_bitset)
    then show ?thesis using True ones by (subst scan_frames.simps) (simp add: words_of_bitset)
  next
    case False
    then show ?thesis by (subst scan_frames.simps) (simp add: words_of_bitset)
  qed
qed

lemma scan_frames_least:
  assumes "f < 1048576" "\<not> frame_used m fr f" "\<And>g. 32 * i \<le> g \<Longrightarrow> g < f \<Longrightarrow> frame_used m fr g"
    and "32 * i \<le> f"
  shows "scan_frames m fr i = Some (of_nat (f * 4096))"
  using assms
proof (induction m fr i rule: scan_frames.induct)
  case (1 m fr i)
  let ?w = "ld32 m (fr + 4 * of_nat i)"
  have i: "i < 32768" using "1.prems" by simp
  show ?case
  proof (cases "f div 32 = i")
    case True
    then have f: "f = 32 * i + f mod 32" by auto
    have nb: "\<not> bit ?w (f mod 32)" using "1.prems"(2) True by (simp add: frame_used_def)
    then have "?w \<noteq> 0xFFFFFFFF" using all_ones_iff [of ?w] by auto
    moreover have "free_bit ?w 0 = Some (f mod 32)"
    proof (rule free_bit_eq [OF _ _ nb])
      fix j assume "j < f mod 32"
      then show "bit ?w j"
        using "1.prems"(3) [of "32 * i + j"] f by (auto simp: frame_used_def)
    qed simp_all
    moreover have "(of_nat i * 32 + of_nat (f mod 32)) * PAGE_SIZE = of_nat (f * 4096)"
      by (subst (2) f) (simp add: PAGE_SIZE_def algebra_simps)
    ultimately show ?thesis using i by (subst scan_frames.simps) (simp add: words_of_bitset)
  next
    case False
    then have lt: "32 * Suc i \<le> f" using "1.prems"(4) by (auto simp: not_less_eq_eq) 
    have "bit ?w k" if "k < 32" for k
      using "1.prems"(3) [of "32 * i + k"] lt that by (simp add: frame_used_def)
    then have ones: "?w = 0xFFFFFFFF" by (simp add: all_ones_iff)
    have "scan_frames m fr (Suc i) = Some (of_nat (f * 4096))"
      using "1.IH"(2) [OF _ refl] "1.prems" ones i lt by (simp add: words_of_bitset)
    then show ?thesis using i ones by (subst scan_frames.simps) (simp add: words_of_bitset)
  qed
qed

end
