(* ===== verification/KernelMap.thy ===== *)
theory KernelMap
  imports PageWords
begin

text \<open>
  The kernel's identity mapping. \<open>walk\<close> is what the processor does with a page directory;
  \<open>kstate KD n k\<close> describes the memory \<open>init_paging\<close> has built when \<open>n\<close> page tables exist and
  the first \<open>k\<close> pages are mapped: directory at \<open>KD\<close>, bitset behind it, tables behind that. Each
  operation of the loop is one step of this invariant.
\<close>

section \<open>Address translation\<close>

definition walk :: "mem \<Rightarrow> u32 \<Rightarrow> u32 \<Rightarrow> u32 option" where
  "walk m dir va =
     (let pde = ld32 m ((dir AND 0xFFFFF000) + 4 * drop_bit 22 va) in
      if pde AND 1 = 0 then None
      else let pte = ld32 m ((pde AND 0xFFFFF000) + 4 * (drop_bit 12 va AND 0x3FF)) in
        if pte AND 1 = 0 then None
        else Some ((pte AND 0xFFFFF000) OR (va AND 0xFFF)))"

lemma walk_entries:
  assumes "unat dir mod 4096 = 0"
  shows "walk m dir va =
    (if ld32 m (dir_entry dir va) AND 1 = 0 then None
     else if ld32 m (table_entry m dir va) AND 1 = 0 then None
     else Some ((ld32 m (table_entry m dir va) AND 0xFFFFF000) OR (va AND 0xFFF)))"
  using entry_page [of dir 0] assms
  by (simp add: walk_def dir_entry_def table_entry_def TABLE_INDEX_FROM_VIRTUAL_ADDRESS_def
      PAGE_INDEX_FROM_VIRTUAL_ADDRESS_def Let_def)

section \<open>The state of the loop\<close>

definition kstate :: "nat \<Rightarrow> nat \<Rightarrow> nat \<Rightarrow> 'a paging_scheme \<Rightarrow> bool" where
  "kstate KD n k s \<longleftrightarrow>
     kernel_directory s = of_nat KD \<and> frames s = of_nat (KD + 4096) \<and>
     place_addr s = of_nat (KD + 135168 + 4096 * n) \<and>
     (\<forall>j<1024. word_at (mem s) (KD + 4 * j) =
        (if j < n then of_nat (KD + 135168 + 4096 * j) OR 3 else 0)) \<and>
     (\<forall>q<1024 * n. word_at (mem s) (KD + 135168 + 4 * q) =
        (if q < k then of_nat (4096 * q) OR 3 else 0)) \<and>
     (\<forall>w<32768. \<forall>b<32. bit (word_at (mem s) (KD + 4096 + 4 * w)) b \<longleftrightarrow> 32 * w + b < k)"

text \<open>The directory is at a page boundary and everything fits below \<open>KERNEL_MEM_END\<close>.\<close>

definition kroom :: "nat \<Rightarrow> bool" where
  "kroom KD \<longleftrightarrow> KD mod 4096 = 0 \<and> KD + 151552 \<le> 0xFF0000"

text \<open>What the loop leaves alone: everything but \<open>place_addr\<close> and the memory of the structures.\<close>

definition kframe :: "nat \<Rightarrow> 'a paging_scheme \<Rightarrow> 'a paging_scheme \<Rightarrow> bool" where
  "kframe KD s t \<longleftrightarrow> t = s\<lparr>mem := mem t, place_addr := place_addr t\<rparr> \<and>
     (\<forall>x. unat x < KD \<or> KD + 151552 \<le> unat x \<longrightarrow> mem t x = mem s x)"

lemma kframe_fields:
  assumes "kframe KD s t"
  shows "fault_handlers t = fault_handlers s" "cr0 t = cr0 s"
proof -
  have e: "t = s\<lparr>mem := mem t, place_addr := place_addr t\<rparr>" using assms by (simp add: kframe_def)
  show "fault_handlers t = fault_handlers s" by (subst e) simp
  show "cr0 t = cr0 s" by (subst e) simp
qed

lemma kframe_mem:
  "kframe KD s t \<Longrightarrow> unat x < KD \<or> KD + 151552 \<le> unat x \<Longrightarrow> mem t x = mem s x"
  unfolding kframe_def by blast

lemma kframe_refl: "kframe KD s s"
  by (simp add: kframe_def)

lemma kframe_trans: "kframe KD s t \<Longrightarrow> kframe KD t u \<Longrightarrow> kframe KD s u"
  by (cases s, cases t, cases u) (auto simp: kframe_def)

lemma kframe_store:
  assumes "kroom KD" "KD \<le> a" "a + 4 \<le> KD + 151552"
  shows "kframe KD s (store32 (of_nat a) v s)"
proof -
  have "x \<notin> region (of_nat a) 4" if "unat x < KD \<or> KD + 151552 \<le> unat x" for x
    using assms that by (auto simp: region_iff unat_of_nat_32 kroom_def)
  then show ?thesis by (simp add: kframe_def store32_def s32.st_frame)
qed

section \<open>The bitset\<close>

lemma kstate_frame_used:
  assumes "kstate KD n k s" "f < 1048576"
  shows "frame_used (mem s) (frames s) f \<longleftrightarrow> f < k"
proof -
  have "frames s + 4 * of_nat (f div 32) = of_nat (KD + 4096 + 4 * (f div 32))"
    using assms(1) by (simp add: kstate_def)
  moreover have "f div 32 < 32768" using assms(2) by (simp add: div_less_iff_less_mult)
  then have "bit (word_at (mem s) (KD + 4096 + 4 * (f div 32))) (f mod 32) \<longleftrightarrow> 32 * (f div 32) + f mod 32 < k"
    using assms(1) unfolding kstate_def by (metis mod_less_divisor zero_less_numeral)
  ultimately show ?thesis by (simp only: frame_used_def word_at_def) simp
qed

lemma kstate_first_free:
  assumes "kstate KD n k s" "k < 1048576"
  shows "first_free_frame s = Some (Ret (of_nat (k * 4096)) s)"
proof -
  have "scan_frames (mem s) (frames s) 0 = Some (of_nat (k * 4096))"
    using assms by (intro scan_frames_least) (auto simp: kstate_frame_used)
  then show ?thesis by (simp add: first_free_frame_def)
qed

text \<open>Word and bit of the bitset for the frame with number \<open>k\<close>.\<close>

lemma frame_position:
  assumes "k < 1048576"
  shows "INDEX_FROM_ADDRESS (of_nat (k * 4096)) = of_nat (k div 32)"
    and "unat (OFFSET_FROM_ADDRESS (of_nat (k * 4096))) = k mod 32"
proof -
  have u: "unat (of_nat (k * 4096) :: u32) = k * 4096"
    using assms by (intro unat_of_nat_32) simp
  have k: "(of_nat (k * 4096) :: u32) div 4096 = of_nat k"
    using assms by (simp only: word_unat_eq_iff unat_div u) (simp add: unat_of_nat)
  have uk: "unat (of_nat k :: u32) = k" using assms by (simp add: unat_of_nat)
  show "INDEX_FROM_ADDRESS (of_nat (k * 4096)) = of_nat (k div 32)"
    unfolding INDEX_FROM_ADDRESS_def INDEX_FROM_BIT_def PAGE_SIZE_def k
    using assms by (simp only: word_unat_eq_iff unat_div uk) (simp add: unat_of_nat)
  show "unat (OFFSET_FROM_ADDRESS (of_nat (k * 4096))) = k mod 32"
    unfolding OFFSET_FROM_ADDRESS_def OFFSET_FROM_BIT_def PAGE_SIZE_def k
    by (simp add: unat_mod uk)
qed

section \<open>Addresses of entries\<close>

lemma page_number:
  assumes "k < 1048576"
  shows "TABLE_INDEX_FROM_VIRTUAL_ADDRESS (of_nat (k * 4096)) = of_nat (k div 1024)"
    and "PAGE_INDEX_FROM_VIRTUAL_ADDRESS (of_nat (k * 4096)) = of_nat (k mod 1024)"
proof -
  have "unat (of_nat (k * 4096) :: u32) = k * 4096"
    using assms by (intro unat_of_nat_32) simp
  then show "TABLE_INDEX_FROM_VIRTUAL_ADDRESS (of_nat (k * 4096)) = of_nat (k div 1024)"
    and "PAGE_INDEX_FROM_VIRTUAL_ADDRESS (of_nat (k * 4096)) = of_nat (k mod 1024)"
    by (simp_all add: table_index_of_nat page_index_of_nat del: of_nat_mult)
qed

lemma kstate_dir_entry:
  assumes "kstate KD n k s"
  shows "dir_entry (kernel_directory s) va = of_nat (KD + 4 * (unat va div 4096 div 1024))"
  using assms by (simp add: dir_entry_def table_index_of_nat kstate_def)

lemma kstate_dir_word:
  assumes "kstate KD n k s"
  shows "ld32 (mem s) (dir_entry (kernel_directory s) va) =
    (if unat va div 4096 div 1024 < n
     then of_nat (KD + 135168 + 4096 * (unat va div 4096 div 1024)) OR 3 else 0)"
proof -
  have "unat va div 4096 div 1024 < 1024"
    using unat_less_2p32 [of va] by (simp add: div_less_iff_less_mult)
  then show ?thesis
    using assms unfolding kstate_dir_entry [OF assms] word_at_def [symmetric] kstate_def by blast
qed

lemma kroom_page:
  assumes "kroom KD" "j < 4"
  shows "unat (of_nat (KD + 135168 + 4096 * j) :: u32) mod 4096 = 0"
proof -
  have "unat (of_nat (KD + 135168 + 4096 * j) :: u32) = KD + 4096 * (33 + j)"
    using assms by (subst unat_of_nat_32) (auto simp: kroom_def)
  then show ?thesis using assms(1) by (simp only: mod_mult_self2 kroom_def)
qed

lemma kstate_table_entry:
  assumes "kstate KD n k s" "kroom KD" "n \<le> 4" "unat va div 4096 div 1024 < n"
  shows "table_entry (mem s) (kernel_directory s) va = of_nat (KD + 135168 + 4 * (unat va div 4096))"
proof -
  let ?q = "unat va div 4096"
  have "ld32 (mem s) (dir_entry (kernel_directory s) va) AND 0xFFFFF000
      = of_nat (KD + 135168 + 4096 * (?q div 1024))"
    using assms kroom_page [of KD "?q div 1024"]
    by (subst kstate_dir_word [OF assms(1)]) (simp only: if_True, intro entry_page, simp_all)
  then have "table_entry (mem s) (kernel_directory s) va
      = of_nat (KD + 135168 + (4096 * (?q div 1024) + 4 * (?q mod 1024)))"
    by (simp add: table_entry_def page_index_of_nat)
  moreover have "4096 * (?q div 1024) + 4 * (?q mod 1024) = 4 * ?q"
    using div_mult_mod_eq [of ?q 1024] by linarith
  ultimately show ?thesis by simp
qed

section \<open>The steps\<close>

lemma kroom_aligned:
  assumes "kroom KD"
  shows "4 dvd KD + 4 * j" "4 dvd KD + 4096 + 4 * j" "4 dvd KD + 135168 + 4 * j" "4 dvd KD"
    "4 dvd KD + 135168 + 4096 * j"
proof -
  have "4096 dvd KD" using assms by (simp add: kroom_def mod_eq_0_iff_dvd)
  then show d: "4 dvd KD" by (rule dvd_trans [rotated]) simp
  then show "4 dvd KD + 4 * j" "4 dvd KD + 4096 + 4 * j" "4 dvd KD + 135168 + 4 * j"
    "4 dvd KD + 135168 + 4096 * j"
    by (simp_all add: dvd_add)
qed

text \<open>The three kinds of write: a directory entry, a table entry, a word of the bitset.\<close>

lemma write_entry_step:
  assumes st: "kstate KD n k s" and room: "kroom KD" and n: "n \<le> 4" and k: "k < 1024 * n"
  defines "t \<equiv> store32 (of_nat (KD + 135168 + 4 * k)) (of_nat (4096 * k) OR 3) s"
  shows "kernel_directory t = of_nat KD" "frames t = of_nat (KD + 4096)"
    "place_addr t = place_addr s" "kframe KD s t"
    and "\<forall>j<1024. word_at (mem t) (KD + 4 * j) = word_at (mem s) (KD + 4 * j)"
    and "\<forall>q<1024 * n. word_at (mem t) (KD + 135168 + 4 * q) =
        (if q < Suc k then of_nat (4096 * q) OR 3 else 0)"
    and "\<forall>w<32768. word_at (mem t) (KD + 4096 + 4 * w) = word_at (mem s) (KD + 4096 + 4 * w)"
proof -
  note al = kroom_aligned [OF room]
  have m: "mem t = st32 (mem s) (of_nat (KD + 135168 + 4 * k)) (of_nat (4096 * k) OR 3)"
    by (simp add: t_def store32_def)
  have b: "KD + 151552 \<le> 16711680" using room by (simp add: kroom_def)
  note w = word_at_store [OF al(3)]
  show "kernel_directory t = of_nat KD" "frames t = of_nat (KD + 4096)"
    "place_addr t = place_addr s"
    using st by (simp_all add: t_def store32_def kstate_def)
  show "kframe KD s t" unfolding t_def using n k b by (intro kframe_store room) simp_all
  show "\<forall>j<1024. word_at (mem t) (KD + 4 * j) = word_at (mem s) (KD + 4 * j)"
    unfolding m using al b n k by (auto simp: w simp del: of_nat_add of_nat_mult)
  show "\<forall>w<32768. word_at (mem t) (KD + 4096 + 4 * w) = word_at (mem s) (KD + 4096 + 4 * w)"
    unfolding m using al b n k by (auto simp: w simp del: of_nat_add of_nat_mult)
  show "\<forall>q<1024 * n. word_at (mem t) (KD + 135168 + 4 * q) =
        (if q < Suc k then of_nat (4096 * q) OR 3 else 0)"
    unfolding m using al b n k st by (auto simp: w kstate_def less_Suc_eq simp del: of_nat_add of_nat_mult)
qed

lemma bitset_bit_step:
  assumes "k < 1048576" "w < 32768" "b < 32" and "bit (u :: u32) b \<longleftrightarrow> 32 * w + b < k"
  shows "bit (if w = k div 32 then u OR push_bit (k mod 32) 1 else u) b \<longleftrightarrow> 32 * w + b < Suc k"
proof -
  have k: "k = 32 * (k div 32) + k mod 32" by simp
  show ?thesis
  proof (cases "w = k div 32")
    case True
    then have "32 * w + b = k \<longleftrightarrow> b = k mod 32" using k by linarith
    moreover have "bit (u OR push_bit (k mod 32) 1) b \<longleftrightarrow> bit u b \<or> b = k mod 32"
      using assms(3) by (auto simp: bit_simps)
    ultimately show ?thesis using True assms(4) by auto
  next
    case False
    then have "32 * w + b \<noteq> k" using assms(3) by auto
    then show ?thesis using False assms(4) by auto
  qed
qed

lemma map_frame_kernel:
  assumes st: "kstate KD n k s" and room: "kroom KD" and n: "n \<le> 4" and k: "k < 1024 * n"
  defines "t \<equiv> map_frame (of_nat KD) (of_nat (k * 4096)) (of_nat (k * 4096)) True True s"
  shows "kstate KD n (Suc k) t" and "kframe KD s t"
proof -
  define ph :: u32 where "ph = of_nat (k * 4096)"
  define s1 where "s1 = store32 (of_nat (KD + 135168 + 4 * k)) (of_nat (4096 * k) OR 3) s"
  note w1 = write_entry_step [OF st room n k, folded s1_def]
  note al = kroom_aligned [OF room]
  have b: "KD + 151552 \<le> 16711680" and kb: "k < 1048576" and k32: "k div 32 < 32768"
    using room n k by (auto simp: kroom_def)
  have kd: "kernel_directory s = of_nat KD" using st by (simp add: kstate_def)
  have "unat ph = k * 4096" unfolding ph_def using kb by (intro unat_of_nat_32) simp
  then have q: "unat ph div 4096 = k" by simp
  have e: "table_entry (mem s) (of_nat KD) ph = of_nat (KD + 135168 + 4 * k)"
    using kstate_table_entry [OF st room n, of ph] k
    unfolding q kd by (simp add: div_less_iff_less_mult mult.commute)
  define a where "a = KD + 4096 + 4 * (k div 32)"
  have "frames s1 + 4 * INDEX_FROM_ADDRESS ph = of_nat a"
    using w1(2) frame_position(1) [OF kb] by (simp add: a_def ph_def)
  then have wb: "write_bitset ph 1 s1 = store32 (of_nat a) (word_at (mem s1) a OR push_bit (k mod 32) 1) s1"
    using frame_position(2) [OF kb, folded ph_def] by (simp add: write_bitset_def word_at_def Let_def)
  have "ph OR page_entry_flags True True = of_nat (4096 * k) OR 3"
    by (simp add: ph_def page_entry_flags_def mult.commute)
  then have "t = (let u = write_bitset ph 1 s1 in
      if of_nat KD \<noteq> kernel_directory u then add_frame_to_kernel_dir ph u else u)"
    unfolding t_def map_frame_def ph_def [symmetric] by (simp only: Let_def e s1_def)
  then have t: "t = store32 (of_nat a) (word_at (mem s1) a OR push_bit (k mod 32) 1) s1"
    using w1(1) by (simp add: wb store32_def)
  have m: "mem t = st32 (mem s1) (of_nat a) (word_at (mem s1) a OR push_bit (k mod 32) 1)"
    by (simp add: t store32_def)
  have a4: "4 dvd a" "a < 4294967296" using al b k32 by (simp_all add: a_def)
  note w = word_at_store [OF a4(1) _ a4(2)]
  have "kframe KD s1 t" unfolding t using k32 by (intro kframe_store room) (simp_all add: a_def)
  with w1(4) show "kframe KD s t" by (rule kframe_trans)
  have "\<forall>j<1024. word_at (mem t) (KD + 4 * j) = word_at (mem s1) (KD + 4 * j)"
    unfolding m by (intro allI impI, subst w) (use al b in \<open>auto simp: a_def\<close>)
  moreover have "\<forall>q<1024 * n. word_at (mem t) (KD + 135168 + 4 * q) = word_at (mem s1) (KD + 135168 + 4 * q)"
    unfolding m by (intro allI impI, subst w) (use al b n k32 in \<open>auto simp: a_def\<close>)
  moreover have "bit (word_at (mem t) (KD + 4096 + 4 * v)) c \<longleftrightarrow> 32 * v + c < Suc k"
    if "v < 32768" "c < 32" for v c
  proof -
    have "word_at (mem t) (KD + 4096 + 4 * v) =
        (let u = word_at (mem s1) (KD + 4096 + 4 * v)
         in if v = k div 32 then u OR push_bit (k mod 32) 1 else u)"
      unfolding m using al b that by (subst w) (auto simp: a_def)
    moreover have "bit (word_at (mem s1) (KD + 4096 + 4 * v)) c \<longleftrightarrow> 32 * v + c < k"
      using st w1(7) that by (simp add: kstate_def)
    ultimately show ?thesis
      using bitset_bit_step [OF kb that] by (simp only: Let_def)
  qed
  ultimately show "kstate KD n (Suc k) t"
    using st w1 by (simp add: kstate_def t store32_def)
qed

lemma new_table_kernel:
  assumes st: "kstate KD n (1024 * n) s" and room: "kroom KD" and n: "n < 4"
    and va: "unat va div 4096 div 1024 = n"
  defines "t \<equiv> new_table (of_nat KD) va True True s"
  shows "kstate KD (Suc n) (1024 * n) t" and "kframe KD s t"
proof -
  note al = kroom_aligned [OF room]
  have b: "KD + 151552 \<le> 16711680" using room by (simp add: kroom_def)
  define p where "p = KD + 135168 + 4096 * n"
  have up: "unat (of_nat p :: u32) = p" using b n by (intro unat_of_nat_32) (simp add: p_def)
  have p4: "4 dvd p" "p < 4294967296" "p + unat (4096 :: u32) \<le> 4294967296"
    using al b n by (simp_all add: p_def)
  have pm: "p mod 4096 = 0" using kroom_page [OF room n] up by (simp add: p_def)
  have pl: "place_addr s = of_nat p" using st by (simp add: kstate_def p_def)
  have kd: "kernel_directory s = of_nat KD" using st by (simp add: kstate_def)
  define e where "e = KD + 4 * n"
  have de: "dir_entry (of_nat KD) va = of_nat e"
    using kstate_dir_entry [OF st, of va] by (simp add: kd va e_def)
  define s1 where "s1 = store32 (of_nat e) (of_nat p OR 3) (s\<lparr>place_addr := of_nat (p + 4096)\<rparr>)"
  have ka: "kmalloc_a 4096 s = (of_nat p, s\<lparr>place_addr := of_nat (p + 4096)\<rparr>)"
    using pm up pl p4(2) by (subst kmalloc_a_eq) simp_all
  have "ld32 (mem s1) (of_nat e) AND 0xFFFFF000 = of_nat p"
    using entry_page [of "of_nat p" 3] pm by (simp add: s1_def store32_def mem_simps up)
  then have t: "t = memset (of_nat p) 0 4096 s1"
    unfolding t_def new_table_def Let_def de using kd ka
    by (simp add: PAGES_PER_TABLE_def s1_def)
  have m1: "mem s1 = st32 (mem s) (of_nat e) (of_nat p OR 3)" by (simp add: s1_def store32_def)
  have mt: "mem t = mem_set (of_nat p) 0 4096 (mem s1)" by (simp add: t memset_def)
  have e4: "4 dvd e" "e < 4294967296" using al b n by (simp_all add: e_def)
  have wt: "word_at (mem t) c = (if p \<le> c \<and> c < p + 4096 then 0
      else if c = e then of_nat p OR 3 else word_at (mem s) c)"
    if "4 dvd c" "c < 4294967296" for c
    using word_at_zeroed [OF p4(1) that(1) _ p4(3) that(2) p4(2)]
      word_at_store [OF e4(1) that(1) e4(2) that(2)] by (auto simp: mt m1)
  have "kframe KD s s1"
    using kframe_store [OF room, of e "s\<lparr>place_addr := of_nat (p + 4096)\<rparr>"] n
    by (simp add: e_def kframe_def s1_def store32_def)
  moreover have "x \<notin> region (of_nat p) 4096" if "unat x < KD \<or> KD + 151552 \<le> unat x" for x
    using that n b up by (subst region_iff) (auto simp: p_def)
  then have "kframe KD s1 t" by (simp add: kframe_def t memset_def mem_set_eq)
  ultimately show "kframe KD s t" by (rule kframe_trans)
  have "\<forall>j<1024. word_at (mem t) (KD + 4 * j) =
      (if j < Suc n then of_nat (KD + 135168 + 4096 * j) OR 3 else 0)"
    using al b n st by (auto simp: wt p_def e_def kstate_def less_Suc_eq)
  moreover have "\<forall>q<1024 * Suc n. word_at (mem t) (KD + 135168 + 4 * q) =
      (if q < 1024 * n then of_nat (4096 * q) OR 3 else 0)"
    using al b n st by (auto simp: wt p_def e_def kstate_def)
  moreover have "\<forall>w<32768. word_at (mem t) (KD + 4096 + 4 * w) = word_at (mem s) (KD + 4096 + 4 * w)"
    using al b n by (auto simp: wt p_def e_def)
  ultimately show "kstate KD (Suc n) (1024 * n) t"
    using st by (simp add: kstate_def t memset_def s1_def store32_def p_def algebra_simps)
qed

section \<open>One page, and the loop\<close>

text \<open>The number of tables that hold \<open>k\<close> pages.\<close>

definition tables :: "nat \<Rightarrow> nat" where
  "tables k = (k + 1023) div 1024"

lemma tables_Suc:
  shows "k mod 1024 = 0 \<Longrightarrow> tables (Suc k) = Suc (tables k) \<and> k = 1024 * tables k"
    and "k mod 1024 \<noteq> 0 \<Longrightarrow> tables (Suc k) = tables k \<and> k < 1024 * tables k"
proof -
  define q r where "q = k div 1024" and "r = k mod 1024"
  then have k: "k = r + q * 1024" "r < 1024" by simp_all
  have t: "tables k = (r + 1023) div 1024 + q" "tables (Suc k) = (r + 1024) div 1024 + q"
    by (simp_all add: tables_def k(1) div_mult_self1 [symmetric] add.assoc add.left_commute)
  show "k mod 1024 = 0 \<Longrightarrow> tables (Suc k) = Suc (tables k) \<and> k = 1024 * tables k"
    using t k by (simp add: r_def [symmetric])
  assume "k mod 1024 \<noteq> 0"
  then have r: "0 < r" by (simp add: r_def)
  have "(r + 1023) div 1024 = 1" "(r + 1024) div 1024 = 1"
    using k(2) r by (auto intro!: div_nat_eqI)
  then show "tables (Suc k) = tables k \<and> k < 1024 * tables k"
    using t k by simp
qed

lemma tables_le: "k \<le> 4080 \<Longrightarrow> tables k \<le> 4"
  using div_le_mono [of "k + 1023" 5103 1024] by (simp add: tables_def)

lemma alloc_page_kernel:
  assumes st: "kstate KD (tables k) k s" and room: "kroom KD" and k: "k < 4080"
  defines "ph \<equiv> of_nat (k * 4096)"
  shows "\<exists>t. alloc_page (of_nat KD) ph 1 1 s = Some (Ret ph t) \<and>
    kstate KD (tables (Suc k)) (Suc k) t \<and> kframe KD s t"
proof -
  have kd: "kernel_directory s = of_nat KD" using st by (simp add: kstate_def)
  have "unat ph = k * 4096" unfolding ph_def using k by (intro unat_of_nat_32) simp
  then have q: "unat ph div 4096 = k" by simp
  have "\<not> frame_used (mem s) (frames s) k" using kstate_frame_used [OF st] k by simp
  then have free: "ld32 (mem s) (frames s + 4 * INDEX_FROM_ADDRESS ph)
      AND push_bit (unat (OFFSET_FROM_ADDRESS ph)) 1 = 0"
    using frame_position [of k, folded ph_def] k by (simp add: frame_used_def and_bit_0_iff)
  have first: "first_free_frame s = Some (Ret ph s)"
    using kstate_first_free [OF st] k by (simp add: ph_def)
  have "unat (-1 :: u32) = 4294967295" by (simp add: unsigned_minus_1_eq_mask mask_eq_exp_minus_1)
  then have ne: "ph \<noteq> -1" using \<open>unat ph = k * 4096\<close> k by (auto simp only: word_unat_eq_iff)
  have dw: "ld32 (mem s) (dir_entry (of_nat KD) ph) AND 1 = 0 \<longleftrightarrow> \<not> k div 1024 < tables k"
    using kstate_dir_word [OF st, of ph] kroom_page [OF room, of "k div 1024"] k
    by (auto simp: kd q entry_flag div_less_iff_less_mult)
  show ?thesis
  proof (cases "k mod 1024 = 0")
    case True
    note tb = tables_Suc(1) [OF True]
    then have kn: "k = 1024 * tables k" by blast
    have t4: "tables k < 4" using kn k by linarith
    have kdiv: "k div 1024 = tables k" by (subst (1) kn) simp
    define u where "u = new_table (of_nat KD) ph True True s"
    have u: "kstate KD (Suc (tables k)) k u" "kframe KD s u"
      using new_table_kernel [OF _ room t4, of s ph] st kn q kdiv by (simp_all add: u_def)
    have first': "first_free_frame u = Some (Ret ph u)"
      using kstate_first_free [OF u(1)] k by (simp add: ph_def)
    define t where "t = map_frame (of_nat KD) ph ph True True u"
    have t: "kstate KD (Suc (tables k)) (Suc k) t" "kframe KD u t"
      using map_frame_kernel [OF u(1) room] t4 kn by (simp_all add: t_def ph_def)
    have "alloc_page (of_nat KD) ph 1 1 s = Some (Ret ph t)"
      using first free dw kdiv first' ne
      by (simp add: alloc_page_def alloc_page_pr_def u_def [symmetric] t_def ph_def [symmetric])
    with t u tb show ?thesis by (auto intro: kframe_trans)
  next
    case False
    note tb = tables_Suc(2) [OF False]
    define t where "t = map_frame (of_nat KD) ph ph True True s"
    have t: "kstate KD (tables k) (Suc k) t" "kframe KD s t"
      using map_frame_kernel [OF st room tables_le] tb k by (simp_all add: t_def ph_def)
    have "k div 1024 < tables k" using tb by (simp add: div_less_iff_less_mult mult.commute)
    then have "alloc_page (of_nat KD) ph 1 1 s = Some (Ret ph t)"
      using first free dw by (simp add: alloc_page_def alloc_page_pr_def t_def)
    with t tb show ?thesis by auto
  qed
qed

lemma map_kernel_loop:
  assumes "kstate KD (tables k) k s" and room: "kroom KD" and "k \<le> 4080"
  shows "\<exists>t. map_kernel (of_nat (k * 4096)) s = Some (Ret () t) \<and> kstate KD 4 4080 t \<and> kframe KD s t"
  using assms(1,3)
proof (induction "4080 - k" arbitrary: k s)
  case 0
  then have "k = 4080" by simp
  with 0 show ?case
    by (subst map_kernel.simps) (simp add: KERNEL_MEM_END_def kframe_refl tables_def)
next
  case (Suc d)
  then have k: "k < 4080" and d: "d = 4080 - Suc k" by simp_all
  let ?ph = "of_nat (k * 4096) :: u32"
  have u: "unat ?ph = k * 4096" using k by (intro unat_of_nat_32) simp
  have lt: "?ph < KERNEL_MEM_END"
    using k by (simp only: word_less_nat_alt u) (simp add: KERNEL_MEM_END_def)
  have kd: "kernel_directory s = of_nat KD" using Suc.prems by (simp add: kstate_def)
  obtain s' where s': "alloc_page (of_nat KD) ?ph 1 1 s = Some (Ret ?ph s')"
    "kstate KD (tables (Suc k)) (Suc k) s'" "kframe KD s s'"
    using alloc_page_kernel [OF Suc.prems(1) room k] by blast
  obtain t where t: "map_kernel (of_nat (Suc k * 4096)) s' = Some (Ret () t)"
    "kstate KD 4 4080 t" "kframe KD s' t"
    using Suc.hyps(1) [OF d s'(2)] k by (metis Suc_leI)
  have nxt: "?ph + PAGE_SIZE = of_nat (Suc k * 4096)" by (simp add: PAGE_SIZE_def algebra_simps)
  have "map_kernel ?ph s = map_kernel (?ph + PAGE_SIZE) s'"
    by (subst map_kernel.simps) (simp only: lt kd s'(1) if_True and_then.simps)
  with t(1) have "map_kernel ?ph s = Some (Ret () t)" unfolding nxt by simp
  with t s' show ?case by (blast intro: kframe_trans)
qed

section \<open>The whole of init\_paging\<close>

lemma kstate_walk_pages:
  assumes st: "kstate KD 4 k s" and room: "kroom KD" and k: "k \<le> 4096"
  shows "walk (mem s) (kernel_directory s) va = (if unat va div 4096 < k then Some va else None)"
proof -
  let ?q = "unat va div 4096" and ?d = "kernel_directory s"
  have ukd: "unat ?d mod 4096 = 0"
    using st room by (simp add: kstate_def kroom_def unat_of_nat_32)
  show ?thesis
  proof (cases "?q div 1024 < 4")
    case True
    then have q: "?q < 4096" by (simp add: div_less_iff_less_mult)
    have pde: "ld32 (mem s) (dir_entry ?d va) AND 1 \<noteq> 0"
      using True kroom_page [OF room True] by (simp add: kstate_dir_word [OF st] entry_flag)
    have te: "table_entry (mem s) ?d va = of_nat (KD + 135168 + 4 * ?q)"
      using kstate_table_entry [OF st room _ True] by simp
    have "\<forall>q<4096. word_at (mem s) (KD + 135168 + 4 * q) = (if q < k then of_nat (4096 * q) OR 3 else 0)"
      using st by (simp add: kstate_def)
    then have pte: "ld32 (mem s) (table_entry (mem s) ?d va) =
        (if ?q < k then of_nat (4096 * ?q) OR 3 else 0)"
      using q unfolding te word_at_def [symmetric] by blast
    have "unat (of_nat (4096 * ?q) :: u32) = 4096 * ?q"
      using q by (intro unat_of_nat_32) simp
    then have p: "unat (of_nat (4096 * ?q) :: u32) mod 4096 = 0"
      "unat va div 4096 * 4096 = unat (of_nat (4096 * ?q) :: u32)" by simp_all
    show ?thesis
      using pde page_offset_split [OF p(2)] entry_page [OF p(1), of 3] entry_flag [OF p(1), of 3]
      by (simp add: walk_entries [OF ukd] pte del: of_nat_mult)
  next
    case False
    then have "\<not> ?q < k" using k by (simp add: div_less_iff_less_mult)
    with False show ?thesis
      by (simp add: walk_entries [OF ukd] kstate_dir_word [OF st])
  qed
qed

lemma kstate_walk:
  assumes "kstate KD 4 4080 s" "kroom KD"
  shows "walk (mem s) (kernel_directory s) va = (if va < KERNEL_MEM_END then Some va else None)"
  using kstate_walk_pages [OF assms, of va]
  by (simp add: KERNEL_MEM_END_def word_less_nat_alt div_less_iff_less_mult)

lemma kstate_cong:
  assumes "kstate KD n k s" "kroom KD" "n \<le> 4"
    and "kernel_directory t = kernel_directory s" "frames t = frames s" "place_addr t = place_addr s"
    and "\<And>x. KD \<le> unat x \<Longrightarrow> unat x < KD + 151552 \<Longrightarrow> mem t x = mem s x"
  shows "kstate KD n k t"
proof -
  have "word_at (mem t) a = word_at (mem s) a" if "KD \<le> a" "a + 4 \<le> KD + 151552" for a
    using that assms(2,7) by (intro word_at_cong) (auto simp: kroom_def)
  then show ?thesis using assms(1-6) by (auto simp: kstate_def kroom_def)
qed

lemma init_paging_start:
  assumes room: "kroom (page_up (unat (place_addr s)))"
  defines "KD \<equiv> page_up (unat (place_addr s))"
  shows "\<exists>t. (init_paging syms s = and_then (map_kernel 0 t) (\<lambda>_ s.
           let s = switch_page_directory (kernel_directory s) s;
               s = register_fault_handler 14 (sym_page_fault_handler syms) s
           in Some (Ret () (enable_paging s)))) \<and> kstate KD 0 0 t \<and>
         (\<forall>x. unat x < KD \<or> KD + 151552 \<le> unat x \<longrightarrow> mem t x = mem s x) \<and>
         t = s\<lparr>mem := mem t, place_addr := place_addr t, frames := frames t, kernel_directory := kernel_directory t\<rparr>"
proof -
  have b: "KD + 151552 \<le> 16711680" "KD mod 4096 = 0" using room by (simp_all add: kroom_def KD_def)
  note al = kroom_aligned [OF room, folded KD_def]
  define s1 where "s1 = s\<lparr>place_addr := of_nat (KD + 4096), kernel_directory := of_nat KD,
    mem := mem_set (of_nat KD) 0 4096 (mem s)\<rparr>"
  define t where "t = s1\<lparr>place_addr := of_nat (KD + 135168), frames := of_nat (KD + 4096),
    mem := mem_set (of_nat (KD + 4096)) 0 131072 (mem s1)\<rparr>"
  have k1: "kmalloc_a 4096 s = (of_nat KD, s\<lparr>place_addr := of_nat (KD + 4096)\<rparr>)"
    using b by (subst kmalloc_a_eq) (simp_all add: KD_def)
  have u1: "unat (place_addr s1) = KD + 4096"
    using b unat_of_nat_32 [of "KD + 4096"] by (simp add: s1_def)
  have k2: "kmalloc_a 131072 s1 = (of_nat (KD + 4096), s1\<lparr>place_addr := of_nat (KD + 135168)\<rparr>)"
    using b by (subst kmalloc_a_eq) (simp_all add: u1)
  have sizes: "4 * TABLES_PER_DIRECTORY = 4096" "4 * INDEX_FROM_BIT nframes = 131072"
    "INDEX_FROM_BIT (4 * nframes) = 131072"
    by (simp_all add: TABLES_PER_DIRECTORY_def INDEX_FROM_BIT_def nframes_def PAGES_PER_TABLE_def)
  have "init_paging syms s = and_then (map_kernel 0 t) (\<lambda>_ s.
           let s = switch_page_directory (kernel_directory s) s;
               s = register_fault_handler 14 (sym_page_fault_handler syms) s
           in Some (Ret () (enable_paging s)))"
    unfolding init_paging_def sizes k1 Let_def prod.case
    using k2 by (simp add: memset_def s1_def t_def)
  moreover have "word_at (mem t) a = 0" if "KD \<le> a" "a < KD + 135168" "4 dvd a" for a
    using that b al by (simp add: t_def s1_def word_at_zeroed del: of_nat_add)
  then have "kstate KD 0 0 t"
    using al by (simp add: kstate_def t_def s1_def)
  moreover have "mem t x = mem s x" if "unat x < KD \<or> KD + 151552 \<le> unat x" for x
    using that b
    by (auto simp: t_def s1_def mem_set_eq region_iff unat_of_nat_32 simp del: of_nat_add)
  moreover have "t = s\<lparr>mem := mem t, place_addr := place_addr t, frames := frames t,
      kernel_directory := kernel_directory t\<rparr>"
    by (cases s) (simp add: t_def s1_def)
  ultimately show ?thesis by blast
qed

text \<open>What \<open>init_paging\<close> changes, besides memory.\<close>

definition pframe :: "'a paging_scheme \<Rightarrow> 'a paging_scheme \<Rightarrow> bool" where
  "pframe s t \<longleftrightarrow> t = s\<lparr>mem := mem t, place_addr := place_addr t, frames := frames t,
     kernel_directory := kernel_directory t, current_dir := current_dir t, cr0 := cr0 t, cr3 := cr3 t\<rparr>"

lemma init_paging_kstate:
  assumes room: "kroom (page_up (unat (place_addr s)))"
    and fh: "unat (fault_handlers s) + 128 \<le> unat (place_addr s)"
  shows "\<exists>t. init_paging syms s = Some (Ret () t) \<and>
    kstate (page_up (unat (place_addr s))) 4 4080 t \<and>
    current_dir t = kernel_directory t \<and> cr3 t = kernel_directory t \<and> cr0 t = cr0 s OR 0x80000000 \<and>
    ld32 (mem t) (fault_handlers s + 56) = sym_page_fault_handler syms \<and>
    (\<forall>x. x \<notin> region (fault_handlers s + 56) 4 \<longrightarrow>
       unat x < page_up (unat (place_addr s)) \<or> page_up (unat (place_addr s)) + 151552 \<le> unat x \<longrightarrow>
       mem t x = mem s x) \<and> pframe s t"
proof -
  define KD where "KD = page_up (unat (place_addr s))"
  note room = room [folded KD_def]
  obtain t0 where t0: "init_paging syms s = and_then (map_kernel 0 t0) (\<lambda>_ s.
           let s = switch_page_directory (kernel_directory s) s;
               s = register_fault_handler 14 (sym_page_fault_handler syms) s
           in Some (Ret () (enable_paging s)))"
    "kstate KD 0 0 t0" "\<forall>x. unat x < KD \<or> KD + 151552 \<le> unat x \<longrightarrow> mem t0 x = mem s x"
    "t0 = s\<lparr>mem := mem t0, place_addr := place_addr t0, frames := frames t0, kernel_directory := kernel_directory t0\<rparr>"
    using init_paging_start [of s syms] room unfolding KD_def by blast
  have f0: "fault_handlers t0 = fault_handlers s" "cr0 t0 = cr0 s" by (subst t0(4), simp)+
  obtain t1 where t1: "map_kernel 0 t0 = Some (Ret () t1)" "kstate KD 4 4080 t1" "kframe KD t0 t1"
    using map_kernel_loop [of KD 0 t0] t0(2) room by (auto simp: tables_def)
  define t where "t = enable_paging (register_fault_handler 14 (sym_page_fault_handler syms)
    (switch_page_directory (kernel_directory t1) t1))"
  have run: "init_paging syms s = Some (Ret () t)" by (simp add: t0(1) t1(1) t_def Let_def)
  have f1: "fault_handlers t1 = fault_handlers s" "cr0 t1 = cr0 s"
    using kframe_fields [OF t1(3)] f0 by simp_all
  have below: "unat (fault_handlers s) + 128 \<le> KD"
    using fh page_up_ge [of "unat (place_addr s)"] by (simp add: KD_def)
  have slot: "unat (fault_handlers s + 56) = unat (fault_handlers s) + 56"
    using below room by (intro unat_add_no_wrap [of "fault_handlers s" 56, simplified]) (simp add: kroom_def)
  have m: "mem t = st32 (mem t1) (fault_handlers s + 56) (sym_page_fault_handler syms)"
    by (simp add: t_def enable_paging_def register_fault_handler_def switch_page_directory_def
        store32_def f1)
  have out: "mem t x = mem t1 x" if "x \<notin> region (fault_handlers s + 56) 4" for x
    using that by (simp add: m s32.st_frame)
  have "kstate KD 4 4080 t"
  proof (rule kstate_cong [OF t1(2) room])
    show "mem t x = mem t1 x" if "KD \<le> unat x" for x
      using that slot below unat_less_2p32 [of "fault_handlers s"] room
      by (intro out) (auto simp: region_iff [of "fault_handlers s + 56" 4, unfolded slot] kroom_def)
  qed (simp_all add: t_def enable_paging_def register_fault_handler_def switch_page_directory_def
      store32_def)
  moreover have "mem t x = mem s x"
    if "x \<notin> region (fault_handlers s + 56) 4" "unat x < KD \<or> KD + 151552 \<le> unat x" for x
    using that t0(3) kframe_mem [OF t1(3)] out by auto
  moreover have "pframe s t"
  proof -
    have "t1 = t0\<lparr>mem := mem t1, place_addr := place_addr t1\<rparr>" using t1(3) by (simp add: kframe_def)
    then show ?thesis
      using t0(4) by (cases s, cases t0, cases t1) (simp add: pframe_def t_def enable_paging_def
        register_fault_handler_def switch_page_directory_def store32_def)
  qed
  ultimately show ?thesis
    unfolding run KD_def [symmetric]
    by (intro exI [of _ t]) (simp add: m mem_simps, simp add: t_def enable_paging_def
        register_fault_handler_def switch_page_directory_def store32_def f1)
qed

end
