(* ===== verification/AllocPage.thy ===== *)
theory AllocPage
  imports KernelMap
begin

text \<open>
  \<open>alloc_page\<close> on any directory whose page table is already there. The structures it reads (the
  two directories and the bitset) are a set \<open>S\<close> of addresses; a table is usable when it is present,
  lies below a limit and avoids \<open>S\<close>.
\<close>

section \<open>Entries inside their pages\<close>

definition table_of :: "mem \<Rightarrow> u32 \<Rightarrow> u32 \<Rightarrow> u32" where
  "table_of m d va = ld32 m (dir_entry d va) AND 0xFFFFF000"

lemma table_entry_of: "table_entry m d va = table_of m d va + 4 * PAGE_INDEX_FROM_VIRTUAL_ADDRESS va"
  by (simp add: table_entry_def table_of_def)

lemma table_of_aligned: "unat (table_of m d va) mod 4096 = 0"
proof -
  have "take_bit 12 (table_of m d va) = 0"
    unfolding table_of_def page_mask by (intro bit_word_eqI) (auto simp: bit_simps)
  then show ?thesis by (simp add: word_unat_eq_iff take_bit_eq_mod unat_mod)
qed

lemma dir_entry_region:
  assumes "unat d + 4096 \<le> 4294967296"
  shows "region (dir_entry d va) 4 \<subseteq> region d 4096"
proof -
  have "unat va div 4096 div 1024 < 1024"
    using unat_less_2p32 [of va] by (simp add: div_less_iff_less_mult)
  then have "region (d + of_nat (4 * (unat va div 4096 div 1024))) 4 \<subseteq> region d 4096"
    using assms by (intro region_sub) simp_all
  then show ?thesis by (simp add: dir_entry_def table_index_of_nat)
qed

lemma table_entry_region: "region (table_entry m d va) 4 \<subseteq> region (table_of m d va) 4096"
proof -
  have "unat (table_of m d va) + 4096 \<le> 4294967296"
    by (rule page_room [OF table_of_aligned])
  then have "region (table_of m d va + of_nat (4 * (unat va div 4096 mod 1024))) 4
      \<subseteq> region (table_of m d va) 4096"
    by (intro region_sub) simp_all
  then show ?thesis by (simp add: table_entry_of page_index_of_nat)
qed

lemma table_of_cong:
  assumes "unat d + 4096 \<le> 4294967296" "\<And>x. x \<in> region d 4096 \<Longrightarrow> m x = m' x"
  shows "ld32 m (dir_entry d va) = ld32 m' (dir_entry d va)" "table_of m d va = table_of m' d va"
proof -
  show "ld32 m (dir_entry d va) = ld32 m' (dir_entry d va)"
    by (rule s32.ld_cong) (use assms dir_entry_region [OF assms(1), of va] in blast)
  then show "table_of m d va = table_of m' d va" by (simp add: table_of_def)
qed

text \<open>Two entries of page tables are the same word or do not overlap.\<close>

lemma table_entries_apart:
  assumes "table_entry m d va \<noteq> table_entry m' d' va'"
  shows "region (table_entry m d va) 4 \<inter> region (table_entry m' d' va') 4 = {}"
proof -
  have "\<exists>a. table_entry m d va = of_nat a \<and> 4 dvd a \<and> a < 4294967296" for m d va
  proof (intro exI conjI)
    let ?t = "table_of m d va" and ?i = "unat va div 4096 mod 1024"
    have t: "unat ?t + 4096 \<le> 4294967296"
      by (rule page_room [OF table_of_aligned])
    show "table_entry m d va = of_nat (unat ?t + 4 * ?i)"
      by (simp add: table_entry_of page_index_of_nat)
    have "4096 dvd unat ?t" using table_of_aligned [of m d va] by (simp add: mod_eq_0_iff_dvd)
    then have "4 dvd unat ?t" by (rule dvd_trans [rotated]) simp
    then show "4 dvd unat ?t + 4 * ?i" by simp
    have "?i < 1024" by simp
    then show "unat ?t + 4 * ?i < 4294967296" using t by linarith
  qed
  then obtain a b where "table_entry m d va = of_nat a" "4 dvd a" "a < 4294967296"
    "table_entry m' d' va' = of_nat b" "4 dvd b" "b < 4294967296" by metis
  with assms aligned_disjoint [of a b] show ?thesis by auto
qed

section \<open>Marking a frame\<close>

lemma bitset_word_region:
  assumes "unat fr + 131072 \<le> 4294967296" "f < 1048576"
  shows "region (fr + 4 * of_nat (f div 32)) 4 \<subseteq> region fr 131072"
proof -
  have "f div 32 < 32768" using assms(2) by (simp add: div_less_iff_less_mult)
  then have "region (fr + of_nat (4 * (f div 32))) 4 \<subseteq> region fr 131072"
    using assms(1) by (intro region_sub) simp_all
  then show ?thesis by simp
qed

lemma frame_used_cong:
  assumes "unat fr + 131072 \<le> 4294967296" "f < 1048576" "\<And>x. x \<in> region fr 131072 \<Longrightarrow> m x = m' x"
  shows "frame_used m fr f \<longleftrightarrow> frame_used m' fr f"
proof -
  have "ld32 m (fr + 4 * of_nat (f div 32)) = ld32 m' (fr + 4 * of_nat (f div 32))"
    by (rule s32.ld_cong) (use bitset_word_region [OF assms(1,2)] assms(3) in blast)
  then show ?thesis by (simp add: frame_used_def)
qed

lemma frame_used_mark:
  assumes fr: "unat fr + 131072 \<le> 4294967296" and b: "b < 1048576" and f: "f < 1048576"
  defines "p \<equiv> fr + 4 * of_nat (b div 32)"
  shows "frame_used (st32 m p (ld32 m p OR push_bit (b mod 32) 1)) fr f \<longleftrightarrow> f = b \<or> frame_used m fr f"
proof (cases "f div 32 = b div 32")
  case True
  have "f = b \<longleftrightarrow> f mod 32 = b mod 32" using True by (metis div_mult_mod_eq)
  then show ?thesis
    using True by (auto simp: frame_used_def p_def s32.ld_st bit_simps)
next
  case False
  have lt: "f div 32 < 32768" "b div 32 < 32768" using b f by (simp_all add: div_less_iff_less_mult)
  have u: "unat (fr + 4 * of_nat j) = unat fr + 4 * j" if "j < 32768" for j
    using that fr unat_add_of_nat [of fr "4 * j"] by simp
  have "region p 4 \<inter> region (fr + 4 * of_nat (f div 32)) 4 = {}"
    using False lt u fr by (auto simp: p_def region_iff)
  then show ?thesis using False by (auto simp: frame_used_def s32.ld_st_disjoint)
qed

lemma write_bitset_mark:
  assumes "b < 1048576"
  shows "write_bitset (of_nat (b * 4096)) 1 s =
    (let p = frames s + 4 * of_nat (b div 32)
     in store32 p (ld32 (mem s) p OR push_bit (b mod 32) 1) s)"
  using frame_position [OF assms] by (simp add: write_bitset_def Let_def)

section \<open>alloc_page\<close>

definition table_ok :: "u32 set \<Rightarrow> nat \<Rightarrow> mem \<Rightarrow> u32 \<Rightarrow> u32 \<Rightarrow> bool" where
  "table_ok S lim m d va \<longleftrightarrow> ld32 m (dir_entry d va) AND 1 \<noteq> 0 \<and>
     unat (table_of m d va) + 4096 \<le> lim \<and> region (table_of m d va) 4096 \<inter> S = {}"

text \<open>The two directories and the bitset, apart from each other.\<close>

definition structures :: "u32 \<Rightarrow> 'a paging_scheme \<Rightarrow> u32 set" where
  "structures d s = region d 4096 \<union> region (kernel_directory s) 4096 \<union> region (frames s) 131072"

definition structures_ok :: "nat \<Rightarrow> u32 \<Rightarrow> 'a paging_scheme \<Rightarrow> bool" where
  "structures_ok lim d s \<longleftrightarrow> lim \<le> 4294967295 \<and> unat d + 4096 \<le> lim \<and> unat (kernel_directory s) + 4096 \<le> lim \<and>
     unat (frames s) + 131072 \<le> lim \<and>
     region (frames s) 131072 \<inter> (region d 4096 \<union> region (kernel_directory s) 4096) = {}"

lemma push_bit_1_and: "k < 32 \<Longrightarrow> w AND push_bit k 1 = 0 \<longleftrightarrow> \<not> bit (w :: u32) k"
  using and_bit_0_iff [of k w] by simp

lemma alloc_page_frame:
  assumes b: "b < 1048576" "\<not> frame_used (mem s) (frames s) b"
    "\<And>g. g < b \<Longrightarrow> frame_used (mem s) (frames s) g"
    and present: "ld32 (mem s) (dir_entry d va) AND 1 \<noteq> 0"
  shows "alloc_page d va w ik s = Some (Ret (of_nat (b * 4096))
    (map_frame d va (of_nat (b * 4096)) (w \<noteq> 0) (ik \<noteq> 0) s))"
proof -
  have "scan_frames (mem s) (frames s) 0 = Some (of_nat (b * 4096))"
    using b by (intro scan_frames_least) simp_all
  moreover have "ld32 (mem s) (frames s + 4 * INDEX_FROM_ADDRESS (of_nat (b * 4096)))
      AND push_bit (unat (OFFSET_FROM_ADDRESS (of_nat (b * 4096)))) 1 = 0"
    unfolding frame_position [OF b(1)] using b(2) by (subst push_bit_1_and) (simp_all add: frame_used_def)
  ultimately show ?thesis
    using present by (simp add: alloc_page_def first_free_frame_def alloc_page_pr_def del: of_nat_mult)
qed

lemma flags_small: "unat (page_entry_flags w k) < 4096" "page_entry_flags w k AND 1 = 1"
  by (simp_all add: page_entry_flags_def)

lemma frame_address_mod: "b < 1048576 \<Longrightarrow> unat (of_nat (b * 4096) :: u32) mod 4096 = 0"
  by (subst unat_of_nat_32) simp_all

lemma add_frame_present:
  assumes "ld32 (mem s) (dir_entry (kernel_directory s) ph) AND 1 \<noteq> 0"
  shows "add_frame_to_kernel_dir ph s =
    (let p = table_entry (mem s) (kernel_directory s) ph
     in if ld32 (mem s) p AND 1 \<noteq> 0 then s else store32 p (ph OR 3) s)"
  using assms by (simp add: add_frame_to_kernel_dir_def Let_def)

lemma map_frame_present:
  assumes ok: "structures_ok lim d s" and t: "table_ok (structures d s) lim (mem s) d va"
    and b: "b < 1048576"
    and k: "d = kernel_directory s \<or> table_ok (structures d s) lim (mem s) (kernel_directory s) (of_nat (b * 4096))"
  defines "ph \<equiv> (of_nat (b * 4096) :: u32)"
  shows "\<exists>m'. map_frame d va ph w ik s = s\<lparr>mem := m'\<rparr> \<and>
    (\<forall>x. x \<notin> region (table_of (mem s) d va) 4096 \<union> region (frames s) 131072 \<longrightarrow>
       (d \<noteq> kernel_directory s \<longrightarrow> x \<notin> region (table_of (mem s) (kernel_directory s) ph) 4096) \<longrightarrow>
       m' x = mem s x) \<and>
    (\<forall>f<1048576. frame_used m' (frames s) f \<longleftrightarrow> f = b \<or> frame_used (mem s) (frames s) f) \<and>
    ld32 m' (table_entry (mem s) d va) = ph OR page_entry_flags w ik"
proof -
  let ?k = "kernel_directory s" and ?fr = "frames s" and ?m = "mem s"
  let ?T = "table_entry ?m d va" and ?K = "table_entry ?m ?k ph"
  define e where "e = ph OR page_entry_flags w ik"
  define p where "p = ?fr + 4 * of_nat (b div 32)"
  define m1 where "m1 = st32 ?m ?T e"
  define m2 where "m2 = st32 m1 p (ld32 m1 p OR push_bit (b mod 32) 1)"
  define m3 where "m3 = (if d = ?k \<or> ld32 m2 ?K AND 1 \<noteq> 0 then m2 else st32 m2 ?K (ph OR 3))"
  have lim: "unat d + 4096 \<le> 4294967296" "unat ?k + 4096 \<le> 4294967296" "unat ?fr + 131072 \<le> 4294967296"
    using ok by (simp_all add: structures_ok_def)
  note Tr = table_entry_region [of ?m d va]
  note pr = bitset_word_region [OF lim(3) b, folded p_def]
  note Kr = table_entry_region [of ?m ?k ph]
  have St: "region (table_of ?m d va) 4096 \<inter> structures d s = {}" using t by (simp add: table_ok_def)
  have out1: "m1 x = ?m x" if "x \<notin> region (table_of ?m d va) 4096" for x
    using that Tr by (auto simp: m1_def intro: s32.st_frame)
  have out2: "m2 x = m1 x" if "x \<notin> region ?fr 131072" for x
    using that pr by (auto simp: m2_def intro: s32.st_frame)
  have kd2: "m2 x = ?m x" if "x \<in> region ?k 4096" for x
  proof -
    have "x \<notin> region (table_of ?m d va) 4096" "x \<notin> region ?fr 131072"
      using that St ok by (auto simp: structures_def structures_ok_def)
    then show ?thesis by (simp add: out1 out2)
  qed
  note tk = table_of_cong [OF lim(2), of m2 ?m, OF kd2]
  have e1: "e AND 1 = 1" unfolding e_def ph_def
    using entry_flag [OF frame_address_mod [OF b]] flags_small(2) by simp
  have "region ?T 4 \<inter> region p 4 = {}" using Tr pr St by (auto simp: structures_def)
  then have T2: "ld32 m2 ?T = e" by (simp add: m2_def m1_def s32.ld_st s32.ld_st_disjoint Int_commute)
  have T3: "ld32 m3 ?T = e"
    using T2 e1 table_entries_apart [of ?m ?k ph ?m d va]
    by (cases "?K = ?T") (auto simp: m3_def s32.ld_st_disjoint)
  have "map_frame d va ph w ik s = s\<lparr>mem := m3\<rparr>"
  proof -
    have wb: "write_bitset ph 1 (store32 ?T e s) = s\<lparr>mem := m2\<rparr>"
      unfolding ph_def write_bitset_mark [OF b] by (simp add: Let_def store32_def p_def m1_def m2_def)
    have "add_frame_to_kernel_dir ph (s\<lparr>mem := m2\<rparr>) = s\<lparr>mem := m3\<rparr>" if "d \<noteq> ?k"
    proof -
      have "ld32 m2 (dir_entry ?k ph) AND 1 \<noteq> 0"
        using k that tk by (simp add: table_ok_def ph_def)
      then show ?thesis
        using that tk by (subst add_frame_present) (simp_all add: m3_def table_entry_of store32_def Let_def)
    qed
    then show ?thesis
      unfolding map_frame_def e_def [symmetric] Let_def wb by (auto simp: m3_def)
  qed
  moreover have "m3 x = ?m x"
    if "x \<notin> region (table_of ?m d va) 4096 \<union> region ?fr 131072"
      "d \<noteq> ?k \<longrightarrow> x \<notin> region (table_of ?m ?k ph) 4096" for x
  proof -
    have "m2 x = ?m x" using that(1) out1 out2 by simp
    moreover have "x \<notin> region ?K 4" if "d \<noteq> ?k" using that \<open>d \<noteq> ?k \<longrightarrow> _\<close> Kr by blast
    ultimately show ?thesis by (simp add: m3_def s32.st_frame)
  qed
  moreover have "frame_used m3 ?fr f \<longleftrightarrow> f = b \<or> frame_used ?m ?fr f" if "f < 1048576" for f
  proof -
    have "frame_used m1 ?fr f \<longleftrightarrow> frame_used ?m ?fr f"
      using St by (intro frame_used_cong [OF lim(3) that] out1) (auto simp: structures_def)
    moreover have "frame_used m3 ?fr f \<longleftrightarrow> frame_used m2 ?fr f"
    proof (rule frame_used_cong [OF lim(3) that])
      fix x assume "x \<in> region ?fr 131072"
      then have "x \<notin> region ?K 4" if "d \<noteq> ?k"
        using k that Kr by (auto simp: table_ok_def structures_def ph_def)
      then show "m3 x = m2 x" by (auto simp: m3_def intro: s32.st_frame)
    qed
    ultimately show ?thesis
      using frame_used_mark [OF lim(3) b that, of m1] by (simp add: m2_def p_def)
  qed
  ultimately show ?thesis using T3 unfolding e_def by blast
qed

end
