(* ===== verification/PageSupply.thy ===== *)
theory PageSupply
  imports AllocPage HeapMalloc
begin

text \<open>
  Paging as the provider of the pages \<open>malloc\<close> asks for: \<open>ready n p s\<close> describes the states from
  which \<open>alloc_new_page\<close> can serve \<open>n\<close> more pages behind the heap of \<open>p\<close>. The directories, the
  bitset and the tables it needs lie below the heap and apart from each other, and the next \<open>n\<close>
  frames are free.
\<close>

definition heap_end :: "process \<Rightarrow> nat" where
  "heap_end p = unat (heap_stack_boundary p) + unat (heap_size p)"

definition frames_left :: "nat \<Rightarrow> nat \<Rightarrow> 'a paging_scheme \<Rightarrow> bool" where
  "frames_left b n s \<longleftrightarrow> b + n \<le> 1048576 \<and>
     (\<forall>f<1048576. f < b + n \<longrightarrow> (frame_used (mem s) (frames s) f \<longleftrightarrow> f < b))"

definition ready_at :: "nat \<Rightarrow> nat \<Rightarrow> process \<Rightarrow> 'a paging_scheme \<Rightarrow> bool" where
  "ready_at b n p s \<longleftrightarrow>
     structures_ok (unat (heap_stack_boundary p)) (page_directory p) s \<and>
     0 < unat (heap_stack_boundary p) \<and> heap_end p + 4096 * n \<le> 4294967295 \<and>
     frames_left b n s \<and>
     (\<forall>i<n. table_ok (structures (page_directory p) s) (unat (heap_stack_boundary p)) (mem s)
               (page_directory p) (of_nat (heap_end p + 4096 * i)) \<and>
            table_ok (structures (page_directory p) s) (unat (heap_stack_boundary p)) (mem s)
               (kernel_directory s) (of_nat ((b + i) * 4096)))"

definition ready :: "nat \<Rightarrow> process \<Rightarrow> 'a paging_scheme \<Rightarrow> bool" where
  "ready n p s \<longleftrightarrow> (\<exists>b. ready_at b n p s)"

lemma table_ok_cong:
  assumes "unat d + 4096 \<le> 4294967296" "\<And>x. x \<in> region d 4096 \<Longrightarrow> m x = m' x"
  shows "table_ok S lim m d va \<longleftrightarrow> table_ok S lim m' d va"
  using table_of_cong [OF assms, where va = va] by (simp add: table_ok_def)

text \<open>Tables and bitset lie below the heap, so a write there leaves the heap alone.\<close>

lemma region_below: "unat a + n \<le> lim \<Longrightarrow> lim \<le> 4294967296 \<Longrightarrow> x \<in> region a n \<Longrightarrow> unat x < lim"
  using region_iff [of a n x] by auto

lemma ready_at_keep:
  assumes r: "ready_at b n p s" and m: "\<And>x. \<not> in_heap p x \<Longrightarrow> m x = mem s x"
  shows "ready_at b n p (s\<lparr>mem := m\<rparr>)"
proof -
  let ?a = "unat (heap_stack_boundary p)"
  have ok: "structures_ok ?a (page_directory p) s" using r by (simp add: ready_at_def)
  have low: "m x = mem s x" if "unat x < ?a" for x using m that by (simp add: in_heap_def)
  have d: "unat (page_directory p) + 4096 \<le> 4294967296" "unat (kernel_directory s) + 4096 \<le> 4294967296"
    and fr: "unat (frames s) + 131072 \<le> 4294967296"
    using ok by (simp_all add: structures_ok_def)
  have eq: "m x = mem s x"
    if "x \<in> region (page_directory p) 4096 \<or> x \<in> region (kernel_directory s) 4096 \<or>
      x \<in> region (frames s) 131072" for x
    using that ok by (intro low) (auto simp: structures_ok_def dest: region_below)
  have "table_ok S ?a m (page_directory p) va \<longleftrightarrow> table_ok S ?a (mem s) (page_directory p) va"
    "table_ok S ?a m (kernel_directory s) va \<longleftrightarrow> table_ok S ?a (mem s) (kernel_directory s) va" for S va
    by (rule table_ok_cong; use d eq in simp)+
  moreover have "frame_used m (frames s) f \<longleftrightarrow> frame_used (mem s) (frames s) f" if "f < 1048576" for f
    by (rule frame_used_cong [OF fr that]) (use eq in simp)
  ultimately show ?thesis
    using r by (auto simp: ready_at_def structures_def structures_ok_def frames_left_def)
qed

lemma one_page_more_simps [simp]:
  "heap_stack_boundary (one_page_more p) = heap_stack_boundary p"
  "page_directory (one_page_more p) = page_directory p"
  "heap_size (one_page_more p) = heap_size p + PAGE_SIZE"
  by (simp_all add: one_page_more_def)

lemma heap_end_one_page_more:
  "heap_end p + 4096 \<le> 4294967295 \<Longrightarrow> heap_end (one_page_more p) = heap_end p + 4096"
  by (simp add: heap_end_def PAGE_SIZE_def unat_add_no_wrap)

lemma alloc_new_page_supplies:
  assumes r: "ready_at b (Suc n) p s"
  shows "\<exists>t. alloc_new_page p s = Some (Ret (heap_size p + heap_stack_boundary p) t) \<and>
    ready_at (Suc b) n (one_page_more p) t \<and> (\<forall>x. in_heap p x \<longrightarrow> mem t x = mem s x)"
proof -
  let ?a = "unat (heap_stack_boundary p)" and ?d = "page_directory p" and ?k = "kernel_directory s"
  define va :: u32 where "va = heap_size p + heap_stack_boundary p"
  define ph :: u32 where "ph = of_nat (b * 4096)"
  define ik :: u32 where "ik = (if ?d = ?k then 1 else 0)"
  let ?S = "structures ?d s"
  have ok: "structures_ok ?a ?d s" and fl: "frames_left b (Suc n) s"
    and he: "heap_end p + 4096 * Suc n \<le> 4294967295" "0 < ?a"
    using r by (simp_all add: ready_at_def)
  have tabs: "table_ok ?S ?a (mem s) ?d (of_nat (heap_end p + 4096 * i))"
    "table_ok ?S ?a (mem s) ?k (of_nat ((b + i) * 4096))" if "i < Suc n" for i
    using r that by (auto simp: ready_at_def)
  have va: "va = of_nat (heap_end p)" by (simp add: va_def heap_end_def add.commute)
  have tv: "table_ok ?S ?a (mem s) ?d va" and tk: "table_ok ?S ?a (mem s) ?k ph"
    using tabs(1) [of 0] tabs(2) [of 0] by (simp_all add: va ph_def)
  have b: "b < 1048576" "\<not> frame_used (mem s) (frames s) b" "\<And>g. g < b \<Longrightarrow> frame_used (mem s) (frames s) g"
    using fl by (auto simp: frames_left_def)
  obtain m' where m': "map_frame ?d va ph (1 \<noteq> (0::u32)) (ik \<noteq> 0) s = s\<lparr>mem := m'\<rparr>"
    and out: "\<forall>x. x \<notin> region (table_of (mem s) ?d va) 4096 \<union> region (frames s) 131072 \<longrightarrow>
       (?d \<noteq> ?k \<longrightarrow> x \<notin> region (table_of (mem s) ?k ph) 4096) \<longrightarrow> m' x = mem s x"
    and used: "\<forall>f<1048576. frame_used m' (frames s) f \<longleftrightarrow> f = b \<or> frame_used (mem s) (frames s) f"
    using map_frame_present [OF ok tv b(1)] tk unfolding ph_def [symmetric] by blast
  define t where "t = s\<lparr>mem := m'\<rparr>"
  have run: "alloc_new_page p s = Some (Ret (heap_size p + heap_stack_boundary p) t)"
    using alloc_page_frame [OF b, of ?d va 1 ik] tv m'
    by (simp add: alloc_new_page_def va_def [symmetric] ik_def [symmetric] table_ok_def ph_def t_def)
  have dirs: "m' x = mem s x" if "x \<in> region ?d 4096 \<union> region ?k 4096" for x
  proof -
    have "x \<in> ?S" "x \<notin> region (frames s) 131072"
      using that ok by (auto simp: structures_def structures_ok_def)
    then show ?thesis using out tv tk by (auto simp: table_ok_def)
  qed
  have lims: "unat ?d + 4096 \<le> 4294967296" "unat ?k + 4096 \<le> 4294967296"
    using ok by (simp_all add: structures_ok_def)
  have tc: "table_ok ?S ?a m' ?d v \<longleftrightarrow> table_ok ?S ?a (mem s) ?d v"
    "table_ok ?S ?a m' ?k v \<longleftrightarrow> table_ok ?S ?a (mem s) ?k v" for v
    by (rule table_ok_cong; use lims dirs in auto)+
  have he': "heap_end (one_page_more p) = heap_end p + 4096"
    using he by (intro heap_end_one_page_more) simp
  have "ready_at (Suc b) n (one_page_more p) t"
    unfolding ready_at_def
  proof (intro conjI allI impI)
    show "frames_left (Suc b) n t" using fl used by (auto simp: frames_left_def t_def)
    fix i assume i: "i < n"
    show "table_ok (structures (page_directory (one_page_more p)) t)
        (unat (heap_stack_boundary (one_page_more p))) (mem t) (page_directory (one_page_more p))
        (of_nat (heap_end (one_page_more p) + 4096 * i))"
      using tabs(1) [of "Suc i"] i tc(1) he' by (simp add: t_def structures_def add.assoc)
    show "table_ok (structures (page_directory (one_page_more p)) t)
        (unat (heap_stack_boundary (one_page_more p))) (mem t) (kernel_directory t)
        (of_nat ((Suc b + i) * 4096))"
      using tabs(2) [of "Suc i"] i tc(2) by (simp add: t_def structures_def)
  qed (use ok he he' in \<open>simp_all add: t_def structures_ok_def\<close>)
  moreover have "mem t x = mem s x" if "in_heap p x" for x
  proof -
    have "\<not> unat x < ?a" using that by (simp add: in_heap_def)
    then have "x \<notin> region (table_of (mem s) ?d va) 4096" "x \<notin> region (frames s) 131072"
      "x \<notin> region (table_of (mem s) ?k ph) 4096"
      using ok tv tk by (auto simp: structures_ok_def table_ok_def dest: region_below)
    then show ?thesis using out by (simp add: t_def)
  qed
  ultimately show ?thesis using run by blast
qed

interpretation pages: page_supply ready
proof unfold_locales
  show "\<exists>t. alloc_new_page p s = Some (Ret (heap_size p + heap_stack_boundary p) t) \<and>
      ready n (one_page_more p) t \<and> (\<forall>x. in_heap p x \<longrightarrow> mem t x = mem s x)"
    if "ready (Suc n) p s" for n p and s :: "'a paging_scheme"
    using that alloc_new_page_supplies unfolding ready_def by blast
  show "ready n p (s\<lparr>mem := m\<rparr>)"
    if "ready n p s" "\<And>x. \<not> in_heap p x \<Longrightarrow> m x = mem s x" for n p m and s :: "'a paging_scheme"
    using that ready_at_keep unfolding ready_def by blast
  show "unat (heap_stack_boundary p) + unat (heap_size p) + 4096 * n \<le> 4294967295"
    if "ready n p s" for n p and s :: "'a paging_scheme"
    using that by (auto simp: ready_def ready_at_def heap_end_def)
qed

end
