(* ===== verification/HeapSpec.thy ===== *)
theory HeapSpec
  imports HeapAligned PageSupply
begin

text \<open>
  What the heap of a process promises: the properties of \<open>malloc\<close>, \<open>free\<close> and
  \<open>initialise_heap\<close> on the list of blocks, and the two requests that break it.
\<close>

section \<open>Helper facts\<close>

lemma tail_room_le_span: "tail_room bs \<le> span bs"
  by (induction bs rule: tail_room.induct) (auto simp: tail_room_Cons)

lemma malloc_loop_nonzero:
  assumes "0 < n" "n \<le> 4294967295"
  shows "malloc (of_nat n) p al s = malloc_loop (of_nat n) al p s"
proof -
  have "unat (of_nat n :: u32) = n" using assms by (intro unat_of_nat_32) simp
  then have "(of_nat n :: u32) \<noteq> 0" using assms(1) by (metis unat_0 less_irrefl)
  then show ?thesis by (simp add: malloc_def)
qed

lemma malloc_fits:
  assumes ok: "heap_ok p bs (mem s)" and n: "6 \<le> n" and f: "fit n bs = Some (off, cs)"
  defines "a \<equiv> unat (heap_stack_boundary p)"
  shows "malloc (of_nat n) p 0 s = Some (Ret (of_nat (a + off + 6), p)
      (s\<lparr>mem := claim_block (of_nat (a + off)) (of_nat n) (mem s)\<rparr>))"
    and "heap_ok p cs (claim_block (of_nat (a + off)) (of_nat n) (mem s))"
proof -
  have b: "blocks (mem s) a bs" "0 < a" "a + span bs \<le> 4294967295"
    using ok by (simp_all add: heap_ok_def a_def)
  have le: "off + 6 + n \<le> span bs" using fit_Some [OF f] by auto
  have n32: "n \<le> 4294967295" using le b(3) by simp
  have "unat (of_nat (a + off) :: u32) = a + off" using le b by (intro unat_of_nat_32) simp
  then have "0 < unat (of_nat (a + off) :: u32)" using b(2) by simp
  then have nz: "(of_nat (a + off) :: u32) \<noteq> 0" by (simp only: unat_gt_0 not_False_eq_True)
  have found: "get_free_block p (of_nat n) 0 (mem s) =
      Some (of_nat (a + off), claim_block (of_nat (a + off)) (of_nat n) (mem s))"
    using get_free_block_first_fit [OF ok n32] by (simp add: f a_def)
  show "malloc (of_nat n) p 0 s = Some (Ret (of_nat (a + off + 6), p)
      (s\<lparr>mem := claim_block (of_nat (a + off)) (of_nat n) (mem s)\<rparr>))"
    using nz n by (subst malloc_loop_nonzero [OF _ n32], simp, subst malloc_loop.simps)
      (simp add: found sizeof_block_def)
  show "heap_ok p cs (claim_block (of_nat (a + off)) (of_nat n) (mem s))"
    using ok fit_blocks(1) [OF b(1) f n b(3,2)] span_fit [OF f] fit_Some [OF f]
    by (auto simp: heap_ok_def a_def carve_def)
qed

text \<open>Sizes below 2^32 are determined by their words, so a chain is determined by the memory.\<close>

lemma word_size_unique:
  "(of_nat k :: u32) = of_nat j \<Longrightarrow> k \<le> 4294967295 \<Longrightarrow> j \<le> 4294967295 \<Longrightarrow> k = j"
  by (metis unat_of_nat_32 le_imp_less_Suc Suc_numeral semiring_norm(5,8) semiring_norm(2))

lemma blocks_prefix:
  assumes "blocks m a bs" "blocks m a cs" "span bs \<le> span cs" "span cs \<le> 4294967295"
  shows "\<exists>ys. cs = bs @ ys"
  using assms
proof (induction bs arbitrary: a cs rule: span.induct)
  case (2 f k bs)
  obtain g j ds where cs: "cs = (g, j) # ds" using 2(4) by (cases cs) auto
  have fg: "(of_nat k :: u32) = of_nat j" "f = g" using 2(2,3) cs by auto
  have j: "k = j" by (rule word_size_unique [OF fg(1)]) (use 2(4,5) cs in simp_all)
  obtain ys where "ds = bs @ ys"
    using 2(1) [of "a + 6 + k" ds] 2(2-5) cs j by auto
  then show ?case using cs j fg(2) by simp
qed simp

text \<open>A request for fewer than six bytes, served from a free block of fewer than six bytes: the
  subtraction in \<open>divide_block\<close> wraps.\<close>

lemma claim_small_block:
  assumes b: "blocks m a ((True, k) # bs)" and n: "0 < n" "n \<le> k" "k < 6"
    and le: "a + 12 + n \<le> 4294967295"
  defines "m' \<equiv> claim_block (of_nat a) (of_nat n) m"
  shows "block_size m' (of_nat a) = of_nat n"
    and "block_size m' (of_nat (a + 6 + n)) = of_nat (4294967290 + k - n)"
    and "unat x < a \<Longrightarrow> m' x = m x"
proof -
  have ap: "apart a a" "apart a (a + 6 + n)" "apart (a + 6 + n) a" "apart (a + 6 + n) (a + 6 + n)"
    using le by (simp_all add: apart_def)
  have sz: "block_size (set_is_free (of_nat a) 0 m) (of_nat a) = of_nat k"
    using b by (simp add: header_fields [OF ap(1)])
  have wrap: "(of_nat k - sizeof_block :: u32) = of_nat (4294967290 + k)"
    by (simp add: sizeof_block_def)
  have cmp: "\<not> (of_nat (4294967290 + k) :: u32) < of_nat n"
    using n by (simp add: word_less_nat_alt unat_of_nat_32 del: of_nat_add)
  have sub: "(of_nat (4294967290 + k) - of_nat n :: u32) = of_nat (4294967290 + k - n)"
    using n by (intro of_nat_diff [symmetric]) simp
  have ad: "(of_nat a + sizeof_block + of_nat n :: u32) = of_nat (a + 6 + n)"
    by (simp add: sizeof_block_def)
  have "unat (of_nat (a + 6 + n) :: u32) = a + 6 + n" using le by (intro unat_of_nat_32) simp
  then have "0 < unat (of_nat (a + 6 + n) :: u32)" by simp
  then have nz: "(of_nat (a + 6 + n) :: u32) \<noteq> 0" by (simp only: unat_gt_0 not_False_eq_True)
  have m': "m' = set_is_free (of_nat (a + 6 + n)) 1 (set_size (of_nat a) (of_nat n)
      (set_size (of_nat (a + 6 + n)) (of_nat (4294967290 + k - n)) (set_is_free (of_nat a) 0 m)))"
    unfolding m'_def claim_block_def divide_block_def sz wrap ad Let_def sub
    using cmp nz by (simp del: of_nat_add of_nat_diff)
  show "block_size m' (of_nat a) = of_nat n"
    and "block_size m' (of_nat (a + 6 + n)) = of_nat (4294967290 + k - n)"
    unfolding m' by (simp_all add: header_fields [OF ap(1)] header_fields [OF ap(2)]
        header_fields [OF ap(3)] header_fields [OF ap(4)] del: of_nat_add of_nat_diff)
  show "unat x < a \<Longrightarrow> m' x = m x"
    unfolding m' using le by (simp add: header_frame del: of_nat_add of_nat_diff)
qed

section \<open>Properties\<close>

text \<open>C1. \<open>malloc\<close> for at least six bytes, without alignment: when the free end of the heap
  and the pages paging can still supply are enough for the request and one header, it returns; the
  heap is a chain of blocks again, with exactly one more payload in use, of at least the size asked
  for, and every byte of the payloads in use before is unchanged.\<close>

theorem malloc_allocates:
  assumes "ready N p s" and "heap_ok p bs (mem s)" and "6 \<le> n"
    and "n + 6 \<le> tail_room bs + 4096 * N"
  shows "\<exists>q p' t cs. malloc (of_nat n) p 0 s = Some (Ret (of_nat q, p') t) \<and>
    heap_ok p' cs (mem t) \<and> one_more (unat (heap_stack_boundary p)) bs cs q n \<and>
    payloads_kept (unat (heap_stack_boundary p)) bs (mem s) (mem t)"
proof -
  have "n \<le> 4294967295"
    using assms(2,4) pages.room [OF assms(1)] tail_room_le_span [of bs] by (simp add: heap_ok_def)
  then show ?thesis
    using pages.malloc_loop_allocates [OF assms] assms(3) by (simp add: malloc_loop_nonzero) blast
qed

text \<open>C18. \<open>malloc\<close> of a request that fits, then \<open>free\<close> of the pointer: both return, and the heap
  is the same chain of blocks as before, provided no two neighbours were free.\<close>

theorem malloc_free_roundtrip:
  assumes "heap_ok p bs (mem s)" and "coalesced bs" and "6 \<le> n" and "fit n bs \<noteq> None"
  shows "\<exists>q t m. malloc (of_nat n) p 0 s = Some (Ret (q, p) t) \<and>
    free_block p q (mem t) = Some m \<and> heap_ok p bs m"
proof -
  obtain off cs where f: "fit n bs = Some (off, cs)" using assms(4) by auto
  obtain bs1 k bs2 where d: "bs = bs1 @ (True, k) # bs2" "cs = bs1 @ carve n k @ bs2" "off = span bs1"
    "n \<le> k" using fit_Some [OF f] by blast
  define j where "j = (if n + 6 \<le> k then n else k)"
  define ds where "ds = (if n + 6 \<le> k then (True, k - n - 6) # bs2 else bs2)"
  have cs: "cs = bs1 @ (False, j) # ds" by (simp add: d(2) carve_def j_def ds_def)
  have "coalesce (bs1 @ (True, j) # ds) = bs"
    using coalesce_carve [of bs1 k bs2 n] assms(2) d(1,4) by (auto simp: j_def ds_def split: if_splits)
  then show ?thesis
    using malloc_fits [OF assms(1,3) f] free_block_releases [of p bs1 j ds] by (auto simp: cs d(3))
qed

text \<open>\<open>free\<close> of a pointer to a payload in use returns; the heap is a chain of blocks without
  neighbouring free blocks, exactly that payload is released, and the bytes of all others are
  unchanged.\<close>

theorem free_releases:
  assumes "heap_ok p bs m" and "(q, k) \<in> set (allocs (unat (heap_stack_boundary p)) bs)"
  shows "\<exists>m' cs xs ys. free_block p (of_nat q) m = Some m' \<and> heap_ok p cs m' \<and> coalesced cs \<and>
    allocs (unat (heap_stack_boundary p)) bs = xs @ (q, k) # ys \<and>
    allocs (unat (heap_stack_boundary p)) cs = xs @ ys \<and>
    payloads_kept (unat (heap_stack_boundary p)) cs m m'"
proof -
  define a where "a = unat (heap_stack_boundary p)"
  obtain bs1 bs2 where d: "bs = bs1 @ (False, k) # bs2" "q = a + span bs1 + 6"
    using allocs_split [OF assms(2)] by (auto simp: a_def)
  define cs where "cs = coalesce (bs1 @ (True, k) # bs2)"
  have al: "allocs a bs = allocs a bs1 @ (q, k) # allocs (a + span bs1 + 6 + k) bs2"
    "allocs a cs = allocs a bs1 @ allocs (a + span bs1 + 6 + k) bs2"
    "allocs a cs = allocs a (bs1 @ (True, k) # bs2)"
    by (simp_all add: d cs_def allocs_append)
  obtain m' where "free_block p (of_nat q) m = Some m'" "heap_ok p cs m'"
    "payloads_kept a (bs1 @ (True, k) # bs2) m m'"
    using free_block_releases [of p bs1 k bs2 m] assms(1) by (auto simp: d a_def cs_def)
  moreover from this(3) have "payloads_kept a cs m m'" by (simp only: payloads_kept_def al(3))
  moreover have "coalesced cs" by (simp add: cs_def coalesced_coalesce)
  ultimately show ?thesis unfolding a_def [symmetric] using al(1,2) by blast
qed

text \<open>C25. \<open>unite_free_blocks\<close> is coalescing: it returns on every well-formed heap, merges every run
  of free blocks into one, and changes nothing outside the headers.\<close>

theorem unite_coalesces:
  assumes "heap_ok p bs m"
  shows "\<exists>m'. unite_free_blocks p m = Some m' \<and> heap_ok p (coalesce bs) m' \<and>
    coalesced (coalesce bs) \<and>
    allocs (unat (heap_stack_boundary p)) (coalesce bs) = allocs (unat (heap_stack_boundary p)) bs \<and>
    (\<forall>x. \<not> in_header (unat (heap_stack_boundary p)) bs (unat x) \<longrightarrow> m' x = m x)"
  using unite_free_blocks_coalesce [OF assms] by (simp add: coalesced_coalesce)

text \<open>C26. The search of \<open>get_free_block\<close> without alignment is first fit, with 0 exactly when
  no free block is large enough; the header it writes is the one \<open>fit\<close> describes.\<close>

theorem get_free_block_is_first_fit:
  assumes "heap_ok p bs m" and "6 \<le> n" and "n \<le> 4294967295"
  shows "case fit n bs of
      None \<Rightarrow> get_free_block p (of_nat n) 0 m = Some (0, m)
    | Some (off, cs) \<Rightarrow> \<exists>m'. get_free_block p (of_nat n) 0 m =
        Some (heap_stack_boundary p + of_nat off, m') \<and> heap_ok p cs m'"
proof (cases "fit n bs")
  case None
  then show ?thesis using get_free_block_first_fit [OF assms(1,3)] by simp
next
  case (Some r)
  obtain off cs where r: "r = (off, cs)" by (cases r)
  have b: "blocks m (unat (heap_stack_boundary p)) bs" "0 < unat (heap_stack_boundary p)"
    "unat (heap_stack_boundary p) + span bs \<le> 4294967295"
    using assms(1) by (simp_all add: heap_ok_def)
  have "heap_ok p cs (claim_block (of_nat (unat (heap_stack_boundary p) + off)) (of_nat n) m)"
    using assms(1) fit_blocks(1) [OF b(1) _ assms(2) b(3,2)] span_fit fit_Some Some r
    by (fastforce simp: heap_ok_def carve_def)
  then show ?thesis using get_free_block_first_fit [OF assms(1,3)] by (simp add: Some r)
qed

text \<open>C31. With alignment, when the first block that is large enough can also hold the request
  behind a page boundary: \<open>get_free_block\<close> returns the block whose payload starts exactly at that
  boundary, the free block is cut as \<open>carve_aligned\<close> says, and payloads in use keep their bytes. The boundary is the
  first one more than 12 bytes behind the start of the block (\<open>next_page\<close>), so that a free block of at least one byte stays in
  front. In particular a block whose payload is aligned as it stands is not returned but passed over to the boundary a page further
  on, against the comment at \<open>heap.c:33\<close> ("if current memory area is aligned then return that"): the test in line 34 binds
  \<open>%\<close> before \<open>+\<close>, compares \<open>effective_addr + 6\<close> with 0, and never holds in a heap.\<close>

theorem aligned_block:
  assumes "heap_ok p (bs1 @ (True, k) # bs2) m" and "al \<noteq> 0" and "0 < n"
    and "\<forall>(f, j) \<in> set bs1. f \<longrightarrow> j < n"
    and "next_page (unat (heap_stack_boundary p) + span bs1) + n
      \<le> unat (heap_stack_boundary p) + span bs1 + 6 + k"
  shows "\<exists>q m'. get_free_block p (of_nat n) al m = Some (of_nat q, m') \<and>
    q + 6 = next_page (unat (heap_stack_boundary p) + span bs1) \<and> (q + 6) mod 4096 = 0 \<and>
    heap_ok p (bs1 @ carve_aligned (unat (heap_stack_boundary p) + span bs1) n k @ bs2) m' \<and>
    payloads_kept (unat (heap_stack_boundary p)) (bs1 @ (True, k) # bs2) m m'"
proof -
  let ?A = "unat (heap_stack_boundary p) + span bs1"
  have "next_page ?A - 6 + 6 = next_page ?A" "next_page ?A mod 4096 = 0"
    using next_page [of ?A] by simp_all
  then show ?thesis using get_free_block_aligned [OF assms] by metis
qed

text \<open>With alignment, when the first block that is large enough contains no page boundary
  behind its header: the loop over aligned addresses never ends, so \<open>malloc\<close> does not return.\<close>

theorem aligned_malloc_diverges:
  assumes "heap_ok p (bs1 @ (True, k) # bs2) (mem s)" and "al \<noteq> 0" and "0 < n" and "n \<le> k" and "6 \<le> k"
    and "\<forall>(f, j) \<in> set bs1. f \<longrightarrow> j < n"
    and "\<forall>x. 4096 dvd x \<longrightarrow> \<not> (unat (heap_stack_boundary p) + span bs1 + 6 < x \<and>
      x \<le> unat (heap_stack_boundary p) + span bs1 + 6 + k)"
  shows "malloc (of_nat n) p al s = None"
proof -
  have "n \<le> 4294967295" using assms(1,4) by (simp add: heap_ok_def)
  moreover have "get_free_block p (of_nat n) al (mem s) = None"
    by (rule get_free_block_diverges [OF assms(1,2,6,4,5,7)])
  ultimately show ?thesis
    using assms(3) by (subst malloc_loop_nonzero, simp, simp, subst malloc_loop.simps) simp
qed

text \<open>A request of fewer than six bytes served from a free block of fewer than six bytes: the
  size comparison in \<open>divide_block\<close> wraps, a header is written over what follows the block, and the
  memory no longer holds any chain of blocks of the heap's size.\<close>

theorem small_request_breaks_heap:
  assumes "heap_ok p (bs1 @ (True, k) # bs2) m" and "\<forall>(f, j) \<in> set bs1. f \<longrightarrow> j < n"
    and "0 < n" and "n \<le> k" and "k < 6" and "n < k \<or> bs2 \<noteq> []"
    and "unat (heap_stack_boundary p) + unat (heap_size p) + 12 \<le> 4294967295"
  shows "\<exists>q m'. get_free_block p (of_nat n) 0 m = Some (q, m') \<and> \<not> (\<exists>cs. heap_ok p cs m')"
proof -
  define a A where "a = unat (heap_stack_boundary p)" and "A = a + span bs1"
  have b: "blocks m a bs1" "blocks m A ((True, k) # bs2)"
    and sp: "span bs1 + 6 + k + span bs2 = unat (heap_size p)"
    and le: "A + 12 + k + span bs2 + 6 \<le> 4294967295"
    using assms(1,7) by (simp_all add: heap_ok_def a_def A_def blocks_append)
  define m' where "m' = claim_block (of_nat A) (of_nat n) m"
  note c = claim_small_block [OF b(2) assms(3,4,5), folded m'_def]
  have "fit n (bs1 @ (True, k) # bs2) = Some (span bs1, bs1 @ carve n k @ bs2)"
    using assms(2,4) by (induction bs1 rule: span.induct) auto
  then have "get_free_block p (of_nat n) 0 m = Some (of_nat A, m')"
    using get_free_block_first_fit [OF assms(1), of n] le assms(4) by (simp add: m'_def A_def a_def)
  moreover have False if ok: "heap_ok p cs m'" for cs
  proof -
    have "blocks m' a bs1 \<longleftrightarrow> blocks m a bs1"
      using le c(3) assms(4) by (intro blocks_cong) (auto simp: A_def dest!: in_header_bounds)
    then have pre: "blocks m' a (bs1 @ [(block_is_free m' (of_nat A) \<noteq> 0, n)])"
      using b(1) c(1) le assms(4) by (simp add: blocks_append A_def [symmetric])
    define xs where "xs = [(block_is_free m' (of_nat A) \<noteq> 0, n)]"
    have cs: "blocks m' a cs" "span cs = span bs1 + 6 + k + span bs2"
      using ok sp by (simp_all add: heap_ok_def a_def)
    obtain ys where ys: "cs = bs1 @ ys"
      using blocks_prefix [of m' a bs1 cs] b(1) \<open>blocks m' a bs1 \<longleftrightarrow> blocks m a bs1\<close> cs le
      by (auto simp: A_def)
    then have y: "blocks m' A ys" "span ys = 6 + k + span bs2"
      using cs by (simp_all add: blocks_append A_def)
    then obtain f j zs where yj: "ys = (f, j) # zs" by (cases ys) auto
    have "j = n" using y yj c(1) le assms(4) word_size_unique [of j n] by simp
    then have z: "blocks m' (A + 6 + n) zs" "span zs + n = k + span bs2" using y yj by simp_all
    have "zs \<noteq> []" using z(2) assms(4,6) by (cases bs2) auto
    then obtain g i ws where zs: "zs = (g, i) # ws" by (cases zs) auto
    have "(of_nat i :: u32) = of_nat (4294967290 + k - n)"
      using z(1) zs c(2) le assms(4) by simp
    moreover have "i + 6 + n \<le> k + span bs2" using z(2) zs by simp
    ultimately show False
      using word_size_unique [of i "4294967290 + k - n"] assms(3,4,5) le by simp
  qed
  ultimately show ?thesis by blast
qed

text \<open>\<open>initialise_heap\<close> makes the whole heap one free block and writes nothing outside it.\<close>

theorem initialise_heap_one_block:
  assumes "0 < heap_stack_boundary p" and "6 \<le> heap_size p"
    and "unat (heap_stack_boundary p) + unat (heap_size p) \<le> 4294967295"
  shows "heap_ok p [(True, unat (heap_size p) - 6)] (initialise_heap p m) \<and>
    (\<forall>x. \<not> in_heap p x \<longrightarrow> initialise_heap p m x = m x)"
  using initialise_heap_ok [OF assms] by blast

section \<open>A concrete heap\<close>

text \<open>A process with one page of heap at 4 MB, whose directory (also the kernel's) names one page
  table for the first 8 MB; all frames are free.\<close>

definition zero_regs :: regs where
  "zero_regs = \<lparr>r_gs = 0, r_fs = 0, r_es = 0, r_ds = 0, r_edi = 0, r_esi = 0, r_ebp = 0, r_esp = 0,
     r_ebx = 0, r_edx = 0, r_ecx = 0, r_eax = 0, r_int_no = 0, r_err_code = 0, r_eip = 0, r_cs = 0,
     r_eflags = 0, r_useresp = 0, r_ss = 0\<rparr>"

definition demo_process :: process where
  "demo_process = \<lparr>heap_stack_boundary = 0x400000, heap_size = 0x1000, page_directory = 0x10000,
     pid = 1, last_state_regs = zero_regs, priority_level = 0\<rparr>"

definition demo_tables :: mem where
  "demo_tables = st32 (st32 (\<lambda>_. 0) 0x10000 0x20003) 0x10004 0x20003"

definition demo_state :: "mem \<Rightarrow> paging" where
  "demo_state m = \<lparr>mem = m, dev = \<lambda>_ _. 0, trace = [], cx = 0, cy = 0, place_addr = 0x30000,
     idt = 0, idtp_limit = 0, idtp_base = 0, idtr = None, interrupts_on = False, fault_handlers = 0,
     irq_routines = replicate 16 0, frames = 0x40000, kernel_directory = 0x10000,
     current_dir = 0x10000, cr0 = 0x80000001, cr2 = 0, cr3 = 0x10000\<rparr>"

definition demo_heap :: mem where "demo_heap = initialise_heap demo_process demo_tables"

lemma demo_process_simps [simp]:
  "heap_stack_boundary demo_process = 0x400000" "heap_size demo_process = 0x1000"
  "page_directory demo_process = 0x10000"
  by (simp_all add: demo_process_def)

lemma demo_state_simps [simp]:
  "mem (demo_state m) = m" "frames (demo_state m) = 0x40000" "kernel_directory (demo_state m) = 0x10000"
  "demo_state m\<lparr>mem := m'\<rparr> = demo_state m'"
  by (simp_all add: demo_state_def)

lemma demo_heap_ok: "heap_ok demo_process [(True, 4090)] demo_heap"
  using initialise_heap_ok(1) [of demo_process demo_tables] by (simp add: demo_heap_def)

lemma demo_entries: "ld32 demo_tables 0x10000 = 0x20003" "ld32 demo_tables 0x10004 = 0x20003"
  "ld32 demo_tables 0x40000 = 0"
proof -
  have "region (0x10004 :: u32) 4 \<inter> region 0x10000 4 = {}" "region (0x10004 :: u32) 4 \<inter> region 0x40000 4 = {}"
    "region (0x10000 :: u32) 4 \<inter> region 0x40000 4 = {}"
    by (auto simp: region_iff)
  then show "ld32 demo_tables 0x10000 = 0x20003" "ld32 demo_tables 0x10004 = 0x20003"
    "ld32 demo_tables 0x40000 = 0"
    by (simp_all add: demo_tables_def s32.ld_st s32.ld_st_disjoint) (simp add: ld32_def)
qed

lemma demo_ready: "ready 1 demo_process (demo_state demo_heap)"
proof -
  have e: "dir_entry 0x10000 0x401000 = 0x10004" "dir_entry 0x10000 0 = 0x10000"
    by (simp_all add: dir_entry_def TABLE_INDEX_FROM_VIRTUAL_ADDRESS_def drop_bit_eq_div)
  have t: "table_of demo_tables 0x10000 0x401000 = 0x20000" "table_of demo_tables 0x10000 0 = 0x20000"
    by (simp_all add: table_of_def e demo_entries)
  have r: "region (0x20000 :: u32) 4096 \<inter> structures 0x10000 (demo_state demo_tables) = {}"
    "region (0x40000 :: u32) 131072 \<inter> region 0x10000 4096 = {}"
    by (auto simp: structures_def region_iff)
  have "ready_at 0 1 demo_process (demo_state demo_tables)"
    by (simp add: ready_at_def structures_ok_def heap_end_def frames_left_def table_ok_def r
        frame_used_def e t demo_entries)
  then have "ready_at 0 1 demo_process (demo_state demo_tables\<lparr>mem := demo_heap\<rparr>)"
    by (rule ready_at_keep) (simp add: demo_heap_def initialise_heap_ok(2))
  then show ?thesis unfolding ready_def by auto
qed

section \<open>Witnesses\<close>

text \<open>The request is larger than the heap: \<open>malloc\<close> has to map a page.\<close>

theorem malloc_allocates_witness:
  "\<exists>q p' t cs. malloc 5000 demo_process 0 (demo_state demo_heap) = Some (Ret (of_nat q, p') t) \<and>
    heap_ok p' cs (mem t) \<and> one_more 0x400000 [(True, 4090)] cs q 5000"
  using malloc_allocates [of 1 demo_process "demo_state demo_heap" "[(True, 4090)]" 5000]
    demo_ready demo_heap_ok by (simp add: tail_room_Cons) blast

theorem malloc_free_roundtrip_witness:
  "\<exists>q t m. malloc 50 demo_process 0 (demo_state demo_heap) = Some (Ret (q, demo_process) t) \<and>
    free_block demo_process q (mem t) = Some m \<and> heap_ok demo_process [(True, 4090)] m"
  using malloc_free_roundtrip [of demo_process "[(True, 4090)]" "demo_state demo_heap" 50] demo_heap_ok
  by simp

text \<open>The heap after one request for 50 bytes.\<close>

definition demo_used :: mem where "demo_used = claim_block 0x400000 50 demo_heap"

lemma demo_used_ok: "heap_ok demo_process [(False, 50), (True, 4034)] demo_used"
  using malloc_fits(2) [of demo_process "[(True, 4090)]" "demo_state demo_heap" 50 0 "[(False, 50), (True, 4034)]"]
    demo_heap_ok by (simp add: demo_used_def carve_def)

theorem free_releases_witness:
  "\<exists>m'. free_block demo_process 0x400006 demo_used = Some m'"
  using free_releases [of demo_process "[(False, 50), (True, 4034)]" demo_used "0x400006" 50] demo_used_ok
  by auto

theorem unite_coalesces_witness:
  "\<exists>m'. unite_free_blocks demo_process demo_used = Some m' \<and>
    heap_ok demo_process [(False, 50), (True, 4034)] m'"
  using unite_coalesces [OF demo_used_ok] by auto

theorem get_free_block_is_first_fit_witness:
  "\<exists>m'. get_free_block demo_process 100 0 demo_used = Some (0x400038, m')"
  using get_free_block_is_first_fit [OF demo_used_ok, of 100] by (auto simp: carve_def)

theorem aligned_block_witness:
  "\<exists>m'. get_free_block (demo_process\<lparr>heap_size := 0x2000\<rparr>) 100 1
    (initialise_heap (demo_process\<lparr>heap_size := 0x2000\<rparr>) demo_tables) = Some (0x400FFA, m')"
proof -
  let ?p = "demo_process\<lparr>heap_size := 0x2000\<rparr>"
  have ok: "heap_ok ?p ([] @ (True, 8186) # []) (initialise_heap ?p demo_tables)"
    using initialise_heap_ok(1) [of ?p demo_tables] by simp
  have np: "next_page 4194304 = 4198400" by (simp add: next_page_def page_up_def)
  obtain q m' where "get_free_block ?p (of_nat 100) 1 (initialise_heap ?p demo_tables) = Some (of_nat q, m')"
    "q + 6 = 4198400"
    using aligned_block [OF ok, of 1 100] by (auto simp: np)
  moreover from this(2) have "q = 4198394" by simp
  ultimately show ?thesis by auto
qed

text \<open>The heap after requests for 50 and 100 bytes and the release of the first.\<close>

lemma demo_hole: "\<exists>m. heap_ok demo_process [(True, 50), (False, 100), (True, 3928)] m"
proof -
  have "heap_ok demo_process [(False, 50), (False, 100), (True, 3928)]
      (claim_block (of_nat (4194304 + 56)) (of_nat 100) demo_used)"
    using malloc_fits(2) [of demo_process "[(False, 50), (True, 4034)]" "demo_state demo_used" 100 56
        "[(False, 50), (False, 100), (True, 3928)]"] demo_used_ok by (simp add: carve_def)
  then show ?thesis
    using free_block_releases [of demo_process "[]" 50 "[(False, 100), (True, 3928)]"] by auto
qed

theorem aligned_malloc_diverges_witness:
  "\<exists>m. heap_ok demo_process [(True, 50), (False, 100), (True, 3928)] m \<and>
    malloc 20 demo_process 1 (demo_state m) = None"
proof -
  obtain m where m: "heap_ok demo_process ([] @ (True, 50) # [(False, 100), (True, 3928)]) m"
    using demo_hole by auto
  have "\<not> (4194310 < x \<and> x \<le> 4194360)" if d: "4096 dvd x" for x :: nat
  proof -
    obtain q where "x = 4096 * q" using d by (auto simp: dvd_def)
    then show ?thesis by (cases "q \<le> 1024") simp_all
  qed
  then have "malloc (of_nat 20) demo_process 1 (demo_state m) = None"
    using m aligned_malloc_diverges [of demo_process "[]" 50 "[(False, 100), (True, 3928)]" "demo_state m" 1 20]
    by simp
  then show ?thesis using m by auto
qed

theorem small_request_breaks_heap_witness:
  "\<exists>m q m'. heap_ok demo_process [(False, 4080), (True, 4)] m \<and>
    get_free_block demo_process 2 0 m = Some (q, m') \<and> \<not> (\<exists>cs. heap_ok demo_process cs m')"
proof -
  obtain m where m: "heap_ok demo_process ([(False, 4080)] @ (True, 4) # []) m"
    using malloc_fits(2) [of demo_process "[(True, 4090)]" "demo_state demo_heap" 4080 0
        "[(False, 4080), (True, 4)]"] demo_heap_ok by (auto simp: carve_def)
  then show ?thesis using small_request_breaks_heap [OF m, of 2] by auto
qed

theorem initialise_heap_one_block_witness:
  "heap_ok demo_process [(True, 4090)] (initialise_heap demo_process (\<lambda>_. 7))"
  using initialise_heap_one_block [of demo_process "\<lambda>_. 7"] by simp

end
