(* ===== verification/NewDirectory.thy ===== *)
theory NewDirectory
  imports AllocPage
begin

text \<open>
  \<open>get_new_kernel_mapped_dir\<close>: the directory of a new process. \<open>mirror ND n k s\<close> is the state of
  its loop: the directory is at \<open>ND\<close>, \<open>n\<close> tables are behind it, and the first \<open>k\<close> pages are mapped
  to themselves. The other entries of the last table, which the code does not
  clear, hold whatever the memory there held before (\<open>mframe\<close>: from \<open>ND + 20416\<close> on nothing changes).
\<close>

definition mroom :: "nat \<Rightarrow> bool" where
  "mroom ND \<longleftrightarrow> ND mod 4096 = 0 \<and> ND + 20480 \<le> 4294967295"

definition mirror :: "nat \<Rightarrow> nat \<Rightarrow> nat \<Rightarrow> 'a paging_scheme \<Rightarrow> bool" where
  "mirror ND n k s \<longleftrightarrow>
     place_addr s = of_nat (ND + 4096 + 4096 * n) \<and>
     (\<forall>j<1024. word_at (mem s) (ND + 4 * j) = (if j < n then of_nat (ND + 4096 + 4096 * j) OR 3 else 0)) \<and>
     (\<forall>q<k. word_at (mem s) (ND + 4096 + 4 * q) = of_nat (4096 * q) OR 3)"

definition mframe :: "nat \<Rightarrow> 'a paging_scheme \<Rightarrow> 'a paging_scheme \<Rightarrow> bool" where
  "mframe ND s t \<longleftrightarrow> t = s\<lparr>mem := mem t, place_addr := place_addr t\<rparr> \<and>
     (\<forall>x. unat x < ND \<or> ND + 20416 \<le> unat x \<longrightarrow> mem t x = mem s x)"

lemma mframe_refl: "mframe ND s s"
  by (simp add: mframe_def)

lemma mframe_trans: "mframe ND s t \<Longrightarrow> mframe ND t u \<Longrightarrow> mframe ND s u"
  by (cases s, cases t, cases u) (auto simp: mframe_def)

lemma mframe_store:
  assumes "mroom ND" "ND \<le> a" "a + 4 \<le> ND + 20416"
  shows "mframe ND s (store32 (of_nat a) v s)"
proof -
  have "x \<notin> region (of_nat a) 4" if "unat x < ND \<or> ND + 20416 \<le> unat x" for x
    using assms that by (auto simp: region_iff unat_of_nat_32 mroom_def)
  then show ?thesis by (simp add: mframe_def store32_def s32.st_frame)
qed

lemma mroom_aligned:
  assumes "mroom ND"
  shows "4 dvd ND + 4 * j" "4 dvd ND + 4096 + 4 * j"
proof -
  have "4096 dvd ND" using assms by (simp add: mroom_def mod_eq_0_iff_dvd)
  then have "4 dvd ND" by (rule dvd_trans [rotated]) simp
  then show "4 dvd ND + 4 * j" "4 dvd ND + 4096 + 4 * j" by (simp_all add: dvd_add)
qed

lemma mroom_page:
  assumes "mroom ND" "j < 4"
  shows "unat (of_nat (ND + 4096 + 4096 * j) :: u32) mod 4096 = 0"
    "(ND + 4096 + 4096 * j) mod 4096 = 0"
proof -
  have "(ND + 4096 * (1 + j)) mod 4096 = 0" using assms(1) by (simp only: mod_mult_self2 mroom_def)
  moreover have e: "ND + 4096 + 4096 * j = ND + 4096 * (1 + j)" by simp
  ultimately show m: "(ND + 4096 + 4096 * j) mod 4096 = 0" by (simp only: e)
  have "unat (of_nat (ND + 4096 + 4096 * j) :: u32) = ND + 4096 + 4096 * j"
    using assms by (intro unat_of_nat_32) (simp add: mroom_def)
  then show "unat (of_nat (ND + 4096 + 4096 * j) :: u32) mod 4096 = 0" using m by (simp only:)
qed

text \<open>The directory entry and the table entry of page \<open>k\<close>.\<close>

lemma mirror_entries:
  assumes st: "mirror ND n j s" and room: "mroom ND" and n: "n \<le> 4" and k: "k < 4096"
  shows "dir_entry (of_nat ND) (of_nat (k * 4096)) = of_nat (ND + 4 * (k div 1024))"
    and "ld32 (mem s) (of_nat (ND + 4 * (k div 1024))) =
      (if k div 1024 < n then of_nat (ND + 4096 + 4096 * (k div 1024)) OR 3 else 0)"
    and "k div 1024 < n \<Longrightarrow> table_entry (mem s) (of_nat ND) (of_nat (k * 4096)) = of_nat (ND + 4096 + 4 * k)"
proof -
  have kb: "k < 1048576" and q: "k div 1024 < 4" using k by (simp_all add: div_less_iff_less_mult)
  then have q1: "k div 1024 < 1024" by simp
  show d: "dir_entry (of_nat ND) (of_nat (k * 4096)) = of_nat (ND + 4 * (k div 1024))"
    unfolding dir_entry_def page_number [OF kb] by simp
  show w: "ld32 (mem s) (of_nat (ND + 4 * (k div 1024))) =
      (if k div 1024 < n then of_nat (ND + 4096 + 4096 * (k div 1024)) OR 3 else 0)"
    using st q1 unfolding mirror_def word_at_def [symmetric] by blast
  assume lt: "k div 1024 < n"
  have "ld32 (mem s) (dir_entry (of_nat ND) (of_nat (k * 4096))) AND 0xFFFFF000
      = of_nat (ND + 4096 + 4096 * (k div 1024))"
    unfolding d w using lt entry_page [OF mroom_page(1) [OF room q], of 3] by simp
  then have "table_entry (mem s) (of_nat ND) (of_nat (k * 4096))
      = of_nat (ND + 4096 + (4096 * (k div 1024) + 4 * (k mod 1024)))"
    unfolding table_entry_def page_number [OF kb] by simp
  moreover have "4096 * (k div 1024) + 4 * (k mod 1024) = 4 * k"
    using div_mult_mod_eq [of k 1024] by linarith
  ultimately show "table_entry (mem s) (of_nat ND) (of_nat (k * 4096)) = of_nat (ND + 4096 + 4 * k)"
    by simp
qed

text \<open>Writing the entry of page \<open>k\<close>.\<close>

lemma mirror_write:
  assumes st: "mirror ND n k s" and room: "mroom ND" and n: "n \<le> 4" and k: "k < 1024 * n" "k < 4080"
  defines "t \<equiv> store32 (of_nat (ND + 4096 + 4 * k)) (of_nat (k * 4096) OR 3) s"
  shows "mirror ND n (Suc k) t" and "mframe ND s t"
proof -
  note al = mroom_aligned [OF room]
  have b: "ND + 20480 \<le> 4294967295" using room by (simp add: mroom_def)
  have m: "mem t = st32 (mem s) (of_nat (ND + 4096 + 4 * k)) (of_nat (k * 4096) OR 3)"
    by (simp add: t_def store32_def)
  show "mframe ND s t" unfolding t_def using n k by (intro mframe_store room) simp_all
  have w: "word_at (mem t) c = (if c = ND + 4096 + 4 * k then of_nat (k * 4096) OR 3 else word_at (mem s) c)"
    if "4 dvd c" "c < 4294967296" for c
    unfolding m using al(2) b n k that by (subst word_at_store) auto
  have "word_at (mem t) (ND + 4 * j) = word_at (mem s) (ND + 4 * j)" if "j < 1024" for j
    using that b by (subst w [OF al(1)]) auto
  moreover have "word_at (mem t) (ND + 4096 + 4 * q) = of_nat (4096 * q) OR 3" if "q < Suc k" for q
    using that b n k st by (subst w [OF al(2)]) (auto simp: mirror_def less_Suc_eq mult.commute)
  moreover have "place_addr t = place_addr s" by (simp add: t_def store32_def)
  ultimately show "mirror ND n (Suc k) t" using st by (simp add: mirror_def)
qed

text \<open>Making the table for page \<open>1024 * n\<close>.\<close>

lemma mirror_table:
  fixes s :: "'a paging_scheme"
  assumes st: "mirror ND n k s" and room: "mroom ND" and n: "n < 4" and k: "k = 1024 * n"
  shows "\<exists>t. kmalloc_a (4 * PAGES_PER_TABLE) s = (of_nat (ND + 4096 + 4096 * n), t) \<and>
    mirror ND (Suc n) k (store32 (of_nat (ND + 4 * n)) (of_nat (ND + 4096 + 4096 * n) OR 3)
      (store32 (of_nat (ND + 4 * n)) (of_nat (ND + 4096 + 4096 * n)) t)) \<and>
    mframe ND s (store32 (of_nat (ND + 4 * n)) (of_nat (ND + 4096 + 4096 * n) OR 3)
      (store32 (of_nat (ND + 4 * n)) (of_nat (ND + 4096 + 4096 * n)) t))"
proof -
  note al = mroom_aligned [OF room]
  define p where "p = ND + 4096 + 4096 * n"
  define e where "e = ND + 4 * n"
  have b: "ND + 20480 \<le> 4294967295" using room by (simp add: mroom_def)
  have up: "unat (of_nat p :: u32) = p" using b n by (intro unat_of_nat_32) (simp add: p_def)
  have pl: "place_addr s = of_nat p" using st by (simp add: mirror_def p_def)
  have e4: "4 dvd e" "e < 4294967296" using al(1) b n by (simp_all add: e_def)
  define t where "t = s\<lparr>place_addr := of_nat (p + 4096)\<rparr>"
  have ka: "kmalloc_a (4 * PAGES_PER_TABLE) s = (of_nat p, t)"
    using mroom_page(2) [OF room n] up pl b n
    by (subst kmalloc_a_eq) (simp_all add: PAGES_PER_TABLE_def p_def t_def)
  define u where "u = store32 (of_nat e) (of_nat p OR 3) (store32 (of_nat e) (of_nat p) t)"
  have m: "mem u = st32 (st32 (mem s) (of_nat e) (of_nat p)) (of_nat e) (of_nat p OR 3)"
    by (simp add: u_def store32_def t_def)
  have w: "word_at (mem u) c = (if c = e then of_nat p OR 3 else word_at (mem s) c)"
    if "4 dvd c" "c < 4294967296" for c
    using that e4 by (simp add: m word_at_store)
  have "word_at (mem u) (ND + 4 * j) = (if j < Suc n then of_nat (ND + 4096 + 4096 * j) OR 3 else 0)"
    if "j < 1024" for j
    using that b st by (subst w [OF al(1)]) (auto simp: mirror_def e_def p_def less_Suc_eq)
  moreover have "word_at (mem u) (ND + 4096 + 4 * q) = of_nat (4096 * q) OR 3" if "q < k" for q
    using that b n k st by (subst w [OF al(2)]) (auto simp: mirror_def e_def)
  moreover have "place_addr u = of_nat (ND + 4096 + 4096 * Suc n)"
    by (simp add: u_def store32_def t_def p_def algebra_simps)
  ultimately have "mirror ND (Suc n) k u" by (simp add: mirror_def)
  moreover have "mframe ND s u"
  proof -
    have "mframe ND s t" by (simp add: mframe_def t_def)
    moreover have "mframe ND v (store32 (of_nat e) c v)" for v :: "'a paging_scheme" and c
      using n by (intro mframe_store room) (simp_all add: e_def)
    ultimately show ?thesis unfolding u_def by (blast intro: mframe_trans)
  qed
  ultimately show ?thesis using ka unfolding u_def p_def e_def by blast
qed

section \<open>The loop\<close>

lemma mirror_page_step:
  assumes st: "mirror ND (tables k) k s" and room: "mroom ND" and k: "k < 4080"
  defines "t \<equiv> mirror_page (of_nat ND) (of_nat (k * 4096)) s"
  shows "mirror ND (tables (Suc k)) (Suc k) t" and "mframe ND s t"
proof -
  let ?i = "of_nat (k * 4096) :: u32"
  have k4: "k < 4096" using k by simp
  have "mirror ND (tables (Suc k)) (Suc k) t \<and> mframe ND s t"
  proof (cases "k mod 1024 = 0")
    case True
    note tb = tables_Suc(1) [OF True]
    then have kn: "k = 1024 * tables k" by blast
    have t4: "tables k < 4" using kn k by linarith
    have kdiv: "k div 1024 = tables k" by (subst (1) kn) simp
    let ?e = "of_nat (ND + 4 * tables k) :: u32" and ?p = "of_nat (ND + 4096 + 4096 * tables k) :: u32"
    note en = mirror_entries [OF st room _ k4, unfolded kdiv]
    obtain v where v: "kmalloc_a (4 * PAGES_PER_TABLE) s = (?p, v)"
      "mirror ND (Suc (tables k)) k (store32 ?e (?p OR 3) (store32 ?e ?p v))"
      "mframe ND s (store32 ?e (?p OR 3) (store32 ?e ?p v))"
      using mirror_table [OF st room t4 kn] by blast
    define u where "u = store32 ?e (?p OR 3) (store32 ?e ?p v)"
    have s4: "Suc (tables k) \<le> 4" and lt: "k < 1024 * Suc (tables k)" using t4 kn by simp_all
    note en' = mirror_entries [OF v(2) room s4 k4, folded u_def, unfolded kdiv]
    have t: "t = store32 (of_nat (ND + 4096 + 4 * k)) (?i OR 3) u"
      using en(1,2) en'(3) t4 v(1)
      by (simp add: t_def mirror_page_def Let_def u_def [symmetric] store32_def [of ?e ?p] s32.ld_st)
        (simp add: u_def store32_def s32.ld_st)
    show ?thesis
      using mirror_write [OF v(2) room s4 lt k] v(3) tb
      by (auto simp: t u_def intro: mframe_trans)
  next
    case False
    note tb = tables_Suc(2) [OF False]
    have lt: "k div 1024 < tables k" using tb by (simp add: div_less_iff_less_mult mult.commute)
    have le: "tables k \<le> 4" using k by (intro tables_le) simp
    have "k div 1024 < 4" using k by (simp add: div_less_iff_less_mult)
    note en = mirror_entries [OF st room le k4] and pg = mroom_page(1) [OF room this]
    have t: "t = store32 (of_nat (ND + 4096 + 4 * k)) (?i OR 3) s"
      using en lt entry_flag [OF pg, of 3] by (simp add: t_def mirror_page_def)
    show ?thesis using mirror_write [OF st room le _ k] tb by (simp add: t)
  qed
  then show "mirror ND (tables (Suc k)) (Suc k) t" and "mframe ND s t" by simp_all
qed

lemma mirror_kernel_loop:
  assumes "mirror ND (tables k) k s" and room: "mroom ND" and "k \<le> 4080"
  shows "mirror ND 4 4080 (mirror_kernel (of_nat ND) (of_nat (k * 4096)) s)"
    and "mframe ND s (mirror_kernel (of_nat ND) (of_nat (k * 4096)) s)"
proof -
  have "mirror ND 4 4080 (mirror_kernel (of_nat ND) (of_nat (k * 4096)) s) \<and>
    mframe ND s (mirror_kernel (of_nat ND) (of_nat (k * 4096)) s)"
    using assms(1,3)
  proof (induction "4080 - k" arbitrary: k s)
    case 0
    then have k: "k = 4080" by simp
    have "mirror_kernel (of_nat ND) (of_nat (k * 4096)) s = s"
      by (subst mirror_kernel.simps) (simp add: KERNEL_MEM_END_def k)
    with 0 show ?case by (simp add: k mframe_refl tables_def)
  next
    case (Suc d)
    then have k: "k < 4080" and d: "d = 4080 - Suc k" by simp_all
    let ?ph = "of_nat (k * 4096) :: u32"
    have u: "unat ?ph = k * 4096" using k by (intro unat_of_nat_32) simp
    have lt: "?ph < KERNEL_MEM_END"
      using k by (simp only: word_less_nat_alt u) (simp add: KERNEL_MEM_END_def)
    note step = mirror_page_step [OF Suc.prems(1) room k]
    have nxt: "?ph + PAGE_SIZE = of_nat (Suc k * 4096)" by (simp add: PAGE_SIZE_def algebra_simps)
    have "mirror_kernel (of_nat ND) ?ph s =
        mirror_kernel (of_nat ND) (of_nat (Suc k * 4096)) (mirror_page (of_nat ND) ?ph s)"
      by (subst mirror_kernel.simps) (simp only: lt if_True nxt)
    moreover have "Suc k \<le> 4080" using k by simp
    ultimately show ?case using Suc.hyps(1) [OF d step(1)] step(2) by (auto intro: mframe_trans)
  qed
  then show "mirror ND 4 4080 (mirror_kernel (of_nat ND) (of_nat (k * 4096)) s)"
    and "mframe ND s (mirror_kernel (of_nat ND) (of_nat (k * 4096)) s)" by simp_all
qed

lemma get_new_kernel_mapped_dir_mirror:
  fixes s :: "'a paging_scheme"
  defines "ND \<equiv> page_up (unat (place_addr s))"
  assumes room: "mroom ND"
  shows "\<exists>t. get_new_kernel_mapped_dir s = (of_nat ND, t) \<and> mirror ND 4 4080 t \<and>
    t = s\<lparr>mem := mem t, place_addr := place_addr t\<rparr> \<and>
    (\<forall>x. unat x < ND \<or> ND + 20416 \<le> unat x \<longrightarrow> mem t x = mem s x)"
proof -
  have b: "ND + 20480 \<le> 4294967295" using room by (simp add: mroom_def)
  note al = mroom_aligned [OF room]
  define s1 where "s1 = s\<lparr>place_addr := of_nat (ND + 4096), mem := mem_set (of_nat ND) 0 4096 (mem s)\<rparr>"
  have ka: "kmalloc_a 4096 s = (of_nat ND, s\<lparr>place_addr := of_nat (ND + 4096)\<rparr>)"
    using b by (subst kmalloc_a_eq) (simp_all add: ND_def)
  have run: "get_new_kernel_mapped_dir s = (of_nat ND, mirror_kernel (of_nat ND) 0 s1)"
    by (simp add: get_new_kernel_mapped_dir_def TABLES_PER_DIRECTORY_def ka memset_def s1_def)
  have "word_at (mem s1) (ND + 4 * j) = 0" if "j < 1024" for j
    using that b al(1) [of j] al(1) [of 0] by (simp add: s1_def word_at_zeroed)
  then have "mirror ND (tables 0) 0 s1" by (simp add: mirror_def tables_def s1_def)
  note loop = mirror_kernel_loop [OF this room, simplified]
  have "mframe ND s s1" using b by (auto simp: mframe_def s1_def mem_set_eq region_iff unat_of_nat_32)
  then have "mframe ND s (mirror_kernel (of_nat ND) 0 s1)" using loop(2) by (rule mframe_trans)
  then show ?thesis using run loop(1) by (auto simp: mframe_def)
qed

lemma mirror_walk:
  assumes st: "mirror ND 4 4080 s" and room: "mroom ND" and va: "va < KERNEL_MEM_END"
  shows "walk (mem s) (of_nat ND) va = Some va"
proof -
  define q where "q = unat va div 4096"
  have uva: "unat va < 16711680" using va by (simp add: KERNEL_MEM_END_def word_less_nat_alt)
  have q: "q < 4080" "q < 4096" "q div 1024 < 4"
    using uva by (simp_all add: q_def div_less_iff_less_mult)
  define pg :: u32 where "pg = of_nat (q * 4096)"
  have up: "unat pg = q * 4096" unfolding pg_def using q by (intro unat_of_nat_32) simp
  have same: "dir_entry (of_nat ND) va = dir_entry (of_nat ND) pg"
    "table_entry (mem s) (of_nat ND) va = table_entry (mem s) (of_nat ND) pg"
    using up by (simp_all add: dir_entry_def table_entry_def table_index_of_nat page_index_of_nat q_def)
  note en = mirror_entries [OF st room _ q(2), folded pg_def]
  have pte: "ld32 (mem s) (of_nat (ND + 4096 + 4 * q)) = pg OR 3"
    using st q(1) unfolding mirror_def word_at_def [symmetric] pg_def by (metis mult.commute)
  have aligned: "unat (of_nat ND :: u32) mod 4096 = 0"
    using room by (subst unat_of_nat_32) (simp_all add: mroom_def)
  have pm: "unat pg mod 4096 = 0" using up by simp
  have "walk (mem s) (of_nat ND) va = Some (pg OR (va AND 0xFFF))"
    using en q(3) pte entry_flag [OF mroom_page(1) [OF room q(3)], of 3] entry_flag [OF pm, of 3]
      entry_page [OF pm, of 3]
    by (simp add: walk_entries [OF aligned] same)
  also have "pg OR (va AND 0xFFF) = va" by (rule page_offset_split) (simp add: up q_def)
  finally show ?thesis .
qed

lemma mirror_walk_high:
  assumes st: "mirror ND 4 4080 s" and room: "mroom ND" and va: "0x1000000 \<le> va"
  shows "walk (mem s) (of_nat ND) va = None"
proof -
  have aligned: "unat (of_nat ND :: u32) mod 4096 = 0"
    using room by (subst unat_of_nat_32) (simp_all add: mroom_def)
  define j where "j = unat va div 4096 div 1024"
  have "16777216 \<le> unat va" using va by (simp add: word_le_nat_alt)
  then have "4 \<le> j" by (simp add: j_def less_eq_div_iff_mult_less_eq)
  moreover have "j < 1024" using unat_less_2p32 [of va] by (simp add: j_def div_less_iff_less_mult)
  ultimately have "word_at (mem s) (ND + 4 * j) = 0" using st by (simp add: mirror_def)
  moreover have "dir_entry (of_nat ND) va = of_nat (ND + 4 * j)"
    by (simp add: dir_entry_def table_index_of_nat j_def)
  ultimately show ?thesis by (simp add: walk_entries [OF aligned] word_at_def)
qed

end
