(* ===== verification/IdtSpec.thy ===== *)
theory IdtSpec
  imports Idt
begin

text \<open>
  What the descriptor table and the kernel's bump allocator promise: a gate decodes to what was
  stored in it, \<open>idt_install\<close> leaves the 48 gates, the empty handler tables and the loaded table
  register, and allocations are above everything allocated before.
\<close>

section \<open>Gates\<close>

text \<open>How the processor reads a gate.\<close>

definition gate_base :: "mem \<Rightarrow> u32 \<Rightarrow> u32" where
  "gate_base m e = ucast (ld16 m e) OR push_bit 16 (ucast (ld16 m (e + 6)))"

definition gate_is :: "mem \<Rightarrow> u32 \<Rightarrow> u32 \<Rightarrow> u16 \<Rightarrow> u8 \<Rightarrow> bool" where
  "gate_is m e base sel flags \<longleftrightarrow>
     gate_base m e = base \<and> ld16 m (e + 2) = sel \<and> m (e + 4) = 0 \<and> m (e + 5) = flags"

lemma halves: "ucast (ucast (b AND 0xFFFF) :: u16) OR push_bit 16 (ucast (ucast (drop_bit 16 b AND 0xFFFF) :: u16)) = (b :: u32)"
proof -
  have e: "(0xFFFF :: u32) = mask 16" by (simp add: mask_eq_exp_minus_1)
  show ?thesis unfolding e by (rule bit_word_eqI) (auto simp: bit_simps)
qed

lemma bytes16: "ucast (ucast v :: u8) OR push_bit 8 (ucast (ucast (drop_bit 8 v) :: u8)) = (v :: u16)"
  by (rule word16_bytes)

lemma idt_set_gate_mem:
  "mem (idt_set_gate num base sel flags s) =
     (let e = idt s + 8 * ucast num in
      st8 (st8 (st16 (st16 (st16 (mem s) (e + 6) (ucast (drop_bit 16 base AND 0xFFFF))) e
        (ucast (base AND 0xFFFF))) (e + 2) sel) (e + 5) flags) (e + 4) 0)"
  by (simp add: idt_set_gate_def store8_def store16_def Let_def)

lemma idt_set_gate_frame:
  "idt_set_gate num base sel flags s = s\<lparr>mem := mem (idt_set_gate num base sel flags s)\<rparr>"
  by (simp add: idt_set_gate_def store8_def store16_def Let_def)

lemma gate_stored:
  fixes h l sel :: u16 and flags :: u8
  defines "w \<equiv> \<lambda>m e. st8 (st8 (st16 (st16 (st16 m (e + 6) h) e l) (e + 2) sel) (e + 5) flags) (e + 4) 0"
  shows "ld16 (w m e) e = l" "ld16 (w m e) (e + 2) = sel" "ld16 (w m e) (e + 6) = h"
    "w m e (e + 4) = 0" "w m e (e + 5) = flags"
    and "x \<notin> region e 8 \<Longrightarrow> w m e x = m x"
proof -
  show "ld16 (w m e) e = l" "ld16 (w m e) (e + 2) = sel" "ld16 (w m e) (e + 6) = h"
    "w m e (e + 4) = 0" "w m e (e + 5) = flags"
    by (simp_all add: w_def st8_def st16_def ld16_def add.assoc bytes16)
  assume x: "x \<notin> region e 8"
  have "x \<noteq> e + of_nat k" if "k < 8" for k
    using x that region_offset [of k 8 e] by auto
  from this [of 0] this [of 1] this [of 2] this [of 3] this [of 4] this [of 5] this [of 6] this [of 7]
  show "w m e x = m x" by (simp add: w_def st8_def st16_def add.assoc)
qed

lemma idt_set_gate_gate:
  fixes s :: "'a ints_scheme" and num :: u8
  defines "e \<equiv> idt s + 8 * ucast num"
  shows "gate_is (mem (idt_set_gate num base sel flags s)) e base sel flags"
    and "x \<notin> region e 8 \<Longrightarrow> mem (idt_set_gate num base sel flags s) x = mem s x"
  unfolding idt_set_gate_mem Let_def e_def [symmetric] gate_is_def gate_base_def
  by (simp_all add: gate_stored halves)

lemma gate_is_cong:
  assumes "\<And>x. x \<in> region e 8 \<Longrightarrow> m x = m' x"
  shows "gate_is m e b sel fl \<longleftrightarrow> gate_is m' e b sel fl"
proof -
  have "e + of_nat k \<in> region e 8" if "k < 8" for k using that by (intro region_offset) simp_all
  from assms [OF this [of 0]] assms [OF this [of 1]] assms [OF this [of 2]] assms [OF this [of 3]]
    assms [OF this [of 4]] assms [OF this [of 5]] assms [OF this [of 6]] assms [OF this [of 7]]
  show ?thesis by (simp add: gate_is_def gate_base_def ld16_def add.assoc)
qed

text \<open>A row of gates, from number \<open>c\<close> on.\<close>

lemma gates_fold:
  fixes s :: "'a ints_scheme" and f :: "nat \<Rightarrow> u32" and sel :: u16 and fl :: u8
  assumes "c + k \<le> 256" and "unat (idt s) + 2048 \<le> 4294967296"
  defines "t \<equiv> fold (\<lambda>n. idt_set_gate (of_nat (c + n)) (f n) sel fl) [0..<k] s"
  shows "t = s\<lparr>mem := mem t\<rparr> \<and>
    (\<forall>n<k. gate_is (mem t) (idt s + of_nat (8 * (c + n))) (f n) sel fl) \<and>
    (\<forall>x. x \<notin> region (idt s + of_nat (8 * c)) (8 * k) \<longrightarrow> mem t x = mem s x)"
  using assms(1) unfolding t_def
proof (induction k)
  case (Suc k)
  define u where "u = fold (\<lambda>n. idt_set_gate (of_nat (c + n)) (f n) sel fl) [0..<k] s"
  define t where "t = idt_set_gate (of_nat (c + k)) (f k) sel fl u"
  have u: "u = s\<lparr>mem := mem u\<rparr>" "\<forall>n<k. gate_is (mem u) (idt s + of_nat (8 * (c + n))) (f n) sel fl"
    "\<forall>x. x \<notin> region (idt s + of_nat (8 * c)) (8 * k) \<longrightarrow> mem u x = mem s x"
    using Suc unfolding u_def by auto
  have iu: "idt u = idt s" by (subst u(1)) simp
  have at: "unat (idt s + of_nat (8 * j)) = unat (idt s) + 8 * j" if "j < 256" for j
    using that assms(2) by (intro unat_add_of_nat) simp
  have "(ucast (of_nat (c + k) :: u8) :: u32) = of_nat (c + k)"
    using Suc.prems by (simp add: word_unat_eq_iff unsigned_ucast_eq take_bit_eq_mod unat_of_nat
        del: of_nat_add)
  then have e: "idt u + 8 * ucast (of_nat (c + k) :: u8) = idt s + of_nat (8 * (c + k))"
    by (simp only: iu of_nat_mult of_nat_numeral)
  note g = idt_set_gate_gate [where s = u and num = "of_nat (c + k)" and base = "f k" and sel = sel
      and flags = fl, unfolded e, folded t_def]
  have disj: "region (idt s + of_nat (8 * (c + n))) 8 \<inter> region (idt s + of_nat (8 * (c + k))) 8 = {}"
    if "n < k" for n
    using that Suc.prems assms(2) at [of "c + n"] at [of "c + k"] by (intro region_disjoint) simp_all
  have "gate_is (mem t) (idt s + of_nat (8 * (c + n))) (f n) sel fl" if "n < Suc k" for n
  proof (cases "n = k")
    case False
    then have "gate_is (mem t) (idt s + of_nat (8 * (c + n))) (f n) sel fl \<longleftrightarrow>
        gate_is (mem u) (idt s + of_nat (8 * (c + n))) (f n) sel fl"
      using that disj [of n] by (intro gate_is_cong g(2)) auto
    then show ?thesis using u(2) that False by simp
  qed (use g(1) in simp)
  moreover have "mem t x = mem s x" if x: "x \<notin> region (idt s + of_nat (8 * c)) (8 * Suc k)" for x
  proof -
    have b: "unat (idt s + of_nat (8 * c)) + 8 * Suc k \<le> 4294967296"
      using Suc.prems assms(2) at [of c] by simp
    have "x \<notin> region (idt s + of_nat (8 * c)) (8 * k)" using x b by (auto simp: region_iff)
    moreover have "x \<notin> region (idt s + of_nat (8 * (c + k))) 8"
      using x b Suc.prems assms(2) at [of c] at [of "c + k"] by (auto simp: region_iff)
    ultimately show ?thesis using u(3) g(2) by simp
  qed
  moreover have "t = s\<lparr>mem := mem t\<rparr>"
    unfolding t_def by (subst idt_set_gate_frame, subst u(1)) simp
  moreover have "fold (\<lambda>n. idt_set_gate (of_nat (c + n)) (f n) sel fl) [0..<Suc k] s = t"
    by (simp add: t_def u_def)
  ultimately show ?case by simp
qed simp

section \<open>idt\_install\<close>

lemma irq_remap_frame: "mem (irq_remap s) = mem s" "idt (irq_remap s) = idt s"
  "irq_remap s = s\<lparr>trace := trace (irq_remap s)\<rparr>"
  by (simp_all add: irq_remap_def outb_def)

lemma idt_install_state:
  fixes s :: "'a ints_scheme"
  assumes room: "page_up (unat (place_addr s)) + 2176 \<le> 4294967295"
  defines "T \<equiv> of_nat (page_up (unat (place_addr s))) :: u32"
  shows "idt (idt_install syms s) = T" "idtr (idt_install syms s) = Some (2047, T)"
    "interrupts_on (idt_install syms s)" "fault_handlers (idt_install syms s) = T + 2048"
    "n < 32 \<Longrightarrow> gate_is (mem (idt_install syms s)) (T + of_nat (8 * n)) (sym_isr syms n) 0x08 0x8E"
    "n < 16 \<Longrightarrow> gate_is (mem (idt_install syms s)) (T + of_nat (8 * (32 + n))) (sym_irq syms n) 0x08 0x8E"
    "x \<in> region (T + 2048) 128 \<Longrightarrow> mem (idt_install syms s) x = 0"
    "x \<notin> region T 2176 \<Longrightarrow> mem (idt_install syms s) x = mem s x"
    "irq_routines (idt_install syms s) = irq_routines s"
    "place_addr (idt_install syms s) = T + 2176"
proof -
  let ?p = "page_up (unat (place_addr s))"
  define s1 where "s1 = s\<lparr>idt := T, idtp_limit := 2047, idtp_base := T, place_addr := 2176 + T,
    fault_handlers := T + 2048, mem := mem_set (T + 2048) 0 128 (mem_set T 0 2048 (mem s))\<rparr>"
  define s2 where "s2 = fold (\<lambda>n. idt_set_gate (of_nat n) (sym_isr syms n) 0x08 0x8E) [0..<32] s1"
  define s3 where "s3 = irq_install syms s2"
  have uT: "unat T = ?p" "unat (T + 2048) = ?p + 2048"
    using room unat_of_nat_32 [of ?p] unat_add_of_nat [of T 2048] by (simp_all add: T_def)
  have inst: "idt_install syms s = s3\<lparr>idtr := Some (idtp_limit s3, idtp_base s3), interrupts_on := True\<rparr>"
    using room
    by (simp add: idt_install_def isrs_install_def Let_def kmalloc_a_eq kmalloc_eq memset_def
        T_def [symmetric] s3_def s2_def s1_def)
  have iT: "idt s1 = T" "unat (idt s1) + 2048 \<le> 4294967296" using room uT by (simp_all add: s1_def)
  note g1 = gates_fold [of 0 32 s1 "sym_isr syms" "0x08" "0x8E", simplified, OF iT(2) [simplified], folded s2_def]
  have s2: "s2 = s1\<lparr>mem := mem s2\<rparr>" using g1 by blast
  define r where "r = irq_remap s2"
  have ir: "idt r = T" "mem r = mem s2" unfolding r_def irq_remap_frame(1,2) by (subst s2, simp add: iT) simp
  have ir2: "unat (idt r) + 2048 \<le> 4294967296" using iT ir by simp
  have s3r: "s3 = fold (\<lambda>n. idt_set_gate (of_nat (32 + n)) (sym_irq syms n) 0x08 0x8E) [0..<16] r"
    by (simp add: s3_def irq_install_def r_def)
  have g2: "s3 = r\<lparr>mem := mem s3\<rparr>"
    "\<forall>n<16. gate_is (mem s3) (T + of_nat (8 * (32 + n))) (sym_irq syms n) 0x08 0x8E"
    "\<forall>x. x \<notin> region (T + of_nat (8 * 32)) (8 * 16) \<longrightarrow> mem s3 x = mem r x"
    using gates_fold [of 32 16 r "sym_irq syms" "0x08" "0x8E", OF _ ir2, folded s3r] unfolding ir(1) by auto
  have s3: "s3 = s1\<lparr>mem := mem s3, trace := trace r\<rparr>"
    by (subst g2(1), unfold r_def, subst irq_remap_frame(3), subst s2) simp
  show "idt (idt_install syms s) = T" "idtr (idt_install syms s) = Some (2047, T)"
    "interrupts_on (idt_install syms s)" "fault_handlers (idt_install syms s) = T + 2048"
    "irq_routines (idt_install syms s) = irq_routines s" "place_addr (idt_install syms s) = T + 2176"
    unfolding inst by (subst s3, simp add: s1_def)+
  have m: "mem (idt_install syms s) = mem s3" by (simp add: inst)
  have out: "mem s3 x = mem s1 x" if "unat x < ?p \<or> ?p + 384 \<le> unat x" for x
  proof -
    have "unat (T + of_nat (8 * 32)) = ?p + 256" using room uT unat_add_of_nat [of T 256] by simp
    then have "x \<notin> region (T + of_nat (8 * 32)) (8 * 16)" "x \<notin> region T 256"
      using that room uT by (auto simp: region_iff)
    then show ?thesis using g1 g2(3) ir(2) iT(1) by simp
  qed
  show "gate_is (mem (idt_install syms s)) (T + of_nat (8 * (32 + n))) (sym_irq syms n) 0x08 0x8E" if "n < 16"
    using g2(2) that by (simp add: m)
  show "gate_is (mem (idt_install syms s)) (T + of_nat (8 * n)) (sym_isr syms n) 0x08 0x8E" if n: "n < 32"
  proof -
    have "unat (T + of_nat (8 * 32)) = ?p + 256" "unat (T + of_nat (8 * n)) = ?p + 8 * n"
      using room uT n unat_add_of_nat [of T 256] unat_add_of_nat [of T "8 * n"] by simp_all
    then have "region (T + of_nat (8 * n)) 8 \<inter> region (T + of_nat (8 * 32)) (8 * 16) = {}"
      using n room by (intro region_disjoint) simp_all
    then have "gate_is (mem s3) (T + of_nat (8 * n)) (sym_isr syms n) 0x08 0x8E \<longleftrightarrow>
        gate_is (mem s2) (T + of_nat (8 * n)) (sym_isr syms n) 0x08 0x8E"
      using g2(3) ir(2) by (intro gate_is_cong) auto
    then show ?thesis using g1 n iT(1) by (simp add: m)
  qed
  show "mem (idt_install syms s) x = 0" if "x \<in> region (T + 2048) 128"
  proof -
    have "mem s1 x = 0" using that by (simp add: s1_def mem_set_eq)
    moreover have "?p + 384 \<le> unat x" using that room uT by (auto simp: region_iff)
    ultimately show ?thesis using out by (simp add: m)
  qed
  show "mem (idt_install syms s) x = mem s x" if "x \<notin> region T 2176"
  proof -
    have "x \<notin> region (T + 2048) 128" "x \<notin> region T 2048" using that room uT by (auto simp: region_iff)
    then have "mem s1 x = mem s x" by (simp add: s1_def mem_set_eq)
    moreover have "unat x < ?p \<or> ?p + 384 \<le> unat x" using that room uT by (auto simp: region_iff)
    ultimately show ?thesis using out by (simp add: m)
  qed
qed

section \<open>Properties of the tables\<close>

text \<open>A gate is read back as it was set (the base from its two halves, selector, flags, the zero
  byte), and setting it changes no byte outside its eight.\<close>

theorem gate_roundtrip:
  "gate_is (mem (idt_set_gate num base sel flags s)) (idt s + 8 * ucast num) base sel flags \<and>
   (\<forall>x. x \<notin> region (idt s + 8 * ucast num) 8 \<longrightarrow> mem (idt_set_gate num base sel flags s) x = mem s x)"
  using idt_set_gate_gate by blast

text \<open>C33. \<open>idt_install\<close> builds the table at the next page boundary: gates 0 to 31 lead to the exception
  stubs and gates 32 to 47 to the interrupt stubs, all present, 32-bit and for the kernel; the table
  register holds its address and limit, interrupts are on, the 32 fault handlers are empty, and
  nothing outside the 2176 bytes has changed.\<close>

theorem idt_install_gates:
  fixes s :: "'a ints_scheme"
  assumes "page_up (unat (place_addr s)) + 2176 \<le> 4294967295"
  shows "let t = idt_install syms s; T = idt t in
    unat T = page_up (unat (place_addr s)) \<and> idtr t = Some (8 * 256 - 1, T) \<and> interrupts_on t \<and>
    (\<forall>n<32. gate_is (mem t) (T + of_nat (8 * n)) (sym_isr syms n) 0x08 0x8E) \<and>
    (\<forall>n<16. gate_is (mem t) (T + of_nat (8 * (32 + n))) (sym_irq syms n) 0x08 0x8E) \<and>
    (\<forall>n<32. ld32 (mem t) (fault_handlers t + of_nat (4 * n)) = 0) \<and>
    (\<forall>x. x \<notin> region T 2176 \<longrightarrow> mem t x = mem s x)"
proof -
  note st = idt_install_state [where syms = syms, OF assms]
  define T :: u32 where "T = of_nat (page_up (unat (place_addr s)))"
  have uT: "unat T = page_up (unat (place_addr s))" "unat (T + 2048) = unat T + 2048"
    using assms unat_of_nat_32 [of "page_up (unat (place_addr s))"] unat_add_of_nat [of T 2048]
    by (simp_all add: T_def)
  have zero: "ld32 (mem (idt_install syms s)) (T + 2048 + of_nat (4 * n)) = 0" if "n < 32" for n
  proof -
    have "region (T + 2048 + of_nat (4 * n)) 4 \<subseteq> region (T + 2048) 128"
      using that assms uT by (intro region_sub) simp_all
    then have "ld32 (mem (idt_install syms s)) (T + 2048 + of_nat (4 * n)) = ld32 (\<lambda>_. 0) (T + 2048 + of_nat (4 * n))"
      using st(7) by (intro s32.ld_cong) (auto simp: T_def)
    then show ?thesis by (simp add: ld32_def)
  qed
  show ?thesis
    unfolding Let_def st(1-4) T_def [symmetric]
    using st(3,5,6,8) uT zero by (auto simp: T_def [symmetric])
qed

section \<open>The bump allocator\<close>

text \<open>A sequence of requests, aligned or not, and the blocks handed out.\<close>

fun kmallocs :: "(bool \<times> u32) list \<Rightarrow> 'a kheap_scheme \<Rightarrow> (nat \<times> nat) list" where
  "kmallocs [] s = []"
| "kmallocs ((al, sz) # rs) s =
     (let (p, s) = (if al then kmalloc_a sz s else kmalloc sz s) in (unat p, unat sz) # kmallocs rs s)"

text \<open>An upper bound of what they use.\<close>

definition demand :: "(bool \<times> u32) list \<Rightarrow> nat" where
  "demand rs = (\<Sum>(al, sz)\<leftarrow>rs. 4095 + unat sz)"

lemma kmalloc_bounds:
  assumes "unat (place_addr s) + 4095 + unat sz \<le> 4294967295"
  shows "\<exists>p t. (if al then kmalloc_a sz s else kmalloc sz s) = (p, t) \<and> unat (place_addr s) \<le> unat p \<and>
    unat (place_addr t) = unat p + unat sz \<and> unat p + unat sz \<le> unat (place_addr s) + 4095 + unat sz \<and>
    (al \<longrightarrow> unat p mod 4096 = 0)"
proof -
  have pu: "page_up (unat (place_addr s)) < unat (place_addr s) + 4096" by (rule page_up_lt)
  show ?thesis
  proof (cases al)
    case True
    obtain p t where pt: "kmalloc_a sz s = (p, t)" by (cases "kmalloc_a sz s")
    have "page_up (unat (place_addr s)) + unat sz < 4294967296" using pu assms by simp
    note b = kmalloc_a.block_bounds [OF this pt]
    show ?thesis
      using True pt b pu page_up_mod [of "unat (place_addr s)"] by simp
  next
    case False
    obtain p t where pt: "kmalloc sz s = (p, t)" by (cases "kmalloc sz s")
    have "unat (place_addr s) + unat sz < 4294967296" using assms by simp
    note b = kmalloc.block_bounds [OF this pt]
    show ?thesis using False pt b by simp
  qed
qed

text \<open>C37. The kernel's allocator never hands out a byte twice: for any sequence of aligned and
  unaligned requests that fits below 4 GB, the blocks follow each other in address order without
  overlap, from \<open>place_addr\<close> on, and every aligned block starts at a page boundary.\<close>

theorem kmallocs_disjoint:
  assumes "unat (place_addr s) + demand rs \<le> 4294967295"
  shows "sorted_wrt (\<lambda>(p, n) (q, k). p + n \<le> q) (kmallocs rs s) \<and>
    (\<forall>(p, n) \<in> set (kmallocs rs s). unat (place_addr s) \<le> p) \<and>
    (\<forall>i<length rs. fst (rs ! i) \<longrightarrow> fst (kmallocs rs s ! i) mod 4096 = 0)"
  using assms
proof (induction rs arbitrary: s)
  case (Cons r rs)
  obtain al sz where r: "r = (al, sz)" by (cases r)
  obtain p t where pt: "(if al then kmalloc_a sz s else kmalloc sz s) = (p, t)" "unat (place_addr s) \<le> unat p"
    "unat (place_addr t) = unat p + unat sz" "unat p + unat sz \<le> unat (place_addr s) + 4095 + unat sz"
    "al \<longrightarrow> unat p mod 4096 = 0"
    using kmalloc_bounds [of s sz al] Cons.prems by (auto simp: demand_def r)
  have k: "kmallocs (r # rs) s = (unat p, unat sz) # kmallocs rs t" by (simp add: r pt(1))
  have IH: "sorted_wrt (\<lambda>(p, n) (q, k). p + n \<le> q) (kmallocs rs t)"
    "\<forall>(q, n) \<in> set (kmallocs rs t). unat (place_addr t) \<le> q"
    "\<forall>i<length rs. fst (rs ! i) \<longrightarrow> fst (kmallocs rs t ! i) mod 4096 = 0"
    using Cons.IH [of t] Cons.prems pt(3,4) by (auto simp: demand_def r)
  have "\<forall>(q, n) \<in> set (kmallocs (r # rs) s). unat (place_addr s) \<le> q"
    using IH(2) pt(2,3) by (force simp del: kmallocs.simps simp: k)
  moreover have "sorted_wrt (\<lambda>(p, n) (q, k). p + n \<le> q) (kmallocs (r # rs) s)"
    using IH(1,2) pt(3) by (force simp del: kmallocs.simps simp: k)
  moreover have "fst ((r # rs) ! i) \<longrightarrow> fst (kmallocs (r # rs) s ! i) mod 4096 = 0" if "i < length (r # rs)" for i
    using IH(3) pt(5) that unfolding k by (cases i) (simp_all add: r)
  ultimately show ?case by blast
qed simp

section \<open>Witnesses\<close>

definition demo_ints :: ints where
  "demo_ints = \<lparr>mem = \<lambda>_. 9, dev = \<lambda>_ _. 0, trace = [], cx = 0, cy = 0, place_addr = 0xF0123,
     idt = 0, idtp_limit = 0, idtp_base = 0, idtr = None, interrupts_on = False, fault_handlers = 0,
     irq_routines = replicate 16 0\<rparr>"

definition demo_symbols :: symbols where
  "demo_symbols = \<lparr>sym_isr = \<lambda>n. 0x1000 + of_nat n * 16, sym_irq = \<lambda>n. 0x1400 + of_nat n * 16,
     sym_page_fault_handler = 0x2000, sym_divideByZero = 0x2100, sym_timer_handler = 0x2200,
     sym_keyboard_handler = 0x2300\<rparr>"

theorem gate_roundtrip_witness:
  "gate_is (mem (idt_set_gate 3 0x12345678 8 0x8E demo_ints)) 0x18 0x12345678 8 0x8E"
  using gate_roundtrip [of 3 "0x12345678" 8 "0x8E" demo_ints] by (simp add: demo_ints_def)

theorem idt_install_gates_witness:
  "gate_is (mem (idt_install demo_symbols demo_ints)) (0xF1000 + 8 * 33) 0x1410 0x08 0x8E"
proof -
  have room: "page_up (unat (place_addr demo_ints)) + 2176 \<le> 4294967295"
    and T: "idt (idt_install demo_symbols demo_ints) = 0xF1000"
    using idt_install_state(1) [of demo_ints demo_symbols] by (simp_all add: demo_ints_def page_up_def)
  have "\<forall>n<16. gate_is (mem (idt_install demo_symbols demo_ints)) (0xF1000 + of_nat (8 * (32 + n)))
      (sym_irq demo_symbols n) 0x08 0x8E"
    using idt_install_gates [OF room, of demo_symbols] by (simp add: T Let_def)
  from this [rule_format, of 1] show ?thesis by (simp add: demo_symbols_def)
qed

theorem kmallocs_disjoint_witness:
  "sorted_wrt (\<lambda>(p, n) (q, k). p + n \<le> q) (kmallocs [(False, 100), (True, 4096), (False, 7)] demo_ints)"
  using kmallocs_disjoint [of demo_ints "[(False, 100), (True, 4096), (False, 7)]"]
  by (simp add: demand_def demo_ints_def)

end
