(* ===== verification/PagingSpec.thy ===== *)
theory PagingSpec
  imports HeapSpec NewDirectory IdtSpec
begin

text \<open>
  What paging promises: the identity mapping that \<open>init_paging\<close> leaves behind, the search for a free
  frame, the effect of \<open>alloc_page\<close> on the mapping and on the bitset; and what \<open>free_page\<close> and
  \<open>alloc_page_pr\<close> do instead of what their names say.
\<close>

section \<open>init_paging\<close>

text \<open>C12. \<open>init_paging\<close> returns; afterwards the processor uses the kernel directory with paging
  switched on, and that directory maps every address below \<open>KERNEL_MEM_END\<close> to itself and no other
  address; the page fault handler is registered as handler 14.\<close>

theorem init_paging_identity_maps:
  assumes "kroom (page_up (unat (place_addr s)))"
    and "unat (fault_handlers s) + 128 \<le> unat (place_addr s)"
  shows "\<exists>t. init_paging syms s = Some (Ret () t) \<and>
    (\<forall>va. walk (mem t) (cr3 t) va = (if va < KERNEL_MEM_END then Some va else None)) \<and>
    cr3 t = kernel_directory t \<and> current_dir t = kernel_directory t \<and> bit (cr0 t) 31 \<and>
    ld32 (mem t) (fault_handlers s + 4 * 14) = sym_page_fault_handler syms"
proof -
  obtain t where t: "init_paging syms s = Some (Ret () t)"
    "kstate (page_up (unat (place_addr s))) 4 4080 t"
    "current_dir t = kernel_directory t" "cr3 t = kernel_directory t" "cr0 t = cr0 s OR 0x80000000"
    "ld32 (mem t) (fault_handlers s + 56) = sym_page_fault_handler syms"
    using init_paging_kstate [OF assms, of syms] by blast
  have "(0x80000000 :: u32) = push_bit 31 1" by simp
  then have "bit (cr0 t) 31" unfolding t(5) by (simp only: bit_simps) simp
  then show ?thesis using t kstate_walk [OF t(2) assms(1)] by (auto simp: t(4))
qed

text \<open>After \<open>init_paging\<close> exactly the frames below \<open>KERNEL_MEM_END\<close> are in use, so the next
  frame \<open>first_free_frame\<close> gives out is the one at \<open>KERNEL_MEM_END\<close>; and no memory has changed but
  the directory, the bitset and the tables, at the next page boundaries behind \<open>place_addr\<close>, and the
  registered handler.\<close>

theorem init_paging_frames:
  assumes "kroom (page_up (unat (place_addr s)))"
    and "unat (fault_handlers s) + 128 \<le> unat (place_addr s)"
  shows "\<exists>t. init_paging syms s = Some (Ret () t) \<and>
    (\<forall>f<1048576. frame_used (mem t) (frames t) f \<longleftrightarrow> f < 4080) \<and>
    first_free_frame t = Some (Ret KERNEL_MEM_END t) \<and>
    (\<forall>x. x \<notin> region (fault_handlers s + 4 * 14) 4 \<longrightarrow>
       unat x < page_up (unat (place_addr s)) \<or> page_up (unat (place_addr s)) + 151552 \<le> unat x \<longrightarrow>
       mem t x = mem s x)"
proof -
  obtain t where t: "init_paging syms s = Some (Ret () t)"
    "kstate (page_up (unat (place_addr s))) 4 4080 t"
    "\<forall>x. x \<notin> region (fault_handlers s + 56) 4 \<longrightarrow>
       unat x < page_up (unat (place_addr s)) \<or> page_up (unat (place_addr s)) + 151552 \<le> unat x \<longrightarrow>
       mem t x = mem s x"
    using init_paging_kstate [OF assms, of syms] by blast
  have "first_free_frame t = Some (Ret KERNEL_MEM_END t)"
    using kstate_first_free [OF t(2)] by (simp add: KERNEL_MEM_END_def)
  then show ?thesis using t kstate_frame_used [OF t(2)] by auto
qed

section \<open>Frames\<close>

text \<open>\<open>first_free_frame\<close> gives the least frame whose bit is clear, and leaves the state alone;
  when there is none it reports and stops the machine. It always does one or the other.\<close>

theorem first_free_frame_least:
  "first_free_frame s =
     (if \<exists>f<1048576. \<not> frame_used (mem s) (frames s) f
      then Some (Ret (of_nat ((LEAST f. \<not> frame_used (mem s) (frames s) f) * 4096)) s)
      else Some (Halt (puts (str (''No free frames! System Halted!'' @ [nl])) s)))"
proof (cases "\<exists>f<1048576. \<not> frame_used (mem s) (frames s) f")
  case True
  define f where "f = (LEAST f. \<not> frame_used (mem s) (frames s) f)"
  obtain g where g: "g < 1048576" "\<not> frame_used (mem s) (frames s) g" using True by auto
  have "\<not> frame_used (mem s) (frames s) f" unfolding f_def by (rule LeastI) (rule g)
  moreover have "f \<le> g" unfolding f_def by (rule Least_le) (rule g)
  moreover have "frame_used (mem s) (frames s) h" if "h < f" for h
    using that not_less_Least unfolding f_def by blast
  ultimately have "scan_frames (mem s) (frames s) 0 = Some (of_nat (f * 4096))"
    using g(1) by (intro scan_frames_least) simp_all
  then show ?thesis using True by (simp add: first_free_frame_def f_def [symmetric] del: of_nat_mult)
next
  case False
  then have "scan_frames (mem s) (frames s) 0 = None" by (intro scan_frames_full) simp
  then show ?thesis using False by (simp add: first_free_frame_def)
qed

lemma frame_index:
  "INDEX_FROM_ADDRESS a = of_nat (unat a div 4096 div 32)"
  "unat (OFFSET_FROM_ADDRESS a) = unat a div 4096 mod 32"
proof -
  have "unat a div 4096 div 32 < 4294967296"
    by (rule le_less_trans [OF _ unat_less_2p32 [of a]]) (rule le_trans [OF div_le_dividend div_le_dividend])
  then show "INDEX_FROM_ADDRESS a = of_nat (unat a div 4096 div 32)"
    by (simp add: INDEX_FROM_ADDRESS_def INDEX_FROM_BIT_def PAGE_SIZE_def word_unat_eq_iff unat_div
        unat_of_nat_32)
  show "unat (OFFSET_FROM_ADDRESS a) = unat a div 4096 mod 32"
    by (simp add: OFFSET_FROM_ADDRESS_def OFFSET_FROM_BIT_def PAGE_SIZE_def unat_mod unat_div)
qed

lemma get_bitset_used:
  "get_bitset a s = (if frame_used (mem s) (frames s) (unat a div 4096) then 1 else 0)"
proof -
  have "drop_bit k (w AND push_bit k 1) = (if bit w k then 1 else 0)" if "k < 32" for k and w :: u32
    using that by (intro bit_word_eqI) (auto simp: bit_simps intro!: gr0I)
  then show ?thesis by (simp only: get_bitset_def Let_def frame_index frame_used_def mod_less_divisor
        zero_less_numeral)
qed

text \<open>\<open>get_bitset\<close> reads what \<open>write_bitset\<close> wrote for an address, and the bits of all other
  frames are left alone.\<close>

theorem write_get_bitset:
  assumes "unat (frames s) + 131072 \<le> 4294967296"
  shows "get_bitset b (write_bitset a w s) =
    (if b div 4096 = a div 4096 then if w \<noteq> 0 then 1 else 0 else get_bitset b s)"
proof -
  let ?f = "unat a div 4096" and ?g = "unat b div 4096"
  let ?p = "frames s + 4 * of_nat (?f div 32)" and ?q = "frames s + 4 * of_nat (?g div 32)"
  define v where "v = (if w \<noteq> 0 then ld32 (mem s) ?p OR push_bit (?f mod 32) 1
    else ld32 (mem s) ?p AND NOT (push_bit (?f mod 32) 1))"
  have t: "mem (write_bitset a w s) = st32 (mem s) ?p v" "frames (write_bitset a w s) = frames s"
    by (simp_all add: write_bitset_def store32_def v_def Let_def frame_index)
  have lt: "?f div 32 < 32768" "?g div 32 < 32768"
    using unat_less_2p32 [of a] unat_less_2p32 [of b] by (simp_all add: div_less_iff_less_mult)
  have eq: "b div 4096 = a div 4096 \<longleftrightarrow> ?g = ?f" by (simp add: word_unat_eq_iff unat_div)
  show ?thesis
  proof (cases "?g div 32 = ?f div 32")
    case True
    then have "?g = ?f \<longleftrightarrow> ?g mod 32 = ?f mod 32" by (metis div_mult_mod_eq)
    then show ?thesis
      unfolding get_bitset_used frame_used_def t eq True s32.ld_st
      by (auto simp: v_def bit_simps)
  next
    case False
    have u: "unat (frames s + 4 * of_nat j) = unat (frames s) + 4 * j" if "j < 32768" for j
      using that assms unat_add_of_nat [of "frames s" "4 * j"] by simp
    have "region ?p 4 \<inter> region ?q 4 = {}"
      using False lt u assms by (auto simp: region_iff)
    then show ?thesis
      using False unfolding get_bitset_used frame_used_def t eq by (auto simp: s32.ld_st_disjoint)
  qed
qed

text \<open>C15. \<open>alloc_page\<close> for an address whose page table is present, in any directory: it returns the
  least free frame, marks it as used and no other, writes nothing outside the tables concerned and
  the bitset, and afterwards the directory translates every address of the page into that frame.\<close>

theorem alloc_page_maps:
  assumes "structures_ok lim d s" and "unat d mod 4096 = 0"
    and "table_ok (structures d s) lim (mem s) d va"
    and "b < 1048576" and "\<not> frame_used (mem s) (frames s) b"
    and "\<forall>g<b. frame_used (mem s) (frames s) g"
    and "d = kernel_directory s \<or>
      table_ok (structures d s) lim (mem s) (kernel_directory s) (of_nat (b * 4096))"
  shows "\<exists>m. alloc_page d va w ik s = Some (Ret (of_nat (b * 4096)) (s\<lparr>mem := m\<rparr>)) \<and>
    walk m d va = Some (of_nat (b * 4096) OR (va AND 0xFFF)) \<and>
    get_page d va (s\<lparr>mem := m\<rparr>) = of_nat (b * 4096) OR page_entry_flags (w \<noteq> 0) (ik \<noteq> 0) \<and>
    (\<forall>f<1048576. frame_used m (frames s) f \<longleftrightarrow> f = b \<or> frame_used (mem s) (frames s) f) \<and>
    (\<forall>x. x \<notin> region (table_of (mem s) d va) 4096 \<union> region (frames s) 131072 \<longrightarrow>
       (d \<noteq> kernel_directory s \<longrightarrow>
          x \<notin> region (table_of (mem s) (kernel_directory s) (of_nat (b * 4096))) 4096) \<longrightarrow>
       m x = mem s x)"
proof -
  obtain m where m: "map_frame d va (of_nat (b * 4096)) (w \<noteq> 0) (ik \<noteq> 0) s = s\<lparr>mem := m\<rparr>"
    and out: "\<forall>x. x \<notin> region (table_of (mem s) d va) 4096 \<union> region (frames s) 131072 \<longrightarrow>
       (d \<noteq> kernel_directory s \<longrightarrow>
          x \<notin> region (table_of (mem s) (kernel_directory s) (of_nat (b * 4096))) 4096) \<longrightarrow>
       m x = mem s x"
    and used: "\<forall>f<1048576. frame_used m (frames s) f \<longleftrightarrow> f = b \<or> frame_used (mem s) (frames s) f"
    and pte: "ld32 m (table_entry (mem s) d va) = of_nat (b * 4096) OR page_entry_flags (w \<noteq> 0) (ik \<noteq> 0)"
    using map_frame_present [OF assms(1,3,4,7)] by blast
  have lim: "unat d + 4096 \<le> 4294967296" using assms(1) by (simp add: structures_ok_def)
  have "m x = mem s x" if "x \<in> region d 4096" for x
  proof -
    have "x \<in> structures d s" "x \<notin> region (frames s) 131072"
      using that assms(1) by (auto simp: structures_def structures_ok_def)
    then show ?thesis using out assms(3,7) by (auto simp: table_ok_def)
  qed
  note dir = table_of_cong [OF lim this, where va = va]
  have te: "table_entry m d va = table_entry (mem s) d va" by (simp add: table_entry_of dir)
  note fl = flags_small [of "w \<noteq> 0" "ik \<noteq> 0"] and ph = frame_address_mod [OF assms(4)]
  have "walk m d va = Some (of_nat (b * 4096) OR (va AND 0xFFF))"
    using assms(3) entry_page [OF ph fl(1)] entry_flag [OF ph] fl(2)
    by (simp add: walk_entries [OF assms(2)] te pte dir table_ok_def)
  moreover have "get_page d va (s\<lparr>mem := m\<rparr>) = of_nat (b * 4096) OR page_entry_flags (w \<noteq> 0) (ik \<noteq> 0)"
    by (simp add: get_page_def te pte)
  moreover have "alloc_page d va w ik s = Some (Ret (of_nat (b * 4096)) (s\<lparr>mem := m\<rparr>))"
    using alloc_page_frame [of b s d va w ik] assms(3-6) m by (simp add: table_ok_def)
  ultimately show ?thesis using used out by blast
qed

text \<open>C30. \<open>get_new_kernel_mapped_dir\<close> returns the next page boundary as a new directory; the
  directory translates every address below \<open>KERNEL_MEM_END\<close> to itself and no address from
  16 MB on; nothing changes but \<open>place_addr\<close> and the 20 KB of directory and tables.\<close>

theorem new_directory_maps_kernel:
  assumes "mroom (page_up (unat (place_addr s)))"
  shows "\<exists>d t. get_new_kernel_mapped_dir s = (d, t) \<and> unat d = page_up (unat (place_addr s)) \<and>
    (\<forall>va. va < KERNEL_MEM_END \<longrightarrow> walk (mem t) d va = Some va) \<and>
    (\<forall>va. 0x1000000 \<le> va \<longrightarrow> walk (mem t) d va = None) \<and>
    t = s\<lparr>mem := mem t, place_addr := place_addr t\<rparr> \<and>
    (\<forall>x. unat x < unat d \<or> unat d + 20480 \<le> unat x \<longrightarrow> mem t x = mem s x)"
proof -
  define ND where "ND = page_up (unat (place_addr s))"
  note room = assms [folded ND_def]
  obtain t where t: "get_new_kernel_mapped_dir s = (of_nat ND, t)" "mirror ND 4 4080 t"
    "t = s\<lparr>mem := mem t, place_addr := place_addr t\<rparr>"
    "\<forall>x. unat x < ND \<or> ND + 20480 \<le> unat x \<longrightarrow> mem t x = mem s x"
    using get_new_kernel_mapped_dir_mirror [of s] assms by (auto simp: ND_def)
  have u: "unat (of_nat ND :: u32) = ND" using room by (intro unat_of_nat_32) (simp add: mroom_def)
  have "walk (mem t) (of_nat ND) va = None" if "0x1000000 \<le> va" for va
    using mirror_walk_high [OF t(2) room] that by simp
  then show ?thesis
    using t u mirror_walk [OF t(2) room] unfolding ND_def [symmetric] by auto
qed

section \<open>Where the code does something else\<close>

text \<open>\<open>free_page\<close> clears the bit of frame 0, whatever the directory and the address: the mask in
  it keeps the flags of the entry instead of the frame. The frame of the page stays in use and the
  page stays mapped.\<close>

theorem free_page_frees_frame_0:
  "free_page d va s = store32 (frames s) (ld32 (mem s) (frames s) AND NOT 1) s"
proof -
  have e: "NOT (0xFFFFF000 :: u32) = mask 12" by (simp add: page_mask)
  define x where "x = ld32 (mem s) (ld32 (mem s) (dir_entry d va) + 4 * PAGE_INDEX_FROM_VIRTUAL_ADDRESS va)"
  have "x AND NOT 0xFFFFF000 = take_bit 12 x" unfolding e by (simp add: take_bit_eq_mask)
  moreover have "take_bit 12 x div 4096 = (0 :: u32)"
    by (simp add: word_unat_eq_iff unat_div take_bit_eq_mod unat_mod)
  ultimately show ?thesis
    by (simp add: free_page_def x_def [symmetric] write_bitset_def INDEX_FROM_ADDRESS_def
        OFFSET_FROM_ADDRESS_def INDEX_FROM_BIT_def OFFSET_FROM_BIT_def PAGE_SIZE_def Let_def)
qed

text \<open>When the page table is missing, \<open>alloc_page_pr\<close> does not use the frame it is asked for:
  for any two free frames, and whatever \<open>is_privileged\<close> says, it does the same.\<close>

theorem alloc_page_pr_ignores_request:
  assumes "ld32 (mem s) (dir_entry d va) AND 1 = 0"
    and "get_bitset ph1 s = 0" and "get_bitset ph2 s = 0"
  shows "alloc_page_pr d va ph1 w ik pr1 s = alloc_page_pr d va ph2 w ik pr2 s"
proof -
  have free: "ld32 (mem s) (frames s + 4 * INDEX_FROM_ADDRESS ph)
      AND push_bit (unat (OFFSET_FROM_ADDRESS ph)) 1 = 0" if "get_bitset ph s = 0" for ph
  proof -
    have "\<not> frame_used (mem s) (frames s) (unat ph div 4096)" using that by (simp add: get_bitset_used split: if_splits)
    then show ?thesis unfolding frame_index by (subst push_bit_1_and) (simp_all add: frame_used_def)
  qed
  show ?thesis
    unfolding alloc_page_pr_def using assms(1) free [OF assms(2)] free [OF assms(3)] by simp
qed

lemma masked_table:
  assumes "unat (f :: u32) < 4096"
  shows "unat ((p OR f) AND 0xFFFFF000) = unat p div 4096 * 4096"
proof -
  have "(p OR f) AND 0xFFFFF000 = push_bit 12 (drop_bit 12 p)"
    unfolding page_mask
    by (intro bit_word_eqI) (auto simp: bit_simps not_less dest: flag_bits [OF assms])
  then have "(p OR f) AND 0xFFFFF000 = p div 4096 * 4096"
    by (simp add: push_bit_eq_mult drop_bit_eq_div)
  moreover have "unat (p div 4096 * 4096) = unat p div 4096 * 4096"
    using le_less_trans [OF div_times_less_eq_dividend unat_less_2p32]
    by (subst unat_word_ariths) (simp add: unat_div)
  ultimately show ?thesis by (simp only:)
qed

text \<open>The first page table \<open>alloc_page_pr\<close> makes for a directory other than the kernel's comes from
  the unaligned \<open>kmalloc\<close>: when \<open>place_addr\<close> is not at a page boundary, the entry names the page
  that \<open>place_addr\<close> lies in, and clearing the table erases all memory from the start of that page up
  to \<open>place_addr\<close>, which was allocated before.\<close>

theorem user_table_erases_memory:
  assumes "d \<noteq> kernel_directory s" and "unat (place_addr s) mod 4096 \<noteq> 0"
    and "unat (place_addr s) + 4096 \<le> 4294967295"
    and "unat (dir_entry d va) + 4 \<le> unat (place_addr s) div 4096 * 4096"
  shows "unat (table_of (mem (new_table d va w ik s)) d va) = unat (place_addr s) div 4096 * 4096 \<and>
    (\<forall>x. unat (place_addr s) div 4096 * 4096 \<le> unat x \<and> unat x < unat (place_addr s) \<longrightarrow>
       mem (new_table d va w ik s) x = 0)"
proof -
  define p fl where "p = place_addr s" and "fl = (if w then 2 else 0) OR (if ik then 0 else 4) OR (1 :: u32)"
  define e where "e = dir_entry d va"
  have b: "unat p div 4096 * 4096 \<le> unat p" by simp
  have page: "unat ((p OR fl) AND 0xFFFFF000) = unat p div 4096 * 4096"
    unfolding p_def fl_def by (rule masked_table) auto
  define s1 where "s1 = store32 e (p OR fl) (s\<lparr>place_addr := p + 4096\<rparr>)"
  have t: "new_table d va w ik s = memset ((p OR fl) AND 0xFFFFF000) 0 4096 s1"
    using assms(1) by (simp add: new_table_def e_def [symmetric] fl_def [symmetric] p_def [symmetric]
        kmalloc_eq PAGES_PER_TABLE_def s1_def store32_def s32.ld_st Let_def)
  have "region e 4 \<inter> region ((p OR fl) AND 0xFFFFF000) 4096 = {}"
    using assms(3,4) b by (intro region_disjoint) (simp_all add: e_def [symmetric] page p_def [symmetric])
  then have "ld32 (mem (new_table d va w ik s)) e = p OR fl"
    by (simp add: t memset_def ld32_mem_set_outside s1_def store32_def s32.ld_st)
  then have "table_of (mem (new_table d va w ik s)) d va = (p OR fl) AND 0xFFFFF000"
    by (simp add: table_of_def e_def)
  moreover have "mem (new_table d va w ik s) x = 0"
    if "unat p div 4096 * 4096 \<le> unat x" "unat x < unat p" for x
  proof -
    have "unat p < unat p div 4096 * 4096 + 4096"
      using mod_less_divisor [of 4096 "unat p"] div_mult_mod_eq [of "unat p" 4096] by linarith
    then have "x \<in> region ((p OR fl) AND 0xFFFFF000) (unat (4096 :: u32))"
      using that assms(3) b by (subst region_iff) (simp_all add: page p_def [symmetric])
    then show ?thesis by (simp add: t memset_def mem_set_eq)
  qed
  ultimately show ?thesis using page by (simp add: p_def)
qed

section \<open>Witnesses\<close>

lemma demo_room: "kroom (page_up (unat (place_addr (demo_state m))))"
  "unat (fault_handlers (demo_state m)) + 128 \<le> unat (place_addr (demo_state m))"
  by (simp_all add: demo_state_def kroom_def)

theorem init_paging_identity_maps_witness:
  "\<exists>t. init_paging demo_symbols (demo_state (\<lambda>_. 0)) = Some (Ret () t) \<and>
    walk (mem t) (cr3 t) 0x12345 = Some 0x12345 \<and> walk (mem t) (cr3 t) 0xFF0000 = None"
  using init_paging_identity_maps [OF demo_room, of demo_symbols "\<lambda>_. 0"]
  by (auto simp: KERNEL_MEM_END_def)

theorem init_paging_frames_witness:
  "\<exists>t. init_paging demo_symbols (demo_state (\<lambda>_. 0)) = Some (Ret () t) \<and>
    frame_used (mem t) (frames t) 4079 \<and> \<not> frame_used (mem t) (frames t) 4080"
  using init_paging_frames [OF demo_room, of demo_symbols "\<lambda>_. 0"] by auto

theorem first_free_frame_least_witness:
  "first_free_frame (demo_state (\<lambda>_. 0)) = Some (Ret 0 (demo_state (\<lambda>_. 0)))"
proof -
  have "\<not> frame_used (\<lambda>_. 0) fr f" for fr f by (simp add: frame_used_def ld32_def)
  then show ?thesis
    using first_free_frame_least [of "demo_state (\<lambda>_. 0)"]
    by (auto simp: Least_eq_0 intro: exI [of _ 0])
qed

theorem write_get_bitset_witness:
  "get_bitset 0x5000 (write_bitset 0x5000 1 (demo_state demo_tables)) = 1 \<and>
   get_bitset 0x6000 (write_bitset 0x5000 1 (demo_state demo_tables)) = get_bitset 0x6000 (demo_state demo_tables)"
  using write_get_bitset [of "demo_state demo_tables" "0x5000" "0x5000" 1]
    write_get_bitset [of "demo_state demo_tables" "0x6000" "0x5000" 1] by simp

lemma demo_free: "\<not> frame_used demo_tables 0x40000 0"
  by (simp add: frame_used_def demo_entries)

lemma demo_structures: "structures_ok 0x400000 0x10000 (demo_state demo_tables)"
  "table_ok (structures 0x10000 (demo_state demo_tables)) 0x400000 demo_tables 0x10000 0x401000"
proof -
  have e: "dir_entry 0x10000 0x401000 = 0x10004"
    by (simp add: dir_entry_def TABLE_INDEX_FROM_VIRTUAL_ADDRESS_def drop_bit_eq_div)
  have "region (0x40000 :: u32) 131072 \<inter> region 0x10000 4096 = {}" by (auto simp: region_iff)
  then show "structures_ok 0x400000 0x10000 (demo_state demo_tables)" by (simp add: structures_ok_def)
  have "region (0x20000 :: u32) 4096 \<inter> structures 0x10000 (demo_state demo_tables) = {}"
    by (auto simp: structures_def region_iff)
  then show "table_ok (structures 0x10000 (demo_state demo_tables)) 0x400000 demo_tables 0x10000 0x401000"
    by (simp add: table_ok_def table_of_def e demo_entries)
qed

theorem alloc_page_maps_witness:
  "\<exists>m. alloc_page 0x10000 0x401000 1 1 (demo_state demo_tables) = Some (Ret 0 (demo_state m)) \<and>
    walk m 0x10000 0x401000 = Some 0 \<and> frame_used m 0x40000 0"
proof -
  obtain m where "alloc_page 0x10000 0x401000 1 1 (demo_state demo_tables) =
      Some (Ret (of_nat (0 * 4096)) (demo_state demo_tables\<lparr>mem := m\<rparr>))"
    "walk m 0x10000 0x401000 = Some (of_nat (0 * 4096) OR (0x401000 AND 0xFFF))"
    "\<forall>f<1048576. frame_used m 0x40000 f \<longleftrightarrow> f = 0 \<or> frame_used demo_tables 0x40000 f"
    using alloc_page_maps [of "0x400000" "0x10000" "demo_state demo_tables" "0x401000" 0 1 1]
      demo_structures demo_free by (simp only: demo_state_simps) fastforce
  then show ?thesis by auto
qed

theorem alloc_page_pr_ignores_request_witness:
  "alloc_page_pr 0x10000 0x800000 0x5000 1 1 0 (demo_state demo_tables) =
   alloc_page_pr 0x10000 0x800000 0x7000 1 1 1 (demo_state demo_tables)"
proof -
  have "dir_entry 0x10000 0x800000 = 0x10008"
    by (simp add: dir_entry_def TABLE_INDEX_FROM_VIRTUAL_ADDRESS_def drop_bit_eq_div)
  moreover have "region (0x10000 :: u32) 4 \<inter> region 0x10008 4 = {}" "region (0x10004 :: u32) 4 \<inter> region 0x10008 4 = {}"
    by (auto simp: region_iff)
  then have "ld32 demo_tables 0x10008 = 0"
    by (simp add: demo_tables_def s32.ld_st_disjoint) (simp add: ld32_def)
  ultimately show ?thesis
    by (intro alloc_page_pr_ignores_request) (simp_all add: get_bitset_used frame_used_def demo_entries)
qed

theorem new_directory_maps_kernel_witness:
  "\<exists>t. get_new_kernel_mapped_dir (demo_state (\<lambda>_. 7)) = (0x30000, t) \<and>
    walk (mem t) 0x30000 0xB8123 = Some 0xB8123 \<and> mem t 0x100 = 7"
proof -
  have p: "place_addr (demo_state (\<lambda>_. 7)) = 0x30000" by (simp add: demo_state_def)
  obtain d t where t: "get_new_kernel_mapped_dir (demo_state (\<lambda>_. 7)) = (d, t)" "unat d = 0x30000"
    "\<forall>va. va < KERNEL_MEM_END \<longrightarrow> walk (mem t) d va = Some va"
    "\<forall>x. unat x < unat d \<or> unat d + 20480 \<le> unat x \<longrightarrow> mem t x = mem (demo_state (\<lambda>_. 7)) x"
    using new_directory_maps_kernel [of "demo_state (\<lambda>_. 7)"] by (auto simp: p mroom_def)
  have d: "d = 0x30000" using t(2) by (simp add: word_unat_eq_iff)
  show ?thesis using t(1,3,4) by (auto simp: d KERNEL_MEM_END_def)
qed

theorem user_table_erases_memory_witness:
  "mem (new_table 0x12000 0x400000 True False (demo_state (\<lambda>_. 7)\<lparr>place_addr := 0x30100\<rparr>)) 0x30050 = 0"
proof -
  have "dir_entry 0x12000 0x400000 = 0x12004"
    by (simp add: dir_entry_def TABLE_INDEX_FROM_VIRTUAL_ADDRESS_def drop_bit_eq_div)
  then show ?thesis
    using user_table_erases_memory [of "0x12000" "demo_state (\<lambda>_. 7)\<lparr>place_addr := 0x30100\<rparr>" "0x400000" True False]
    by (simp add: demo_state_def)
qed

end
