(* ===== verification/Boot.thy ===== *)
theory Boot
  imports Tss PagingSpec
begin

text \<open>
  \<open>main\<close> of \<open>p_mode/main.c\<close>: the kernel's start, which runs the installation of every component in turn.
  The base of the descriptor table and the addresses of \<open>tss_entry\<close> and of the function \<open>lol\<close> are
  parameters. Interrupts are on from \<open>idt_install\<close> on; the model runs \<open>main\<close> without one in between.
\<close>

section \<open>The sequence\<close>

definition install_devices :: "symbols \<Rightarrow> 'a keyboard_scheme \<Rightarrow> 'a keyboard_scheme option" where
  "install_devices syms s =
     Option.bind (timer_install syms s) (\<lambda>s.
     Option.bind (set_timer_freq 100 s) (\<lambda>s.
     Option.bind (keyboard_install syms s) (\<lambda>s.
       Some (register_fault_handler 0 (sym_divideByZero syms) s))))"

definition main :: "symbols \<Rightarrow> u32 \<Rightarrow> u32 \<Rightarrow> u32 \<Rightarrow> 'a tss_scheme \<Rightarrow> (unit, 'a tss_scheme) result" where
  "main syms gdt_base tss_entry lol_addr s =
     (let s = init_video s;
          s = init_tss gdt_base tss_entry s;
          s = idt_install syms s
      in and_then (init_paging syms s) (\<lambda>_ s.
           case install_devices syms s of None \<Rightarrow> None
           | Some s \<Rightarrow>
             (case printf (str (''Thank you for choosing Garg-OS!'' @ [nl])) [] s of None \<Rightarrow> None
              | Some s \<Rightarrow>
                let s = init_scheduler lol_addr s
                in Some (Ret () (s\<lparr>scheduler_active := 1\<rparr>)))))"

section \<open>What each part leaves alone\<close>

lemma fold_keeps: "(\<And>x s. F (g x s) = F s) \<Longrightarrow> F (fold g xs s) = F s"
  by (induction xs arbitrary: s) simp_all

lemma init_video_step: "console_step s (init_video s)"
proof -
  let ?g = "\<lambda>i j. store16 (VIDEO_MEMORY + of_nat (2 * (i * COLUMNS + j))) (GRAY_ON_CYAN OR 0x20)"
  have row: "console_frame u (fold (?g i) [0..<n] u)" if "i < 25" "n \<le> 80" for i n and u :: "'a screen_scheme"
    using that
  proof (induction n)
    case (Suc n)
    have "i * 80 + n < 2000" using Suc.prems by linarith
    then have "console_frame v (?g i n v)" for v
      using console_frame_store [of "i * 80 + n" v] by (simp add: cell_addr_def COLUMNS_def)
    then show ?case using Suc by (auto intro: console_frame_trans)
  qed (simp add: console_frame_refl)
  have "console_frame s (fold (\<lambda>i. fold (?g i) [0..<COLUMNS]) [0..<n] s)" if "n \<le> 25" for n
    using that
  proof (induction n)
    case (Suc n)
    then show ?case using row [of n 80] by (auto simp: COLUMNS_def intro: console_frame_trans)
  qed (simp add: console_frame_refl)
  from this [of 25] have "console_frame s (fold (\<lambda>i. fold (?g i) [0..<COLUMNS]) [0..<ROWS] s)"
    by (simp add: ROWS_def)
  then have "console_frame s (init_video s)"
    unfolding init_video_def Let_def by (blast intro: console_frame_trans console_frame_fields console_frame_update_cursor)
  then show ?thesis
    by (simp add: console_step_def cursor_ok_def init_video_def Let_def update_cursor_def move_cursor_def outb_def)
qed

lemma idt_install_keeps:
  "cx (idt_install syms s) = cx s" "cy (idt_install syms s) = cy s" "dev (idt_install syms s) = dev s"
  "is_first_run (idt_install syms u) = is_first_run (u :: 'a sched_scheme)" "timer_ticks (idt_install syms u) = timer_ticks u"
  "keyStatus (idt_install syms v) = keyStatus (v :: 'b keyboard_scheme)" "shiftLookup (idt_install syms v) = shiftLookup v"
  by (simp_all add: idt_install_def isrs_install_def irq_install_def irq_remap_def kmalloc_a_def kmalloc_ap_def
      kmalloc_def kmalloc_all_def memset_def outb_def idt_set_gate_def store16_def store8_def fold_keeps Let_def)

section \<open>The kernel's tables once they are in use\<close>

text \<open>The descriptor table and the fault handlers are on the page at \<open>I\<close>, the kernel's directory on the
  next one, with the first \<open>k\<close> pages mapped.\<close>

definition kmap :: "nat \<Rightarrow> nat \<Rightarrow> 'a paging_scheme \<Rightarrow> bool" where
  "kmap KD k s \<longleftrightarrow> kstate KD 4 k (s\<lparr>place_addr := of_nat (KD + 151552)\<rparr>)"

definition ready :: "symbols \<Rightarrow> nat \<Rightarrow> 'a paging_scheme \<Rightarrow> bool" where
  "ready syms I s \<longleftrightarrow> 0xB9000 \<le> I \<and> kroom (I + 4096) \<and> kmap (I + 4096) 4080 s \<and>
     idt s = of_nat I \<and> idtr s = Some (2047, of_nat I) \<and> interrupts_on s \<and> fault_handlers s = of_nat (I + 2048) \<and>
     (\<forall>n<32. gate_is (mem s) (of_nat (I + 8 * n)) (sym_isr syms n) 0x08 0x8E) \<and>
     (\<forall>n<16. gate_is (mem s) (of_nat (I + 8 * (32 + n))) (sym_irq syms n) 0x08 0x8E) \<and>
     ld32 (mem s) (of_nat (I + 2104)) = sym_page_fault_handler syms \<and>
     cr3 s = kernel_directory s \<and> current_dir s = kernel_directory s \<and> bit (cr0 s) 31"

lemma kmap_cong:
  assumes "kmap KD k s" "kroom KD" "kernel_directory t = kernel_directory s" "frames t = frames s"
    and "\<And>x. KD \<le> unat x \<Longrightarrow> unat x < KD + 151552 \<Longrightarrow> mem t x = mem s x"
  shows "kmap KD k t"
  unfolding kmap_def by (rule kstate_cong [OF assms(1) [unfolded kmap_def] assms(2)]) (use assms in simp_all)

text \<open>Only the word of fault handler 0 may change.\<close>

lemma ready_cong:
  assumes r: "ready syms I s"
    and f: "kernel_directory t = kernel_directory s" "frames t = frames s" "idt t = idt s" "idtr t = idtr s"
      "interrupts_on t = interrupts_on s" "fault_handlers t = fault_handlers s" "cr3 t = cr3 s"
      "current_dir t = current_dir s" "cr0 t = cr0 s"
    and m: "\<And>x. I \<le> unat x \<Longrightarrow> x \<notin> region (of_nat (I + 2048)) 4 \<Longrightarrow> mem t x = mem s x"
  shows "ready syms I t"
proof -
  have I: "I + 155648 \<le> 16711680" using r by (simp add: ready_def kroom_def)
  have u: "unat (of_nat (I + n) :: u32) = I + n" if "n \<le> 155648" for n
    using that I by (intro unat_of_nat_32) simp
  have keep: "mem t x = mem s x" if "x \<in> region (of_nat (I + n)) l" "n + l \<le> 2048 \<or> 2052 \<le> n" "n \<le> 4096" "l \<le> 8" for x n l
  proof (rule m)
    have "unat (of_nat (I + n) :: u32) + l \<le> 4294967296" using u [of n] that(3,4) I by simp
    from region_iff [OF this] that(1) have b: "I + n \<le> unat x" "unat x < I + n + l" using u [of n] that(3) by simp_all
    then show "I \<le> unat x" by simp
    have "unat (of_nat (I + 2048) :: u32) + 4 \<le> 4294967296" using u [of 2048] I by simp
    then show "x \<notin> region (of_nat (I + 2048)) 4" using b that(2) u [of 2048] by (auto simp: region_iff)
  qed
  have g: "gate_is (mem t) (of_nat (I + 8 * n)) b 8 0x8E \<longleftrightarrow> gate_is (mem s) (of_nat (I + 8 * n)) b 8 0x8E"
    if "n < 48" for n b
    using that by (intro gate_is_cong keep [of _ "8 * n" 8]) (simp_all del: of_nat_add of_nat_mult)
  have g32: "gate_is (mem t) (of_nat (I + 8 * n)) (sym_isr syms n) 8 0x8E" if "n < 32" for n
    using r that g [of n] by (simp add: ready_def)
  have g16: "gate_is (mem t) (of_nat (I + 8 * (32 + n))) (sym_irq syms n) 8 0x8E" if "n < 16" for n
    using r that unfolding ready_def by (subst g) auto
  have "ld32 (mem t) (of_nat (I + 2104)) = ld32 (mem s) (of_nat (I + 2104))"
    by (rule s32.ld_cong) (rule keep [of _ 2104 4], simp_all del: of_nat_add)
  moreover have "kmap (I + 4096) 4080 t"
  proof (rule kmap_cong)
    show "kmap (I + 4096) 4080 s" "kroom (I + 4096)" using r by (simp_all add: ready_def)
    fix x :: u32 assume x: "I + 4096 \<le> unat x"
    have "unat (of_nat (I + 2048) :: u32) + 4 \<le> 4294967296" using u [of 2048] I by simp
    then have "x \<notin> region (of_nat (I + 2048)) 4" using x u [of 2048] by (auto simp: region_iff)
    then show "mem t x = mem s x" using x by (intro m) simp_all
  qed (use f in simp_all)
  ultimately show ?thesis using r f g32 g16 by (simp add: ready_def)
qed

lemma above_video: "0xB9000 \<le> unat x \<Longrightarrow> x \<notin> video"
  by (simp add: video_def VIDEO_MEMORY_def region_iff)

lemma ready_console:
  assumes "ready syms I s" "console_step s t"
  shows "ready syms I t"
proof -
  have e: "t = s\<lparr>mem := mem t, trace := trace t, cx := cx t, cy := cy t\<rparr>"
    and m: "\<forall>x. x \<notin> video \<longrightarrow> mem t x = mem s x"
    using assms(2) by (simp_all add: console_step_def console_frame_def)
  show ?thesis
  proof (rule ready_cong [OF assms(1)])
    show "mem t x = mem s x" if "I \<le> unat x" for x
      using that assms(1) m above_video by (simp add: ready_def)
  qed (subst e, simp)+
qed

lemma ready_walk:
  assumes "ready syms I s"
  shows "walk (mem s) (cr3 s) va = (if va < KERNEL_MEM_END then Some va else None)"
  using kstate_walk [of "I + 4096" "s\<lparr>place_addr := of_nat (I + 4096 + 151552)\<rparr>" va] assms
  by (simp add: ready_def kmap_def)

section \<open>The three stages of the start\<close>

text \<open>Where the descriptor table comes to lie: behind the 64 KB of the kernel stack, at a page boundary.\<close>

definition idt_page :: "'a kheap_scheme \<Rightarrow> nat" where
  "idt_page s = page_up (unat (place_addr s) + 0x10000)"

definition boot_room :: "'a kheap_scheme \<Rightarrow> bool" where
  "boot_room s \<longleftrightarrow> 0xB9000 \<le> unat (place_addr s) \<and> kroom (idt_page s + 4096)"

lemma page_up_page: "n mod 4096 = 0 \<Longrightarrow> 0 < k \<Longrightarrow> k \<le> 4096 \<Longrightarrow> page_up (n + k) = n + 4096"
proof -
  assume n: "n mod 4096 = 0" and k: "0 < k" "k \<le> 4096"
  obtain q where q: "n = 4096 * q" using n by auto
  have "n + k + 4095 = 4096 * (q + 1) + (k - 1)" using k q by simp
  moreover have "k - 1 < 4096" using k by simp
  ultimately have "(n + k + 4095) div 4096 = q + 1" by simp
  then show ?thesis by (simp add: page_up_def q)
qed

lemma boot_tables:
  fixes s :: "'a tss_scheme"
  assumes "boot_room s"
  shows "\<exists>u. init_paging syms (idt_install syms (init_tss g a (init_video s))) = Some (Ret () u) \<and>
    ready syms (idt_page s) u \<and> place_addr u = of_nat (idt_page s + 155648) \<and>
    cursor_ok u \<and> dev u = dev s \<and> irq_routines u = irq_routines s \<and> is_first_run u = is_first_run s \<and> timer_ticks u = timer_ticks s \<and>
    (\<forall>x. unat x < unat (place_addr s) \<longrightarrow> mem u x = mem (init_tss g a (init_video s)) x) \<and>
    cx u = 0 \<and> cy u = 0 \<and> keyStatus u = keyStatus s \<and> shiftLookup u = shiftLookup s"
proof -
  let ?I = "idt_page s"
  define s0 where "s0 = init_video s"
  define s1 where "s1 = init_tss g a s0"
  define s2 where "s2 = idt_install syms s1"
  have room: "0xB9000 \<le> unat (place_addr s)" "kroom (?I + 4096)" using assms by (simp_all add: boot_room_def)
  have b: "?I + 155648 \<le> 16711680" "?I mod 4096 = 0" using room(2) by (auto simp: kroom_def)
  have ge: "unat (place_addr s) + 65536 \<le> ?I" unfolding idt_page_def by (rule page_up_ge)
  have v: "s0 = s\<lparr>mem := mem s0, trace := trace s0, cx := cx s0, cy := cy s0\<rparr>" "cursor_ok s0"
    using init_video_step [of s] by (simp_all add: s0_def console_step_def console_frame_def)
  have "place_addr s0 = place_addr s" "dev s0 = dev s" "irq_routines s0 = irq_routines s"
    "is_first_run s0 = is_first_run s" "timer_ticks s0 = timer_ticks s"
    "keyStatus s0 = keyStatus s" "shiftLookup s0 = shiftLookup s" by (subst v(1), simp)+
  moreover have "cx s0 = 0" "cy s0 = 0"
    by (simp_all add: s0_def init_video_def update_cursor_def move_cursor_def outb_def Let_def)
  moreover have "unat (place_addr s + 0x10000) = unat (place_addr s) + 65536"
    using ge b by (intro unat_add_no_wrap [of _ "0x10000", simplified]) simp
  ultimately have s1: "unat (place_addr s1) = unat (place_addr s) + 65536" "dev s1 = dev s"
    "irq_routines s1 = irq_routines s" "cursor_ok s1" "is_first_run s1 = is_first_run s" "timer_ticks s1 = timer_ticks s"
    "cx s1 = 0" "cy s1 = 0" "keyStatus s1 = keyStatus s" "shiftLookup s1 = shiftLookup s"
    using v(2) by (simp_all add: s1_def init_tss_state cursor_ok_def)
  then have pu: "page_up (unat (place_addr s1)) = ?I" by (simp add: idt_page_def)
  note idt = idt_install_state [where s = s1 and syms = syms, unfolded pu, folded s2_def]
  have iroom: "?I + 2176 \<le> 4294967295" using b by simp
  have k: "idt_install syms s1 = s2" by (simp add: s2_def)
  have s2: "cursor_ok s2" "dev s2 = dev s" "irq_routines s2 = irq_routines s" "is_first_run s2 = is_first_run s" "timer_ticks s2 = timer_ticks s"
    "cx s2 = 0" "cy s2 = 0" "keyStatus s2 = keyStatus s" "shiftLookup s2 = shiftLookup s"
    using s1 idt(9) [OF iroom] by (simp_all add: s2_def cursor_ok_def idt_install_keeps)
  have u: "unat (of_nat (?I + n) :: u32) = ?I + n" if "n \<le> 155648" for n
    using that b by (intro unat_of_nat_32) simp
  have pl: "place_addr s2 = of_nat (?I + 2176)" "unat (place_addr s2) = ?I + 2176"
    using idt(10) [OF iroom] u [of 2176] by simp_all
  have KD: "page_up (unat (place_addr s2)) = ?I + 4096"
    unfolding pl(2) using b(2) by (intro page_up_page) simp_all
  have fh: "fault_handlers s2 = of_nat (?I + 2048)" "unat (fault_handlers s2) = ?I + 2048"
    using idt(4) [OF iroom] u [of 2048] by simp_all
  have "kroom (page_up (unat (place_addr s2)))" "unat (fault_handlers s2) + 128 \<le> unat (place_addr s2)"
    unfolding KD using room(2) fh(2) pl(2) by simp_all
  note ip = init_paging_kstate [OF this, of syms, unfolded KD]
  obtain t where t: "init_paging syms s2 = Some (Ret () t)" "kstate (?I + 4096) 4 4080 t"
    "current_dir t = kernel_directory t" "cr3 t = kernel_directory t" "cr0 t = cr0 s2 OR 0x80000000"
    "ld32 (mem t) (fault_handlers s2 + 56) = sym_page_fault_handler syms"
    "\<forall>x. x \<notin> region (fault_handlers s2 + 56) 4 \<longrightarrow>
       unat x < ?I + 4096 \<or> ?I + 4096 + 151552 \<le> unat x \<longrightarrow> mem t x = mem s2 x" "pframe s2 t"
    using ip by blast
  have f: "idt t = idt s2" "idtr t = idtr s2" "interrupts_on t = interrupts_on s2"
    "fault_handlers t = fault_handlers s2" "irq_routines t = irq_routines s2" "dev t = dev s2" "cx t = cx s2" "cy t = cy s2"
    "is_first_run t = is_first_run s2" "timer_ticks t = timer_ticks s2"
    "keyStatus t = keyStatus s2" "shiftLookup t = shiftLookup s2"
    by (subst t(8) [unfolded pframe_def], simp)+
  have f56: "fault_handlers s2 + 56 = of_nat (?I + 2104)" by (simp add: fh)
  have r56: "x \<in> region (fault_handlers s2 + 56) 4 \<longleftrightarrow> ?I + 2104 \<le> unat x \<and> unat x < ?I + 2108" for x
  proof -
    have u56: "unat (of_nat (?I + 2104) :: u32) = ?I + 2104" by (rule u) simp
    then have "unat (of_nat (?I + 2104) :: u32) + 4 \<le> 4294967296" using b by simp
    moreover have "?I + 2104 + 4 = ?I + 2108" by simp
    ultimately show ?thesis unfolding f56 by (simp only: region_iff u56)
  qed
  have same: "mem t x = mem s2 x" if "unat x < ?I + 2104" for x using t(7) r56 that by simp
  have gates: "gate_is (mem t) (of_nat (?I + 8 * n)) base 0x08 0x8E \<longleftrightarrow> gate_is (mem s2) (of_nat (?I + 8 * n)) base 0x08 0x8E"
    if "n < 48" for n base
  proof (rule gate_is_cong)
    fix x assume x: "x \<in> region (of_nat (?I + 8 * n) :: u32) 8"
    have "unat (of_nat (?I + 8 * n) :: u32) + 8 \<le> 4294967296" using u [of "8 * n"] b that by simp
    from region_iff [OF this] x have "unat x < ?I + 8 * n + 8" using u [of "8 * n"] that by simp
    then show "mem t x = mem s2 x" using that by (intro same) simp
  qed
  have g32: "gate_is (mem t) (of_nat (?I + 8 * n)) (sym_isr syms n) 8 0x8E" if "n < 32" for n
    using idt(5) [OF iroom that] gates [of n] that by simp
  have g16: "gate_is (mem t) (of_nat (?I + 8 * (32 + n))) (sym_irq syms n) 8 0x8E" if "n < 16" for n
    using idt(6) [OF iroom that] gates [of "32 + n"] that by simp
  have "bit (cr0 t) 31"
  proof -
    have "(0x80000000 :: u32) = push_bit 31 1" by simp
    then show ?thesis unfolding t(5) by (simp only: bit_simps) simp
  qed
  moreover have "kmap (?I + 4096) 4080 t"
  proof -
    have "place_addr t = of_nat (?I + 4096 + 151552)" using t(2) by (simp add: kstate_def)
    then show ?thesis using t(2) by (simp add: kmap_def kstate_def)
  qed
  ultimately have "ready syms ?I t"
    using room ge g32 g16 t(3,4) t(6) [unfolded f56] idt(1-3) [OF iroom] f fh by (simp add: ready_def)
  moreover have "place_addr t = of_nat (?I + 155648)" using t(2) by (simp add: kstate_def)
  moreover have "mem t x = mem s1 x" if x: "unat x < unat (place_addr s)" for x
  proof -
    have "x \<notin> region (of_nat ?I) 2176"
    proof -
      have "unat (of_nat ?I :: u32) + 2176 \<le> 4294967296" using u [of 0] b by simp
      from region_iff [OF this] show ?thesis using u [of 0] x ge by simp
    qed
    then have "mem s2 x = mem s1 x" by (rule idt(8) [OF iroom])
    moreover have "mem t x = mem s2 x" using x ge by (intro same) simp
    ultimately show ?thesis by simp
  qed
  ultimately show ?thesis
    using t(1) s2 f by (intro exI [of _ t]) (simp add: s2_def s1_def s0_def cursor_ok_def)
qed

lemma keyboard_install_returns:
  fixes s :: "'a keyboard_scheme"
  assumes "controller_ok s" "length (irq_routines s) = 16"
  shows "\<exists>tr. keyboard_install syms s = Some (s\<lparr>trace := tr, shiftLookup := shiftLookup (initShiftLookup s),
    irq_routines := (irq_routines s)[1 := sym_keyboard_handler syms]\<rparr>)"
proof -
  let ?s = "s\<lparr>irq_routines := (irq_routines s)[1 := sym_keyboard_handler syms]\<rparr>"
  have "controller_ok ?s" using assms(1) by (simp add: controller_ok_def)
  from sendByte_returns [OF this] obtain tr where tr: "sendByte 0x60 0xED ?s = Some (?s\<lparr>trace := tr\<rparr>)" by blast
  have "controller_ok (?s\<lparr>trace := tr\<rparr>)" using assms(1) by (simp add: controller_ok_def)
  from sendByte_returns [OF this] obtain tr' where
    tr': "sendByte 0x60 0 (?s\<lparr>trace := tr\<rparr>) = Some (?s\<lparr>trace := tr\<rparr>\<lparr>trace := tr'\<rparr>)" by blast
  have "keyboard_install syms s = Some (initShiftLookup (?s\<lparr>trace := tr'\<rparr>))"
    using assms(2) tr tr' by (simp add: keyboard_install_def irq_install_handler_def switchCapsLightOff_def)
  then show ?thesis
    by (intro exI [of _ tr']) (cases s, simp add: initShiftLookup_def)
qed

lemma install_devices_returns:
  fixes s :: "'a keyboard_scheme"
  assumes "controller_ok s" "length (irq_routines s) = 16"
  shows "\<exists>tr. install_devices syms s = Some (s\<lparr>mem := st32 (mem s) (fault_handlers s) (sym_divideByZero syms),
    trace := tr, shiftLookup := shiftLookup (initShiftLookup s), freq := 100,
    irq_routines := (irq_routines s)[0 := sym_timer_handler syms, 1 := sym_keyboard_handler syms]\<rparr>)"
proof -
  let ?s = "s\<lparr>irq_routines := (irq_routines s)[0 := sym_timer_handler syms]\<rparr>"
  obtain tr where t: "Option.bind (timer_install syms s) (set_timer_freq 100) = Some (?s\<lparr>trace := tr, freq := 100\<rparr>)"
    using assms(2) by (simp add: timer_install_def irq_install_handler_def set_timer_freq_def outb_def)
  have "controller_ok (?s\<lparr>trace := tr, freq := 100\<rparr>)" using assms(1) by (simp add: controller_ok_def)
  from keyboard_install_returns [OF this, of syms] assms(2) obtain tr' where
    k: "keyboard_install syms (?s\<lparr>trace := tr, freq := 100\<rparr>) = Some (?s\<lparr>trace := tr, freq := 100\<rparr>\<lparr>trace := tr', shiftLookup := shiftLookup (initShiftLookup s),
      irq_routines := (irq_routines s)[0 := sym_timer_handler syms, 1 := sym_keyboard_handler syms]\<rparr>)" by (auto simp: initShiftLookup_def)
  have "install_devices syms s = map_option (register_fault_handler 0 (sym_divideByZero syms))
      (keyboard_install syms (?s\<lparr>trace := tr, freq := 100\<rparr>))"
    using t by (cases "timer_install syms s"; cases "set_timer_freq 100 (the (timer_install syms s))";
        cases "keyboard_install syms (?s\<lparr>trace := tr, freq := 100\<rparr>)") (auto simp: install_devices_def)
  then show ?thesis unfolding k
    by (intro exI [of _ tr']) (cases s, simp add: register_fault_handler_def store32_def)
qed

lemma init_scheduler_table:
  fixes s :: "'a sched_scheme" and f :: u32
  defines "t \<equiv> init_scheduler f s"
  shows "procs_ok (proc_arr t)" "live (proc_arr t) i \<longleftrightarrow> i = 0"
    "page_directory (proc_arr t ! 0) = kernel_directory s" "priority_level (proc_arr t ! 0) = 0"
    "r_eip (last_state_regs (proc_arr t ! 0)) = f"
    "r_useresp (last_state_regs (proc_arr t ! 0)) = place_addr s + 0x1C00"
    "t = s\<lparr>proc_arr := proc_arr t, list_size := 0, place_addr := place_addr s + 0x1C00, time_slice_millis := 40,
       cur_proc_index := 0\<rparr>"
    "r_cs (last_state_regs (proc_arr t ! 0)) = 8"
proof -
  define ps where "ps = proc_arr (init_process_list s)"
  have ps: "procs_ok ps" "length ps = 32" "\<forall>i<32. pid (ps ! i) = -1"
    using procs_ok_init [of s] by (simp_all add: ps_def procs_ok_def MAX_PROC_def init_process_list_def kmalloc_eq Let_def)
  define p where "p = (hd ps)\<lparr>priority_level := 0, pid := 0, page_directory := kernel_directory s,
    last_state_regs := (last_state_regs (hd ps))\<lparr>r_ds := 0x10, r_cs := 0x08, r_eip := f,
      r_ss := 0x10, r_es := 0x10, r_fs := 0x10, r_gs := 0x10, r_eflags := 0x202,
      r_useresp := place_addr s + 0x1C00, r_ebp := place_addr s + 0x1C00\<rparr>\<rparr>"
  have t: "t = s\<lparr>proc_arr := ps[0 := p], list_size := 0, place_addr := place_addr s + 0x1C00, time_slice_millis := 40,
       cur_proc_index := 0\<rparr>"
    by (cases s) (simp add: t_def init_scheduler_def init_process_list_def kmalloc_eq ps_def p_def sizeof_process_def
        MAX_PROC_def set_time_slice_def add.commute Let_def)
  have a: "proc_arr t = ps[0 := p]" by (simp add: t)
  show "procs_ok (proc_arr t)" unfolding a by (rule procs_ok_update [OF ps(1)]) (simp_all add: MAX_PROC_def p_def)
  show "live (proc_arr t) i \<longleftrightarrow> i = 0" using ps(2,3) by (auto simp: a live_def nth_list_update p_def)
  show "page_directory (proc_arr t ! 0) = kernel_directory s" "priority_level (proc_arr t ! 0) = 0"
    "r_eip (last_state_regs (proc_arr t ! 0)) = f" "r_useresp (last_state_regs (proc_arr t ! 0)) = place_addr s + 0x1C00"
    "r_cs (last_state_regs (proc_arr t ! 0)) = 8"
    using ps(2) by (simp_all add: a p_def)
  show "t = s\<lparr>proc_arr := proc_arr t, list_size := 0, place_addr := place_addr s + 0x1C00, time_slice_millis := 40,
       cur_proc_index := 0\<rparr>" unfolding a by (rule t)
qed

section \<open>The state when main returns\<close>

definition started :: "symbols \<Rightarrow> nat \<Rightarrow> u32 \<Rightarrow> 'a keyboard_scheme \<Rightarrow> bool" where
  "started syms I f s \<longleftrightarrow> ready syms I s \<and> place_addr s = of_nat (I + 162816) \<and> kernel_ok s \<and>
     ld32 (mem s) (fault_handlers s) = sym_divideByZero syms \<and>
     irq_routines s ! 0 = sym_timer_handler syms \<and> irq_routines s ! 1 = sym_keyboard_handler syms \<and>
     freq s = 100 \<and> time_slice_millis s = 40 \<and> scheduler_active s = 1 \<and> cur_proc_index s = 0 \<and>
     (\<forall>i. live (proc_arr s) i \<longleftrightarrow> i = 0) \<and> page_directory (proc_arr s ! 0) = cr3 s \<and>
     priority_level (proc_arr s ! 0) = 0 \<and> r_eip (last_state_regs (proc_arr s ! 0)) = f \<and>
     r_useresp (last_state_regs (proc_arr s ! 0)) = of_nat (I + 162816) \<and> r_cs (last_state_regs (proc_arr s ! 0)) = 8"

lemma ready_register:
  assumes "ready syms I s"
  shows "ready syms I (s\<lparr>mem := st32 (mem s) (fault_handlers s) v, trace := tr, shiftLookup := sl, freq := n, irq_routines := rs\<rparr>)"
proof (rule ready_cong [OF assms])
  show "mem (s\<lparr>mem := st32 (mem s) (fault_handlers s) v, trace := tr, shiftLookup := sl, freq := n, irq_routines := rs\<rparr>) x = mem s x"
    if "x \<notin> region (of_nat (I + 2048)) 4" for x
    using that assms by (simp add: ready_def s32.st_frame)
qed simp_all

lemma fault_slot_0:
  assumes "ready syms I s"
  shows "region (fault_handlers s) 4 \<inter> video = {}"
    "x \<in> region (fault_handlers s) 4 \<Longrightarrow> I + 2048 \<le> unat x"
proof -
  have I: "0xB9000 \<le> I" "I + 155648 \<le> 16711680" using assms by (simp_all add: ready_def kroom_def)
  have u: "unat (of_nat (I + 2048) :: u32) = I + 2048" using I by (intro unat_of_nat_32) simp
  then have "unat (of_nat (I + 2048) :: u32) + 4 \<le> 4294967296" using I by simp
  note r = region_iff [OF this, unfolded u]
  have fh: "fault_handlers s = of_nat (I + 2048)" using assms by (simp add: ready_def)
  show b: "I + 2048 \<le> unat x" if "x \<in> region (fault_handlers s) 4" for x
    using that unfolding fh r by simp
  show "region (fault_handlers s) 4 \<inter> video = {}"
  proof -
    have "x \<notin> video" if "x \<in> region (fault_handlers s) 4" for x
      using b [OF that] I by (intro above_video) simp
    then show ?thesis by blast
  qed
qed

text \<open>The display is the video memory and the cursor.\<close>

lemma console_of_cong:
  assumes "\<And>x. x \<in> video \<Longrightarrow> mem t x = mem s x" "cx t = cx s" "cy t = cy s"
  shows "console_of t = console_of s"
proof -
  have "cell (mem t) k = cell (mem s) k" if "k < 2000" for k
    using that assms(1) by (rule cell_cong)
  then show ?thesis using assms(2,3) by (simp add: console_of_def)
qed

text \<open>A text without directives.\<close>

lemma printf_plain: "37 \<notin> set cs \<Longrightarrow> 0 \<notin> set cs \<Longrightarrow> printf cs args s = Some (fold putc cs s)"
  by (induction cs args s rule: printf.induct) auto

lemma console_of_fold: "cursor_ok s \<Longrightarrow> console_of (fold putc cs s) = fold console_putc cs (console_of s)"
  by (induction cs arbitrary: s) (simp_all add: console_of_putc putc.keeps_cursor)

definition banner :: "u8 list" where
  "banner = str (''Thank you for choosing Garg-OS!'' @ [nl])"

lemma main_starts:
  fixes s :: "'a tss_scheme"
  assumes "boot_room s" "length (irq_routines s) = 16" "controller_ok s"
  shows "\<exists>t. main syms g a f s = Some (Ret () t) \<and> started syms (idt_page s) f t \<and>
    is_first_run t = is_first_run s \<and> timer_ticks t = timer_ticks s \<and> dev t = dev s \<and>
    (\<forall>x. unat x < unat (place_addr s) \<longrightarrow> x \<notin> video \<longrightarrow> mem t x = mem (init_tss g a (init_video s)) x) \<and>
    irq_routines t = (irq_routines s)[0 := sym_timer_handler syms, 1 := sym_keyboard_handler syms] \<and>
    keyStatus t = keyStatus s \<and> shiftLookup t = shiftLookup (initShiftLookup s) \<and>
    console_of t = fold console_putc banner (console_of (init_tss g a (init_video s)))"
proof -
  let ?I = "idt_page s"
  obtain u where u: "init_paging syms (idt_install syms (init_tss g a (init_video s))) = Some (Ret () u)"
    "ready syms ?I u" "place_addr u = of_nat (?I + 155648)" "cursor_ok u" "dev u = dev s" "irq_routines u = irq_routines s"
    "is_first_run u = is_first_run s" "timer_ticks u = timer_ticks s"
    "\<forall>x. unat x < unat (place_addr s) \<longrightarrow> mem u x = mem (init_tss g a (init_video s)) x"
    "cx u = 0" "cy u = 0" "keyStatus u = keyStatus s" "shiftLookup u = shiftLookup s"
    using boot_tables [OF assms(1)] by blast
  have "controller_ok u" "length (irq_routines u) = 16" using assms(2,3) u(5,6) by (simp_all add: controller_ok_def)
  then obtain tr where dv: "install_devices syms u = Some (u\<lparr>mem := st32 (mem u) (fault_handlers u) (sym_divideByZero syms),
    trace := tr, shiftLookup := shiftLookup (initShiftLookup u), freq := 100,
    irq_routines := (irq_routines u)[0 := sym_timer_handler syms, 1 := sym_keyboard_handler syms]\<rparr>)" (is "_ = Some ?v")
    using install_devices_returns by blast
  obtain w where w: "printf (str (''Thank you for choosing Garg-OS!'' @ [nl])) [] ?v = Some w"
    using printf_returns [of "str (''Thank you for choosing Garg-OS!'' @ [nl])" "[]" ?v] by (auto simp: str_def nl_def)
  have cv: "cursor_ok ?v" using u(4) by (simp add: cursor_ok_def)
  note vw = printf_step [OF w cv]
  have e: "w = ?v\<lparr>mem := mem w, trace := trace w, cx := cx w, cy := cy w\<rparr>" "\<forall>x. x \<notin> video \<longrightarrow> mem w x = mem ?v x" "cursor_ok w"
    using vw unfolding console_step_def console_frame_def by blast+
  have rv: "ready syms ?I ?v" by (rule ready_register [OF u(2)])
  then have rw: "ready syms ?I w" using vw by (rule ready_console)
  have fw: "irq_routines w = (irq_routines s)[0 := sym_timer_handler syms, 1 := sym_keyboard_handler syms]"
    "freq w = 100" "place_addr w = of_nat (?I + 155648)" "fault_handlers w = fault_handlers u"
    "is_first_run w = is_first_run s" "timer_ticks w = timer_ticks s" "dev w = dev s"
    "keyStatus w = keyStatus s" "shiftLookup w = shiftLookup (initShiftLookup s)"
    by (subst e(1), simp add: u(3,5-8,12,13) initShiftLookup_def)+
  define t where "t = (init_scheduler f w)\<lparr>scheduler_active := 1\<rparr>"
  note sc = init_scheduler_table [of f w]
  have mt: "mem t = mem w" "fault_handlers t = fault_handlers w" "irq_routines t = irq_routines w" "freq t = freq w"
    "cr3 t = cr3 w" "cx t = cx w" "cy t = cy w" "place_addr t = place_addr w + 0x1C00" "time_slice_millis t = 40"
    "cur_proc_index t = 0" "kernel_directory t = kernel_directory w"
    "is_first_run t = is_first_run s" "timer_ticks t = timer_ticks s" "dev t = dev s"
    "keyStatus t = keyStatus w" "shiftLookup t = shiftLookup w"
    unfolding t_def by (subst sc(7), simp add: fw)+
  have rt: "ready syms ?I t"
    unfolding t_def by (rule ready_cong [OF rw]) (subst sc(7), simp)+
  have "ld32 (mem w) (fault_handlers u) = ld32 (mem ?v) (fault_handlers u)"
    by (rule s32.ld_cong) (use e(2) fault_slot_0(1) [OF u(2)] in blast)
  then have h: "ld32 (mem t) (fault_handlers t) = sym_divideByZero syms"
    by (simp add: mt fw s32.ld_st)
  have pt: "proc_arr t = proc_arr (init_scheduler f w)" "scheduler_active t = 1" by (simp_all add: t_def)
  have "page_directory (proc_arr t ! 0) = cr3 t" using rw by (simp add: pt sc(3) mt ready_def)
  moreover have "place_addr w + 0x1C00 = of_nat (?I + 162816)" by (simp add: fw(3))
  moreover have "kernel_ok t"
    using e(3) sc(1) assms(2) by (simp add: kernel_ok_def cursor_ok_def mt pt fw MAX_PROC_def)
  ultimately have "started syms ?I f t"
    using rt h sc(2,4-6,8) assms(2) by (simp add: started_def mt pt fw)
  moreover have "mem t x = mem (init_tss g a (init_video s)) x" if "unat x < unat (place_addr s)" "x \<notin> video" for x
  proof -
    have "unat (place_addr s) \<le> ?I" using page_up_ge [of "unat (place_addr s) + 0x10000"] by (simp add: idt_page_def)
    then have "x \<notin> region (fault_handlers u) 4" using that(1) fault_slot_0(2) [OF u(2), of x] by fastforce
    then have "mem ?v x = mem u x" by (simp add: s32.st_frame)
    then show ?thesis using e(2) that u(9) by (simp add: mt(1))
  qed
  moreover have "console_of t = fold console_putc banner (console_of (init_tss g a (init_video s)))"
  proof -
    have "37 \<notin> set banner" "0 \<notin> set banner" by (simp_all add: banner_def str_def nl_def)
    then have "w = fold putc banner ?v" using w printf_plain [of banner "[]" ?v] by (simp add: banner_def)
    then have "console_of w = fold console_putc banner (console_of ?v)" using console_of_fold [OF cv] by simp
    moreover have "console_of ?v = console_of (init_tss g a (init_video s))" (is "_ = console_of ?i")
    proof -
      have b: "0xB9000 \<le> unat (place_addr s)" using assms(1) by (simp add: boot_room_def)
      have "mem ?v x = mem ?i x" if x: "x \<in> video" for x
      proof -
        have "unat x < unat (place_addr s)" using x b above_video [of x] by fastforce
        moreover have "x \<notin> region (fault_handlers u) 4" using x fault_slot_0(1) [OF u(2)] by blast
        ultimately show ?thesis using u(9) by (simp add: s32.st_frame)
      qed
      moreover have "cx ?i = 0" "cy ?i = 0"
        by (simp_all add: init_tss_state init_video_def update_cursor_def move_cursor_def outb_def Let_def)
      ultimately show ?thesis using u(10,11) by (intro console_of_cong) simp_all
    qed
    moreover have "console_of t = console_of w" by (rule console_of_cong) (simp_all add: mt)
    ultimately show ?thesis by simp
  qed
  moreover have "main syms g a f s = Some (Ret () t)"
    using u(1) dv w by (simp add: main_def t_def Let_def)
  ultimately show ?thesis using mt fw by (intro exI [of _ t]) simp
qed

text \<open>The first slice: four ticks, the last of which makes slot 0 the running process.\<close>

lemma first_slice:
  fixes t :: "'a keyboard_scheme"
  assumes st: "started syms I f t" and first: "is_first_run t \<noteq> 0" "timer_ticks t = 0"
  shows "ticks [r1, r2, r3, r4] t = Some ([r1, r2, r3, last_state_regs (proc_arr t ! 0)],
    t\<lparr>is_first_run := 0, current_dir := cr3 t, cr3 := cr3 t, cur_proc_index := 0, time_slice_millis := 100, timer_ticks := 0\<rparr>)"
proof -
  have p: "procs_ok (proc_arr t)" "cur_proc_index t = 0" "scheduler_active t = 1" "slice_ticks t = 4"
    "\<forall>i. live (proc_arr t) i \<longleftrightarrow> i = 0" "page_directory (proc_arr t ! 0) = cr3 t" "priority_level (proc_arr t ! 0) = 0"
    using st by (simp_all add: started_def kernel_ok_def slice_ticks_def)
  let ?u = "t\<lparr>timer_ticks := 4\<rparr>"
  have "live (proc_arr t) (next_live (proc_arr t) MAX_PROC 0)"
    using p(5) by (intro next_live_live [of 0 0]) (simp_all add: MAX_PROC_def)
  then have "next_live (proc_arr t) MAX_PROC 0 = 0" using p(5) by simp
  then have "start_next_process r4 ?u =
      Some (time_slice (priority_level (proc_arr t ! 0)), last_state_regs (proc_arr (switched 0 r4 ?u) ! 0), switched 0 r4 ?u)"
    using p by (subst start_next_process_eq) (auto simp: MAX_PROC_def)
  moreover have "ticks ([r1, r2, r3] @ [r4]) t =
    (case start_next_process r4 (t\<lparr>timer_ticks := slice_ticks t\<rparr>) of
       None \<Rightarrow> None
     | Some (millis, r', u) \<Rightarrow> Some ([r1, r2, r3] @ [r'], u\<lparr>time_slice_millis := millis, timer_ticks := 0\<rparr>))"
    by (rule ticks_of_slice) (simp add: p(4) first(2))
  moreover have "switched 0 r4 ?u\<lparr>time_slice_millis := 100, timer_ticks := 0\<rparr> =
      t\<lparr>is_first_run := 0, current_dir := cr3 t, cr3 := cr3 t, cur_proc_index := 0, time_slice_millis := 100, timer_ticks := 0\<rparr>"
    using first(1) p(6) by (cases t) (simp add: switched_def Let_def)
  moreover have "proc_arr (switched 0 r4 ?u) = proc_arr t" using first(1) by (simp add: switched_def Let_def)
  ultimately show ?thesis by (simp add: p(4,7) time_slice_def del: ticks.simps)
qed

section \<open>Properties\<close>

text \<open>C5. \<open>main\<close> returns, from any state with room for its structures below \<open>KERNEL_MEM_END\<close> and a keyboard
  controller that becomes ready: paging is on with the kernel's identity mapping, the table register
  and all 48 gates are set, the handlers of division by zero, page faults, timer and keyboard are in
  place, the kernel's invariant holds, and the scheduler is active with a slice of four ticks and one
  process, which starts at \<open>lol\<close>. Memory below the allocator is as \<open>init_tss\<close> left it, apart from the screen.\<close>

theorem main_boots:
  fixes s :: "'a tss_scheme"
  assumes "boot_room s" and "length (irq_routines s) = 16" and "controller_ok s"
  shows "\<exists>t. main syms g a f s = Some (Ret () t) \<and> kernel_ok t \<and>
    (\<forall>va. walk (mem t) (cr3 t) va = (if va < KERNEL_MEM_END then Some va else None)) \<and> bit (cr0 t) 31 \<and>
    idtr t = Some (2047, idt t) \<and> interrupts_on t \<and>
    (\<forall>n<32. gate_is (mem t) (idt t + of_nat (8 * n)) (sym_isr syms n) 0x08 0x8E) \<and>
    (\<forall>n<16. gate_is (mem t) (idt t + of_nat (8 * (32 + n))) (sym_irq syms n) 0x08 0x8E) \<and>
    ld32 (mem t) (fault_handlers t) = sym_divideByZero syms \<and>
    ld32 (mem t) (fault_handlers t + 4 * 14) = sym_page_fault_handler syms \<and>
    irq_routines t ! 0 = sym_timer_handler syms \<and> irq_routines t ! 1 = sym_keyboard_handler syms \<and>
    scheduler_active t = 1 \<and> slice_ticks t = 4 \<and> sched_ok t \<and> (\<forall>i. live (proc_arr t) i \<longleftrightarrow> i = 0) \<and>
    page_directory (proc_arr t ! 0) = cr3 t \<and> r_eip (last_state_regs (proc_arr t ! 0)) = f \<and>
    (\<forall>x. unat x < unat (place_addr s) \<longrightarrow> x \<notin> video \<longrightarrow> mem t x = mem (init_tss g a (init_video s)) x)"
proof -
  obtain t where t: "main syms g a f s = Some (Ret () t)" "started syms (idt_page s) f t"
    "\<forall>x. unat x < unat (place_addr s) \<longrightarrow> x \<notin> video \<longrightarrow> mem t x = mem (init_tss g a (init_video s)) x"
    using main_starts [OF assms] by blast
  have r: "ready syms (idt_page s) t" using t(2) by (simp add: started_def)
  have "sched_ok t" "slice_ticks t = 4"
    using t(2) by (simp_all add: started_def sched_ok_def kernel_ok_def slice_ticks_def MAX_PROC_def)
  moreover have "idtr t = Some (2047, idt t)" "interrupts_on t" "bit (cr0 t) 31"
    "\<forall>n<32. gate_is (mem t) (idt t + of_nat (8 * n)) (sym_isr syms n) 0x08 0x8E"
    "\<forall>n<16. gate_is (mem t) (idt t + of_nat (8 * (32 + n))) (sym_irq syms n) 0x08 0x8E"
    using r by (simp_all add: ready_def)
  moreover have "ld32 (mem t) (fault_handlers t + 4 * 14) = sym_page_fault_handler syms"
  proof -
    have fh: "fault_handlers t + 4 * 14 = of_nat (idt_page s + 2104)" using r by (simp add: ready_def)
    show ?thesis unfolding fh using r by (simp only: ready_def)
  qed
  ultimately show ?thesis
    using t ready_walk [OF r] by (intro exI [of _ t]) (simp add: started_def)
qed

text \<open>The kernel starts its first process: after \<open>main\<close>, the first three timer interrupts return to the
  code they interrupted, and the fourth hands over the registers of slot 0, at the first instruction of
  \<open>lol\<close> and with the stack allocated for it.\<close>

theorem main_enters_first_process:
  fixes s :: "'a tss_scheme"
  assumes "boot_room s" and "length (irq_routines s) = 16" and "controller_ok s"
    and "timer_ticks s = 0" and "is_first_run s \<noteq> 0"
  shows "\<exists>t u r. main syms g a f s = Some (Ret () t) \<and> ticks [r1, r2, r3, r4] t = Some ([r1, r2, r3, r], u) \<and>
    r = last_state_regs (proc_arr t ! 0) \<and> r_eip r = f \<and> r_useresp r = of_nat (idt_page s + 162816) \<and>
    cr3 u = cr3 t \<and> time_slice_millis u = 100 \<and> timer_ticks u = 0 \<and> is_first_run u = 0"
proof -
  obtain t where t: "main syms g a f s = Some (Ret () t)" "started syms (idt_page s) f t"
    "is_first_run t = is_first_run s" "timer_ticks t = timer_ticks s"
    using main_starts [OF assms(1-3)] by blast
  have "ticks [r1, r2, r3, r4] t = Some ([r1, r2, r3, last_state_regs (proc_arr t ! 0)],
    t\<lparr>is_first_run := 0, current_dir := cr3 t, cr3 := cr3 t, cur_proc_index := 0, time_slice_millis := 100, timer_ticks := 0\<rparr>)"
    by (rule first_slice [OF t(2)]) (use assms(4,5) t(3,4) in simp_all)
  with t(1,2) show ?thesis
    unfolding started_def by (intro exI [of _ t] exI [of _ "t\<lparr>is_first_run := 0, current_dir := cr3 t, cr3 := cr3 t,
        cur_proc_index := 0, time_slice_millis := 100, timer_ticks := 0\<rparr>"] exI [of _ "last_state_regs (proc_arr t ! 0)"])
      (simp del: ticks.simps)
qed

section \<open>Witnesses\<close>

definition demo_boot :: tss where
  "demo_boot = demo_tss\<lparr>place_addr := 0xF0000, irq_routines := replicate 16 0, timer_ticks := 0, is_first_run := 1\<rparr>"

lemma demo_boot_ok: "boot_room demo_boot" "idt_page demo_boot = 0x100000" "length (irq_routines demo_boot) = 16"
  "controller_ok demo_boot"
proof -
  show i: "idt_page demo_boot = 0x100000" by (simp add: demo_boot_def idt_page_def)
  then show "boot_room demo_boot" by (simp add: boot_room_def kroom_def) (simp add: demo_boot_def)
  show "length (irq_routines demo_boot) = 16" by (simp add: demo_boot_def)
  show "controller_ok demo_boot"
    by (simp add: controller_ok_def demo_boot_def demo_tss_def demo_keyboard_def keyboard.defs)
qed

lemma main_boots_witness:
  "\<exists>t. main demo_addresses 0x7C00 0x25000 0x21000 demo_boot = Some (Ret () t) \<and>
    walk (mem t) (cr3 t) 0xB8123 = Some 0xB8123 \<and> walk (mem t) (cr3 t) 0xFF0000 = None"
  using main_boots [OF demo_boot_ok(1,3,4), of demo_addresses "0x7C00" "0x25000" "0x21000"]
  by (auto simp: KERNEL_MEM_END_def)

lemma main_enters_first_process_witness:
  "\<forall>i. \<exists>t u r. main demo_addresses 0x7C00 0x25000 0x21000 demo_boot = Some (Ret () t) \<and>
    ticks [i, i, i, i] t = Some ([i, i, i, r], u) \<and>
    r_eip r = 0x21000 \<and> r_useresp r = 0x127C00"
proof -
  have "timer_ticks demo_boot = 0" "is_first_run demo_boot \<noteq> 0" by (simp_all add: demo_boot_def)
  from main_enters_first_process [OF demo_boot_ok(1,3,4) this, of demo_addresses "0x7C00" "0x25000" "0x21000"
      _ _ _ _, unfolded demo_boot_ok(2)]
  show ?thesis by (fastforce simp del: ticks.simps)
qed

end
