(* ===== verification/Stubs.thy ===== *)
theory Stubs
  imports Boot
begin

text \<open>
  \<open>p_mode/interrupts/idt.asm\<close>: how an interrupt gets from the processor to the C handlers and back. The
  model has the registers of the processor, the instructions the stubs use, the delivery of an
  interrupt through the descriptor table in kernel mode, and the stubs as lists of instructions.

  \<^item> The stack is in \<open>mem\<close>, in kernel memory, which every directory maps at its own addresses, so a
    change of \<open>cr3\<close> under the handler does not move it.
  \<^item> A push of a segment register writes the selector zero-extended. The descriptors the selectors name
    are those of the boot code; loading one is taken to succeed.
  \<^item> The C function is called with a pointer to the saved registers \<open>regs_t\<close>, reads them there and leaves
    its version there. What it leaves in \<open>eax\<close>, \<open>ecx\<close>, \<open>edx\<close> and the flags is arbitrary, and so is what it leaves in
    the part of the stack below the pointer that it uses: its return address, which \<open>call eax\<close> pushes, and the frames of the
    C functions. Their size and contents are the compiler's, so they are a parameter (\<open>c_effects\<close>). The functions
    are taken not to use memory that their own frames overwrite.
  \<^item> The variables of the kernel are fields of the state, not bytes of \<open>mem\<close>; a statement that memory is
    unchanged does not speak of them.
\<close>

section \<open>The processor\<close>

datatype sreg = CS | DS | ES | FS | GS | SS

record cpu =
  EAX :: u32
  ECX :: u32
  EDX :: u32
  EBX :: u32
  ESP :: u32
  EBP :: u32
  ESI :: u32
  EDI :: u32
  EIP :: u32
  EFLAGS :: u32
  seg :: "sreg \<Rightarrow> u16"

text \<open>What the C functions leave: in the registers they may change, and in the \<open>c_frame\<close> bytes of stack they use.\<close>

record c_effects = cpu +
  c_frame :: u16
  c_scratch :: mem

datatype c_function = Fault_handler | Irq_handler

text \<open>\<open>CallC\<close> is the pair \<open>mov eax, f\<close>, \<open>call eax\<close>; the return address is part of what \<open>c_effects\<close> has.\<close>

datatype instr = PushI u32 | PushA | PushS sreg | MovAx u16 | MovS sreg | MovEaxEsp | PushEax
  | CallC c_function | PopEax | PopS sreg | PopA | AddEsp u32 | Iret

section \<open>The stubs\<close>

text \<open>For these exceptions the processor has pushed an error code, so the stub pushes none.\<close>

definition isr_stub :: "nat \<Rightarrow> instr list" where
  "isr_stub n =
     (if n \<in> {8, 10, 11, 12, 13, 14, 17, 30} then [PushI (of_nat n)] else [PushI 0, PushI (of_nat n)])"

definition irq_stub :: "nat \<Rightarrow> instr list" where
  "irq_stub n = [PushI 0, PushI (of_nat (32 + n))]"

definition common_stub :: "c_function \<Rightarrow> instr list" where
  "common_stub f =
     [PushA, PushS DS, PushS ES, PushS FS, PushS GS,
      MovAx 0x10, MovS DS, MovS ES, MovS FS, MovS GS,
      MovEaxEsp, PushEax, CallC f, PopEax,
      PopS GS, PopS FS, PopS ES, PopS DS, PopA, AddEsp 8, Iret]"

definition isr_common_stub :: "instr list" where
  "isr_common_stub = common_stub Fault_handler"

definition irq_common_stub :: "instr list" where
  "irq_common_stub = common_stub Irq_handler"

text \<open>The code at an address, given where the linker put the stubs.\<close>

definition stub_code :: "symbols \<Rightarrow> u32 \<Rightarrow> instr list option" where
  "stub_code syms a =
     (case List.find (\<lambda>n. sym_isr syms n = a) [0..<32] of
        Some n \<Rightarrow> Some (isr_stub n @ isr_common_stub)
      | None \<Rightarrow> map_option (\<lambda>n. irq_stub n @ irq_common_stub) (List.find (\<lambda>n. sym_irq syms n = a) [0..<16]))"

section \<open>Execution\<close>

definition regs_words :: "regs \<Rightarrow> u32 list" where
  "regs_words r = [r_gs r, r_fs r, r_es r, r_ds r, r_edi r, r_esi r, r_ebp r, r_esp r, r_ebx r, r_edx r,
     r_ecx r, r_eax r, r_int_no r, r_err_code r, r_eip r, r_cs r, r_eflags r, r_useresp r, r_ss r]"

fun write_words :: "mem \<Rightarrow> u32 \<Rightarrow> u32 list \<Rightarrow> mem" where
  "write_words m a [] = m"
| "write_words m a (w # ws) = st32 (write_words m (a + 4) ws) a w"

definition write_regs :: "mem \<Rightarrow> u32 \<Rightarrow> regs \<Rightarrow> mem" where
  "write_regs m a r = write_words m a (regs_words r)"

text \<open>What a C function may change of the processor: \<open>k\<close> has what it leaves.\<close>

definition clobber :: "c_effects \<Rightarrow> cpu \<Rightarrow> cpu" where
  "clobber k c = c\<lparr>EAX := EAX k, ECX := ECX k, EDX := EDX k, EFLAGS := EFLAGS k\<rparr>"

text \<open>The stack the C function has used below \<open>e\<close>.\<close>

definition c_stack :: "c_effects \<Rightarrow> u32 \<Rightarrow> u32 set" where
  "c_stack k e = region (e - ucast (c_frame k)) (unat (c_frame k))"

definition spill :: "c_effects \<Rightarrow> u32 \<Rightarrow> mem \<Rightarrow> mem" where
  "spill k e m x = (if unat (x - (e - ucast (c_frame k))) < unat (c_frame k) then c_scratch k x else m x)"

definition call_c :: "symbols \<Rightarrow> c_effects \<Rightarrow> c_function \<Rightarrow> cpu \<Rightarrow> 'a keyboard_scheme \<Rightarrow> (cpu, 'a keyboard_scheme) result" where
  "call_c syms k f c s =
     (let p = ld32 (mem s) (ESP c); r = read_regs (mem s) p in
      case f of
        Fault_handler \<Rightarrow> and_then (fault_handler syms r s) (\<lambda>_ s. Some (Ret (clobber k c) (s\<lparr>mem := spill k (ESP c) (mem s)\<rparr>)))
      | Irq_handler \<Rightarrow>
          (case irq_handler syms r s of
             None \<Rightarrow> None
           | Some (r, s) \<Rightarrow> Some (Ret (clobber k c) (s\<lparr>mem := spill k (ESP c) (write_regs (mem s) p r)\<rparr>))))"

definition push :: "u32 \<Rightarrow> cpu \<Rightarrow> 'a machine_scheme \<Rightarrow> (cpu, 'a machine_scheme) result" where
  "push v c s = Some (Ret (c\<lparr>ESP := ESP c - 4\<rparr>) (store32 (ESP c - 4) v s))"

text \<open>\<open>pusha\<close> stores the \<open>esp\<close> it started with, and \<open>popa\<close> skips it. \<open>iret\<close> takes \<open>esp\<close> and \<open>ss\<close> from the stack
  only when the privilege level of the selector it loads is not the current one.\<close>

fun exec :: "symbols \<Rightarrow> c_effects \<Rightarrow> instr \<Rightarrow> cpu \<Rightarrow> 'a keyboard_scheme \<Rightarrow> (cpu, 'a keyboard_scheme) result" where
  "exec syms k (PushI v) c s = push v c s"
| "exec syms k PushA c s =
     (let e = ESP c in
      and_then (push (EAX c) c s) (\<lambda>c s. and_then (push (ECX c) c s) (\<lambda>c s. and_then (push (EDX c) c s) (\<lambda>c s.
      and_then (push (EBX c) c s) (\<lambda>c s. and_then (push e c s) (\<lambda>c s. and_then (push (EBP c) c s) (\<lambda>c s.
      and_then (push (ESI c) c s) (\<lambda>c s. push (EDI c) c s))))))))"
| "exec syms k (PushS r) c s = push (ucast (seg c r)) c s"
| "exec syms k (MovAx v) c s = Some (Ret (c\<lparr>EAX := (EAX c AND 0xFFFF0000) OR ucast v\<rparr>) s)"
| "exec syms k (MovS r) c s = Some (Ret (c\<lparr>seg := (seg c)(r := ucast (EAX c))\<rparr>) s)"
| "exec syms k MovEaxEsp c s = Some (Ret (c\<lparr>EAX := ESP c\<rparr>) s)"
| "exec syms k PushEax c s = push (EAX c) c s"
| "exec syms k (CallC f) c s = call_c syms k f c s"
| "exec syms k PopEax c s = Some (Ret (c\<lparr>EAX := ld32 (mem s) (ESP c), ESP := ESP c + 4\<rparr>) s)"
| "exec syms k (PopS r) c s =
     Some (Ret (c\<lparr>seg := (seg c)(r := ucast (ld32 (mem s) (ESP c))), ESP := ESP c + 4\<rparr>) s)"
| "exec syms k PopA c s =
     (let w = (\<lambda>n. ld32 (mem s) (ESP c + n)) in
      Some (Ret (c\<lparr>EDI := w 0, ESI := w 4, EBP := w 8, EBX := w 16, EDX := w 20, ECX := w 24, EAX := w 28,
        ESP := ESP c + 32\<rparr>) s))"
| "exec syms k (AddEsp n) c s = Some (Ret (c\<lparr>ESP := ESP c + n\<rparr>) s)"
| "exec syms k Iret c s =
     (let w = (\<lambda>n. ld32 (mem s) (ESP c + n)); cs = (ucast (w 4) :: u16); ring = (cs AND 3 = seg c CS AND 3) in
      Some (Ret (c\<lparr>EIP := w 0, EFLAGS := w 8,
        seg := (if ring then (seg c)(CS := cs) else (seg c)(CS := cs, SS := ucast (w 16))),
        ESP := (if ring then ESP c + 12 else w 12)\<rparr>) s))"

fun run :: "symbols \<Rightarrow> c_effects \<Rightarrow> instr list \<Rightarrow> cpu \<Rightarrow> 'a keyboard_scheme \<Rightarrow> (cpu, 'a keyboard_scheme) result" where
  "run syms k [] c s = Some (Ret c s)"
| "run syms k (i # is) c s = and_then (exec syms k i c s) (run syms k is)"

text \<open>Delivery in kernel mode, through a present 32-bit interrupt gate: flags, \<open>cs\<close> and \<open>eip\<close> are pushed, then
  the error code of an exception that has one; interrupts are off from here on. In user mode, and for
  another gate, the model has no result.\<close>

definition deliver :: "u8 \<Rightarrow> u32 option \<Rightarrow> cpu \<Rightarrow> 'a ints_scheme \<Rightarrow> (cpu, 'a ints_scheme) result" where
  "deliver n err c s =
     (case idtr s of
        None \<Rightarrow> None
      | Some (limit, base) \<Rightarrow>
          let g = base + 8 * ucast n; m = mem s in
          if seg c CS AND 3 \<noteq> 0 \<or> unat limit < 8 * unat n + 7 \<or> m (g + 5) \<noteq> 0x8E then None
          else
            and_then (push (EFLAGS c) c s) (\<lambda>c s. and_then (push (ucast (seg c CS)) c s) (\<lambda>c s.
            and_then (push (EIP c) c s) (\<lambda>c s.
            and_then (case err of None \<Rightarrow> Some (Ret c s) | Some v \<Rightarrow> push v c s) (\<lambda>c s.
              Some (Ret (c\<lparr>EIP := gate_base m g, seg := (seg c)(CS := ld16 m (g + 2)),
                EFLAGS := EFLAGS c AND NOT 0x34300\<rparr>) s))))))"

definition interrupt ::
  "symbols \<Rightarrow> c_effects \<Rightarrow> u8 \<Rightarrow> u32 option \<Rightarrow> cpu \<Rightarrow> 'a keyboard_scheme \<Rightarrow> (cpu, 'a keyboard_scheme) result" where
  "interrupt syms k n err c s =
     and_then (deliver n err c s) (\<lambda>c s.
       case stub_code syms (EIP c) of None \<Rightarrow> None | Some code \<Rightarrow> run syms k code c s)"

section \<open>Words on the stack\<close>

definition stack_at :: "mem \<Rightarrow> u32 \<Rightarrow> u32 list \<Rightarrow> bool" where
  "stack_at m e ws \<longleftrightarrow> (\<forall>i<length ws. ld32 m (e + of_nat (4 * i)) = ws ! i)"

lemma stack_at_Nil [simp]: "stack_at m e []"
  by (simp add: stack_at_def)

lemma stack_at_Cons [simp]: "stack_at m e (w # ws) \<longleftrightarrow> ld32 m e = w \<and> stack_at m (e + 4) ws"
  by (simp add: stack_at_def All_less_Suc2 add.assoc)

lemma region_shift:
  assumes "x \<in> region (e + of_nat k) l" "k + l \<le> n" "n \<le> 4294967296"
  shows "x \<in> region e n"
proof -
  have u: "unat (x - (e + of_nat k)) < l" using assms(1) by (simp add: region_def)
  have "unat (x - e) = unat ((x - (e + of_nat k)) + of_nat k)" by simp
  also have "\<dots> = unat (x - (e + of_nat k)) + k" using u assms(2,3) by (intro unat_add_of_nat) simp
  finally show ?thesis using u assms(2) by (simp add: region_def)
qed

lemma word_below:
  assumes "4 * n + 4 \<le> 4294967296"
  shows "region e 4 \<inter> region (e + 4) (4 * n) = {}"
proof -
  have "x \<notin> region e 4" if "x \<in> region (e + 4) (4 * n)" for x
  proof -
    have u: "unat (x - (e + 4)) < 4 * n" using that by (simp add: region_def)
    have "unat (x - e) = unat ((x - (e + 4)) + of_nat 4)" by simp
    also have "\<dots> = unat (x - (e + 4)) + 4" using u assms by (intro unat_add_of_nat) simp
    finally show ?thesis by (simp add: region_def)
  qed
  then show ?thesis by blast
qed

lemma stack_at_cong:
  assumes "stack_at m e ws" "4 * length ws \<le> 4294967296"
    and "\<And>x. x \<in> region e (4 * length ws) \<Longrightarrow> m' x = m x"
  shows "stack_at m' e ws"
proof -
  have "ld32 m' (e + of_nat (4 * i)) = ld32 m (e + of_nat (4 * i))" if "i < length ws" for i
    using that assms(2) by (intro s32.ld_cong assms(3)) (rule region_shift, assumption, simp_all)
  then show ?thesis using assms(1) by (simp add: stack_at_def del: of_nat_mult)
qed

text \<open>\<open>push_words vs e m\<close>: the words \<open>vs\<close> pushed in turn, from the stack pointer \<open>e\<close> on.\<close>

fun push_words :: "u32 list \<Rightarrow> u32 \<Rightarrow> mem \<Rightarrow> mem" where
  "push_words [] e m = m"
| "push_words (v # vs) e m = push_words vs (e - 4) (st32 m (e - 4) v)"

lemma push_words_stack:
  assumes "stack_at m e ws" "4 * (length vs + length ws) \<le> 4294967296"
  shows "stack_at (push_words vs e m) (e - of_nat (4 * length vs)) (rev vs @ ws)"
  using assms
proof (induction vs arbitrary: e m ws)
  case (Cons v vs)
  have "stack_at (st32 m (e - 4) v) e ws"
  proof (rule stack_at_cong [OF Cons.prems(1)])
    fix x assume "x \<in> region e (4 * length ws)"
    then have "x \<notin> region (e - 4) 4" using word_below [of "length ws" "e - 4"] Cons.prems(2) by auto
    then show "st32 m (e - 4) v x = m x" by (rule s32.st_frame)
  qed (use Cons.prems(2) in simp)
  then have "stack_at (st32 m (e - 4) v) (e - 4) (v # ws)" by (simp add: s32.ld_st)
  from Cons.IH [OF this] Cons.prems(2) show ?case by (simp add: algebra_simps)
qed simp

lemma push_words_frame:
  assumes "x \<notin> region (e - of_nat (4 * length vs)) (4 * length vs)" "4 * length vs \<le> 4294967296"
  shows "push_words vs e m x = m x"
  using assms
proof (induction vs arbitrary: e m)
  case (Cons v vs)
  let ?e = "e - of_nat (4 * length (v # vs))"
  have "x \<notin> region (e - 4 - of_nat (4 * length vs)) (4 * length vs)"
    using Cons.prems(1) region_mono [of "4 * length vs" "4 * length (v # vs)" ?e] by (auto simp: algebra_simps)
  moreover have "x \<notin> region (e - 4) 4"
  proof
    assume "x \<in> region (e - 4) 4"
    then have "x \<in> region (?e + of_nat (4 * length vs)) 4" by (simp add: algebra_simps)
    from region_shift [OF this _ Cons.prems(2)] Cons.prems(1) show False by simp
  qed
  ultimately show ?case using Cons.IH [of "e - 4" "st32 m (e - 4) v"] Cons.prems(2) by (simp add: s32.st_frame)
qed simp

lemma write_words_stack: "4 * length ws \<le> 4294967296 \<Longrightarrow> stack_at (write_words m a ws) a ws"
proof (induction ws arbitrary: a)
  case (Cons w ws)
  have "stack_at (st32 (write_words m (a + 4) ws) a w) (a + 4) ws"
  proof (rule stack_at_cong [OF Cons.IH])
    fix x assume "x \<in> region (a + 4) (4 * length ws)"
    then have "x \<notin> region a 4" using word_below [of "length ws" a] Cons.prems by auto
    then show "st32 (write_words m (a + 4) ws) a w x = write_words m (a + 4) ws x" by (rule s32.st_frame)
  qed (use Cons.prems in simp_all)
  then show ?case by (simp add: s32.ld_st)
qed simp

lemma write_words_frame:
  "x \<notin> region a (4 * length ws) \<Longrightarrow> 4 * length ws \<le> 4294967296 \<Longrightarrow> write_words m a ws x = m x"
proof (induction ws arbitrary: a)
  case (Cons w ws)
  have "x \<notin> region a 4" using Cons.prems(1) region_mono [of 4 "4 * length (w # ws)" a] by auto
  moreover have "x \<notin> region (a + 4) (4 * length ws)"
    using region_shift [of x a 4 "4 * length ws" "4 * length (w # ws)"] Cons.prems by auto
  ultimately show ?case using Cons by (simp add: s32.st_frame)
qed simp

text \<open>The frame in memory is the structure \<open>regs_t\<close>.\<close>

lemma read_regs_stack: "read_regs m a = r \<longleftrightarrow> stack_at m a (regs_words r)"
  by (cases r) (auto simp: read_regs_def regs_words_def add.assoc)

lemma read_write_regs: "read_regs (write_regs m a r) a = r"
  unfolding read_regs_stack write_regs_def by (rule write_words_stack) (simp add: regs_words_def)

lemma st32_ld32: "st32 m a (ld32 m a) = m"
proof -
  have "(ucast (ucast (b0 :: u8) OR push_bit 8 (ucast b1) OR push_bit 16 (ucast b2) OR push_bit 24 (ucast b3) :: u32) :: u8) = b0"
    "(ucast (drop_bit 8 (ucast b0 OR push_bit 8 (ucast (b1 :: u8)) OR push_bit 16 (ucast b2) OR push_bit 24 (ucast b3) :: u32)) :: u8) = b1"
    "(ucast (drop_bit 16 (ucast b0 OR push_bit 8 (ucast b1) OR push_bit 16 (ucast (b2 :: u8)) OR push_bit 24 (ucast b3) :: u32)) :: u8) = b2"
    "(ucast (drop_bit 24 (ucast b0 OR push_bit 8 (ucast b1) OR push_bit 16 (ucast b2) OR push_bit 24 (ucast (b3 :: u8)) :: u32)) :: u8) = b3"
    for b0 b1 b2 b3 :: u8
    by (rule bit_word_eqI, force simp: bit_simps dest: bit_imp_le_length)+
  then show ?thesis by (simp add: st32_def ld32_def)
qed

lemma write_words_same: "stack_at m a ws \<Longrightarrow> write_words m a ws = m"
  by (induction ws arbitrary: a) (auto simp: st32_ld32)

lemma write_regs_same: "read_regs m a = r \<Longrightarrow> write_regs m a r = m"
  unfolding read_regs_stack write_regs_def by (rule write_words_same)

lemma read_regs_cong:
  assumes "\<And>x. x \<in> region a 76 \<Longrightarrow> m' x = m x"
  shows "read_regs m' a = read_regs m a"
proof -
  have "stack_at m' a (regs_words (read_regs m a))"
  proof (rule stack_at_cong)
    show "stack_at m a (regs_words (read_regs m a))" using read_regs_stack by blast
  qed (use assms in \<open>simp_all add: regs_words_def\<close>)
  then show ?thesis by (simp only: read_regs_stack)
qed

text \<open>What is above the stack the C function has used is not its own.\<close>

lemma spill_frame: "x \<notin> c_stack k e \<Longrightarrow> spill k e m x = m x"
  by (simp add: spill_def c_stack_def region_def)

lemma above_c_stack:
  assumes "x \<in> region (e + of_nat i) n" "i + n \<le> 1048576"
  shows "x \<notin> c_stack k e"
proof -
  have fr: "unat (c_frame k) < 65536" using unsigned_less [of "c_frame k"] by simp
  then have f: "unat (ucast (c_frame k) :: u32) = unat (c_frame k)" by (simp add: unsigned_ucast_eq take_bit_eq_mod)
  have u: "unat (x - (e + of_nat i)) < n" using assms(1) by (simp add: region_def)
  have i: "unat (of_nat i :: u32) = i" using assms(2) by (intro unat_of_nat_32) simp
  have "x - (e - ucast (c_frame k)) = (x - (e + of_nat i)) + (of_nat i + ucast (c_frame k))" by (simp add: algebra_simps)
  then have "unat (x - (e - ucast (c_frame k))) = unat ((x - (e + of_nat i)) + (of_nat i + ucast (c_frame k)))" by (rule arg_cong)
  also have "unat (of_nat i + ucast (c_frame k) :: u32) = i + unat (c_frame k)"
    using assms(2) fr by (subst unat_add_no_wrap) (simp_all add: i f)
  then have "unat ((x - (e + of_nat i)) + (of_nat i + ucast (c_frame k))) = unat (x - (e + of_nat i)) + (i + unat (c_frame k))"
    using u assms(2) fr by (subst unat_add_no_wrap) simp_all
  finally show ?thesis by (simp add: c_stack_def region_def)
qed

lemma spill_regs: "read_regs (spill k e m) (e + 4) = read_regs m (e + 4)"
  using above_c_stack [of _ e 4 76 k] by (intro read_regs_cong spill_frame) simp

lemma spill_word: "i \<le> 1000 \<Longrightarrow> ld32 (spill k e m) (e + of_nat i) = ld32 m (e + of_nat i)"
  using above_c_stack [of _ e i 4 k] by (intro s32.ld_cong spill_frame) simp

lemma write_regs_frame: "x \<notin> region a 76 \<Longrightarrow> write_regs m a r x = m x"
  unfolding write_regs_def by (rule write_words_frame) (simp_all add: regs_words_def)


section \<open>From the gate to the C function and back\<close>

text \<open>The saved registers as the C code gets them. The last two fields are the words on top of the
  interrupted stack: in kernel mode the processor pushes neither \<open>esp\<close> nor \<open>ss\<close>.\<close>

definition saved_regs :: "nat \<Rightarrow> u32 \<Rightarrow> cpu \<Rightarrow> mem \<Rightarrow> regs" where
  "saved_regs n err c m = \<lparr>r_gs = ucast (seg c GS), r_fs = ucast (seg c FS), r_es = ucast (seg c ES),
     r_ds = ucast (seg c DS), r_edi = EDI c, r_esi = ESI c, r_ebp = EBP c, r_esp = ESP c - 20, r_ebx = EBX c,
     r_edx = EDX c, r_ecx = ECX c, r_eax = EAX c, r_int_no = of_nat n, r_err_code = err, r_eip = EIP c,
     r_cs = ucast (seg c CS), r_eflags = EFLAGS c, r_useresp = ld32 m (ESP c), r_ss = ld32 m (ESP c + 4)\<rparr>"

text \<open>A processor with the registers \<open>r\<close>, but for the stack.\<close>

definition with_regs :: "regs \<Rightarrow> u32 \<Rightarrow> u16 \<Rightarrow> cpu" where
  "with_regs r e ss = \<lparr>EAX = r_eax r, ECX = r_ecx r, EDX = r_edx r, EBX = r_ebx r, ESP = e, EBP = r_ebp r,
     ESI = r_esi r, EDI = r_edi r, EIP = r_eip r, EFLAGS = r_eflags r,
     seg = (\<lambda>_. ss)(GS := ucast (r_gs r), FS := ucast (r_fs r), ES := ucast (r_es r), DS := ucast (r_ds r),
       CS := ucast (r_cs r))\<rparr>"

lemma all_selectors: "(\<lambda>_. f SS)(GS := v, FS := w, ES := x, DS := y, CS := z) = f(GS := v, FS := w, ES := x, DS := y, CS := z)"
proof
  fix g show "((\<lambda>_. f SS)(GS := v, FS := w, ES := x, DS := y, CS := z)) g = (f(GS := v, FS := w, ES := x, DS := y, CS := z)) g"
    by (cases g) simp_all
qed

lemma selector_round_trip [simp]: "(ucast (ucast x :: u32) :: u16) = x"
  by (rule bit_word_eqI) (auto simp: bit_simps)

lemma with_regs_saved: "with_regs (saved_regs n err c m) (ESP c) (seg c SS) = c"
  by (cases c) (simp add: with_regs_def saved_regs_def all_selectors)

text \<open>Everything that is on the stack when the C function is called: \<open>tail\<close> is what the processor and the
  stub push before the common part.\<close>

definition entry_words :: "u32 \<Rightarrow> nat \<Rightarrow> cpu \<Rightarrow> u32 list" where
  "entry_words err n c = [EFLAGS c, ucast (seg c CS), EIP c, err, of_nat n, EAX c, ECX c, EDX c, EBX c, ESP c - 20,
     EBP c, ESI c, EDI c, ucast (seg c DS), ucast (seg c ES), ucast (seg c FS), ucast (seg c GS), ESP c - 68]"

definition entry_mem :: "u32 \<Rightarrow> nat \<Rightarrow> cpu \<Rightarrow> mem \<Rightarrow> mem" where
  "entry_mem err n c m = push_words (entry_words err n c) (ESP c) m"

lemma entry_mem_regs:
  "ld32 (entry_mem err n c m) (ESP c - 72) = ESP c - 68"
  "read_regs (entry_mem err n c m) (ESP c - 68) = saved_regs n err c m"
proof -
  have "stack_at m (ESP c) [ld32 m (ESP c), ld32 m (ESP c + 4)]" by simp
  from push_words_stack [OF this, of "entry_words err n c"]
  have "stack_at (entry_mem err n c m) (ESP c - 72) ((ESP c - 68) # regs_words (saved_regs n err c m))"
    by (simp add: entry_mem_def entry_words_def regs_words_def saved_regs_def)
  then show "ld32 (entry_mem err n c m) (ESP c - 72) = ESP c - 68"
    "read_regs (entry_mem err n c m) (ESP c - 68) = saved_regs n err c m"
    unfolding read_regs_stack by simp_all
qed

lemma entry_mem_frame: "x \<notin> region (ESP c - 72) 72 \<Longrightarrow> entry_mem err n c m x = m x"
  unfolding entry_mem_def by (rule push_words_frame) (simp_all add: entry_words_def)

text \<open>The processor at the call.\<close>

definition at_call :: "u32 \<Rightarrow> u16 \<Rightarrow> cpu \<Rightarrow> cpu" where
  "at_call a sel c = c\<lparr>EIP := a, EFLAGS := EFLAGS c AND NOT 0x34300,
     seg := (seg c)(CS := sel, DS := 0x10, ES := 0x10, FS := 0x10, GS := 0x10),
     EAX := ESP c - 68, ESP := ESP c - 72\<rparr>"

definition leave :: "instr list" where
  "leave = [PopEax, PopS GS, PopS FS, PopS ES, PopS DS, PopA, AddEsp 8, Iret]"

lemma low_half: "(ucast ((x AND 0xFFFF0000) OR ucast (v :: u16) :: u32) :: u16) = v"
proof -
  have e: "(0xFFFF0000 :: u32) = NOT (mask 16)" by (simp add: mask_eq_exp_minus_1)
  show ?thesis unfolding e by (rule bit_word_eqI) (auto simp: bit_simps)
qed

lemma and_then_assoc: "and_then (and_then r f) g = and_then r (\<lambda>v s. and_then (f v s) g)"
  by (cases "(r, f)" rule: and_then.cases) simp_all

text \<open>From the first instruction of a stub, which is after the pushes of the processor, to the call.\<close>

definition at_stub :: "u32 \<Rightarrow> u16 \<Rightarrow> cpu \<Rightarrow> cpu" where
  "at_stub a sel c = c\<lparr>ESP := ESP c - 12, EIP := a, EFLAGS := EFLAGS c AND NOT 0x34300, seg := (seg c)(CS := sel)\<rparr>"

lemma irq_stub_entry:
  "run syms k (irq_stub n @ common_stub f) (at_stub a sel c)
      (s\<lparr>mem := push_words [EFLAGS c, ucast (seg c CS), EIP c] (ESP c) (mem s)\<rparr>) =
    and_then (call_c syms k f (at_call a sel c) (s\<lparr>mem := entry_mem 0 (32 + n) c (mem s)\<rparr>)) (run syms k leave)"
  by (simp add: irq_stub_def common_stub_def at_stub_def push_def store32_def low_half [of _ "0x10", simplified] at_call_def entry_mem_def
      entry_words_def leave_def Let_def)

lemma isr_stub_entry:
  assumes "n \<notin> {8, 10, 11, 12, 13, 14, 17, 30}"
  shows "run syms k (isr_stub n @ common_stub f) (at_stub a sel c)
      (s\<lparr>mem := push_words [EFLAGS c, ucast (seg c CS), EIP c] (ESP c) (mem s)\<rparr>) =
    and_then (call_c syms k f (at_call a sel c) (s\<lparr>mem := entry_mem 0 n c (mem s)\<rparr>)) (run syms k leave)"
  using assms by (simp add: isr_stub_def common_stub_def at_stub_def push_def store32_def low_half [of _ "0x10", simplified] at_call_def entry_mem_def
      entry_words_def leave_def Let_def)

lemma isr_stub_entry_error:
  assumes "n \<in> {8, 10, 11, 12, 13, 14, 17, 30}"
  shows "run syms k (isr_stub n @ common_stub f) ((at_stub a sel c)\<lparr>ESP := ESP c - 16\<rparr>)
      (s\<lparr>mem := push_words [EFLAGS c, ucast (seg c CS), EIP c, err] (ESP c) (mem s)\<rparr>) =
    and_then (call_c syms k f (at_call a sel c) (s\<lparr>mem := entry_mem err n c (mem s)\<rparr>)) (run syms k leave)"
  using assms by (simp add: isr_stub_def common_stub_def at_stub_def push_def store32_def low_half [of _ "0x10", simplified] at_call_def entry_mem_def
      entry_words_def leave_def Let_def)

lemma leave_run:
  assumes r: "read_regs (mem s) (ESP c + 4) = r" and ring: "(ucast (r_cs r) :: u16) AND 3 = seg c CS AND 3"
  shows "run syms k leave c s = Some (Ret (with_regs r (ESP c + 72) (seg c SS)) s)"
  using ring unfolding r [symmetric]
  by (cases c) (simp add: leave_def with_regs_def read_regs_def add.assoc Let_def all_selectors)


section \<open>A hardware interrupt\<close>

text \<open>The table register and the 48 gates as \<open>idt_install\<close> sets them, with the stubs at different addresses.\<close>

definition gates_installed :: "symbols \<Rightarrow> 'a ints_scheme \<Rightarrow> bool" where
  "gates_installed syms s \<longleftrightarrow> idtr s = Some (2047, idt s) \<and>
     (\<forall>n<32. gate_is (mem s) (idt s + of_nat (8 * n)) (sym_isr syms n) 0x08 0x8E) \<and>
     (\<forall>n<16. gate_is (mem s) (idt s + of_nat (8 * (32 + n))) (sym_irq syms n) 0x08 0x8E) \<and>
     distinct (map (sym_isr syms) [0..<32] @ map (sym_irq syms) [0..<16])"

lemma find_address:
  assumes "inj_on f {0..<m}" "n < m"
  shows "List.find (\<lambda>i. f i = f n) [0..<m] = Some n"
proof -
  have "f j \<noteq> f n" if "j < n" for j using inj_onD [OF assms(1), of j n] that assms(2) by auto
  then show ?thesis using assms(2) by (auto simp: find_Some_iff intro!: exI [of _ n])
qed

lemma stub_code_isr:
  assumes "gates_installed syms s" "n < 32"
  shows "stub_code syms (sym_isr syms n) = Some (isr_stub n @ isr_common_stub)"
  using assms by (simp add: stub_code_def find_address gates_installed_def distinct_map)

lemma stub_code_irq:
  assumes "gates_installed syms s" "n < 16"
  shows "stub_code syms (sym_irq syms n) = Some (irq_stub n @ irq_common_stub)"
proof -
  have d: "sym_isr syms ` {0..<32} \<inter> sym_irq syms ` {0..<16} = {}"
    using assms(1) by (simp add: gates_installed_def)
  then have "List.find (\<lambda>i. sym_isr syms i = sym_irq syms n) [0..<32] = None"
    using assms(2) by (fastforce simp: find_None_iff)
  then show ?thesis using assms by (simp add: stub_code_def find_address gates_installed_def distinct_map)
qed

lemma vector_address: "n < 48 \<Longrightarrow> b + 8 * ucast (of_nat n :: u8) = (b + of_nat (8 * n) :: u32)"
proof -
  assume "n < 48"
  then have "(ucast (of_nat n :: u8) :: u32) = of_nat n"
    by (simp add: word_unat_eq_iff unsigned_ucast_eq take_bit_eq_mod unat_of_nat)
  then show ?thesis by simp
qed

lemma vector_limit: "n < 48 \<Longrightarrow> \<not> unat (2047 :: u16) < 8 * unat (of_nat n :: u8) + 7"
  by (simp add: unat_of_nat)

text \<open>What the processor does with vector \<open>n\<close>, when the interrupted code is the kernel's.\<close>

lemma deliver_vector:
  assumes "idtr s = Some (2047, idt s)" "gate_is (mem s) (idt s + of_nat (8 * n)) a sel 0x8E" "n < 48" "seg c CS AND 3 = 0"
  shows "deliver (of_nat n) None c s = Some (Ret (at_stub a sel c)
      (s\<lparr>mem := push_words [EFLAGS c, ucast (seg c CS), EIP c] (ESP c) (mem s)\<rparr>))"
    and "deliver (of_nat n) (Some v) c s = Some (Ret ((at_stub a sel c)\<lparr>ESP := ESP c - 16\<rparr>)
      (s\<lparr>mem := push_words [EFLAGS c, ucast (seg c CS), EIP c, v] (ESP c) (mem s)\<rparr>))"
  using assms(1,2,4) vector_limit [OF assms(3)]
  by (simp_all add: deliver_def vector_address [OF assms(3)] gate_is_def push_def store32_def at_stub_def Let_def
      del: of_nat_mult)

lemma irq_reaches_handler:
  assumes g: "gates_installed syms s" and n: "n < 16" and c: "seg c CS AND 3 = 0"
  shows "interrupt syms k (of_nat (32 + n)) None c s =
    and_then (call_c syms k Irq_handler (at_call (sym_irq syms n) 8 c) (s\<lparr>mem := entry_mem 0 (32 + n) c (mem s)\<rparr>))
      (run syms k leave)"
proof -
  have "deliver (of_nat (32 + n)) None c s = Some (Ret (at_stub (sym_irq syms n) 8 c)
      (s\<lparr>mem := push_words [EFLAGS c, ucast (seg c CS), EIP c] (ESP c) (mem s)\<rparr>))"
    by (rule deliver_vector(1) [OF _ _ _ c]) (use g n in \<open>simp_all add: gates_installed_def del: of_nat_add of_nat_mult\<close>)
  moreover have "EIP (at_stub (sym_irq syms n) 8 c) = sym_irq syms n" by (simp add: at_stub_def)
  ultimately show ?thesis
    using stub_code_irq [OF g n] irq_stub_entry [of syms k n Irq_handler "sym_irq syms n" 8 c s]
    by (simp add: interrupt_def irq_common_stub_def del: of_nat_add push_words.simps)
qed

lemma irq_runs:
  assumes g: "gates_installed syms s" and n: "n < 16" and c: "seg c CS AND 3 = 0"
    and h: "irq_handler syms (saved_regs (32 + n) 0 c (mem s)) (s\<lparr>mem := entry_mem 0 (32 + n) c (mem s)\<rparr>) = Some (r, t)"
    and ring: "(ucast (r_cs r) :: u16) AND 3 = 0"
  shows "interrupt syms k (of_nat (32 + n)) None c s =
    Some (Ret (with_regs r (ESP c) (seg c SS)) (t\<lparr>mem := spill k (ESP c - 72) (write_regs (mem t) (ESP c - 68) r)\<rparr>))"
proof -
  let ?c = "clobber k (at_call (sym_irq syms n) 8 c)" and ?t = "t\<lparr>mem := spill k (ESP c - 72) (write_regs (mem t) (ESP c - 68) r)\<rparr>"
  have call: "call_c syms k Irq_handler (at_call (sym_irq syms n) 8 c) (s\<lparr>mem := entry_mem 0 (32 + n) c (mem s)\<rparr>) = Some (Ret ?c ?t)"
    using h by (simp add: call_c_def at_call_def entry_mem_regs Let_def)
  have e: "ESP ?c + 4 = ESP c - 68" "ESP ?c + 72 = ESP c" "seg ?c CS = 8" "seg ?c SS = seg c SS"
    by (simp_all add: clobber_def at_call_def)
  have "read_regs (mem ?t) (ESP c - 68) = r"
    using spill_regs [of k "ESP c - 72"] by (simp add: read_write_regs)
  then have "run syms k leave ?c ?t = Some (Ret (with_regs r (ESP ?c + 72) (seg ?c SS)) ?t)"
    by (intro leave_run) (use ring in \<open>simp_all add: e\<close>)
  then show ?thesis unfolding irq_reaches_handler [OF g n c] call by (simp add: e)
qed

text \<open>The memory an interrupt writes: the stack of the C functions and \<open>n\<close> bytes above it.\<close>

definition used_stack :: "c_effects \<Rightarrow> nat \<Rightarrow> cpu \<Rightarrow> u32 set" where
  "used_stack k n c = c_stack k (ESP c - 72) \<union> region (ESP c - 72) n"

lemma used_stack_frame:
  assumes "x \<notin> used_stack k 80 c"
  shows "spill k (ESP c - 72) (write_regs (entry_mem v n c m) (ESP c - 68) r) x = m x"
proof -
  have x: "x \<notin> c_stack k (ESP c - 72)" "x \<notin> region (ESP c - 72) 80" using assms by (simp_all add: used_stack_def)
  have "x \<notin> region (ESP c - 68) 76"
    using x(2) region_shift [of x "ESP c - 72" 4 76 80] by (auto simp: algebra_simps)
  moreover have "x \<notin> region (ESP c - 72) 72" using x(2) region_mono [of 72 80 "ESP c - 72"] by auto
  ultimately show ?thesis using x(1) by (simp add: spill_frame write_regs_frame entry_mem_frame)
qed

section \<open>Handlers that hand the same registers back\<close>

text \<open>The variables of the kernel that such a handler may change: the cursor, the ticks and the keys that are down.\<close>

definition variables_kept :: "'a keyboard_scheme \<Rightarrow> 'a keyboard_scheme \<Rightarrow> bool" where
  "variables_kept s t \<longleftrightarrow> t = s\<lparr>mem := mem t, trace := trace t, cx := cx t, cy := cy t,
     timer_ticks := timer_ticks t, keyStatus := keyStatus t\<rparr>"

lemma variables_keptI:
  "variables_kept s (s\<lparr>mem := m, trace := tr, cx := x, cy := y, timer_ticks := n, keyStatus := k\<rparr>)"
  by (simp add: variables_kept_def)

lemma variables_kept_trans: "variables_kept s t \<Longrightarrow> variables_kept t u \<Longrightarrow> variables_kept s u"
  by (cases s; cases t; cases u) (simp add: variables_kept_def)

lemma variables_kept_fields:
  "variables_kept s (s\<lparr>mem := m\<rparr>)" "variables_kept s (s\<lparr>trace := tr\<rparr>)" "variables_kept s (s\<lparr>timer_ticks := n\<rparr>)"
  "variables_kept s (s\<lparr>keyStatus := k\<rparr>)" "variables_kept s (outb p b s)" "variables_kept s s"
  by (cases s; simp add: variables_kept_def outb_def)+

lemma console_step_variables: "console_step s t \<Longrightarrow> variables_kept s t"
proof -
  assume "console_step s t"
  then have "t = s\<lparr>mem := mem t, trace := trace t, cx := cx t, cy := cy t\<rparr>"
    by (simp add: console_step_def console_frame_def)
  then show ?thesis by (cases s; cases t) (simp add: variables_kept_def)
qed

lemma key_event_variables:
  assumes "cursor_ok s" "key_event sc s = Some t"
  shows "variables_kept s t"
proof (cases "sc = 58")
  case False
  from console_step_variables [OF key_event_step [OF assms(1) False assms(2)]] show ?thesis
    by (rule variables_kept_trans [OF variables_kept_fields(4)])
next
  case True
  have send: "variables_kept s t" if "sendByte p b s = Some t" for p b and s t :: "'a keyboard_scheme"
    using that variables_kept_fields(2) by (auto simp: sendByte_eq split: if_splits)
  have "\<exists>k a b. Option.bind (sendByte 0x60 a (s\<lparr>keyStatus := k\<rparr>)) (sendByte 0x60 b) = Some t"
    using assms(2) True
    by (auto simp: key_event_def key_pressed_def kbdus_numerals press_masks_numerals chr_def
        switchCapsLightOff_def switchCapsLightOn_def split: if_splits)
  then obtain k a b u where "sendByte 0x60 a (s\<lparr>keyStatus := k\<rparr>) = Some u" "sendByte 0x60 b u = Some t"
    by (auto simp: bind_eq_Some_conv)
  then show ?thesis using send variables_kept_fields(4) variables_kept_trans by metis
qed

text \<open>An interrupt that only passes through: the line has no handler, or the keyboard's, or the timer's
  before the last tick of the slice.\<close>

definition quiet_irq :: "symbols \<Rightarrow> nat \<Rightarrow> 'a keyboard_scheme \<Rightarrow> bool" where
  "quiet_irq syms n s \<longleftrightarrow>
     (let h = irq_routines s ! n in
      h = 0 \<or> h = sym_timer_handler syms \<and> timer_ticks s + 1 \<noteq> slice_ticks s \<or>
      h = sym_keyboard_handler syms \<and> h \<noteq> sym_timer_handler syms)"

lemma quiet_irq_handler:
  assumes "kernel_ok s" "controller_ok s" "length (shiftLookup s) = 128" "n < 16" "quiet_irq syms n s" "r_int_no r = of_nat (32 + n)"
  shows "\<exists>t. irq_handler syms r s = Some (r, t) \<and> kernel_ok t \<and> variables_kept s t \<and> (\<forall>x. x \<notin> video \<longrightarrow> mem t x = mem s x)"
proof -
  define h where "h = irq_routines s ! n"
  have n: "unat (r_int_no r - 32) = n" using assms(4) by (simp add: assms(6) unat_of_nat_32)
  have len: "length (irq_routines s) = 16" and cur: "cursor_ok s" using assms(1) by (simp_all add: kernel_ok_def)
  have "\<exists>u. call_irq syms h r s = Some (r, u) \<and> variables_kept s u \<and> (\<forall>x. x \<notin> video \<longrightarrow> mem u x = mem s x)" if "h \<noteq> 0"
  proof (cases "h = sym_timer_handler syms")
    case True
    then have "timer_ticks s + 1 \<noteq> slice_ticks s" using that assms(5) by (auto simp: quiet_irq_def h_def Let_def)
    from timer_handler_quiet [OF this, of r] show ?thesis using variables_kept_fields(3) by (simp add: call_irq_def True)
  next
    case False
    then have h: "h = sym_keyboard_handler syms" using that assms(5) by (auto simp: quiet_irq_def h_def Let_def)
    let ?s = "s\<lparr>trace := In8 0x60 # trace s\<rparr>"
    have cs: "cursor_ok ?s" "controller_ok ?s" "length (shiftLookup ?s) = 128"
      using cur assms(2,3) by (simp_all add: cursor_ok_def controller_ok_def)
    from key_event_returns [OF cs, of "ucast (dev s (trace s) (In8 0x60))"] obtain u where
      u: "key_event (ucast (dev s (trace s) (In8 0x60))) ?s = Some u" "\<forall>x. x \<notin> video \<longrightarrow> mem u x = mem s x" by auto
    have "variables_kept s u"
      by (rule variables_kept_trans [OF variables_kept_fields(2) key_event_variables [OF cs(1) u(1)]])
    with u show ?thesis using False h by (simp add: call_irq_def keyboard_handler_def inb_def)
  qed
  then obtain u where u: "(if h \<noteq> 0 then call_irq syms h r s else Some (r, s)) = Some (r, u)"
    "variables_kept s u" "\<forall>x. x \<notin> video \<longrightarrow> mem u x = mem s x" using variables_kept_fields(6) by (cases "h = 0") auto
  let ?t = "outb 0x20 0x20 (if 40 \<le> r_int_no r then outb 0xA0 0x20 u else u)"
  have t: "irq_handler syms r s = Some (r, ?t)"
    using u(1) assms(4) len by (simp add: irq_handler_def n h_def [symmetric] Let_def del: of_nat_add split del: if_split)
  moreover have "mem ?t = mem u" by (simp add: outb_def)
  moreover have "variables_kept s ?t"
    by (rule variables_kept_trans [OF u(2)])
      (simp add: variables_kept_fields(5) variables_kept_trans [OF variables_kept_fields(5) variables_kept_fields(5)])
  ultimately show ?thesis using irq_handler_kernel_ok [OF assms(1) t] u(3) by auto
qed


section \<open>The last tick of a slice\<close>

lemma last_tick:
  assumes "sched_ok s" "scheduler_active s \<noteq> 0" and first: "is_first_run s = 0" and "timer_ticks s + 1 = slice_ticks s"
  shows "\<exists>t. timer_handler r s = Some (next_regs r s, t) \<and> mem t = mem s \<and> cur_proc_index t = int (chosen s) \<and>
    cr3 t = page_directory (proc_arr s ! chosen s) \<and> timer_ticks t = 0 \<and>
    last_state_regs (proc_arr t ! nat (cur_proc_index s)) = r"
proof -
  let ?c = "nat (cur_proc_index s)"
  have len: "?c < length (proc_arr s)" using assms(1) by (simp add: sched_ok_def live_def)
  have "page_directory ((proc_arr s)[?c := (proc_arr s ! ?c)\<lparr>last_state_regs := r\<rparr>] ! chosen s) =
      page_directory (proc_arr s ! chosen s)"
    by (cases "chosen s = ?c") (simp_all add: len)
  then show ?thesis using timer_last_tick [OF assms, of r] first len by (simp add: switched_def Let_def)
qed

section \<open>Properties\<close>

text \<open>C16. A hardware interrupt taken in kernel mode reaches \<open>irq_handler\<close> with the interrupted registers, the
  number \<open>32 + n\<close> and no error code in a structure \<open>regs_t\<close> on the stack, and with no other memory
  changed than the 72 bytes below the stack pointer. When the handler returns, the processor has
  every register as the handler left it in the structure but the stack pointer, which is the
  interrupted one, whatever the C functions have left in the other registers and in the stack they used (\<open>spill\<close>).\<close>

theorem hardware_interrupt_returns:
  assumes "gates_installed syms s" and "n < 16" and "seg c CS AND 3 = 0"
  shows "\<exists>m. read_regs m (ESP c - 68) = saved_regs (32 + n) 0 c (mem s) \<and>
    (\<forall>x. x \<notin> region (ESP c - 72) 72 \<longrightarrow> m x = mem s x) \<and>
    (\<forall>r t. irq_handler syms (saved_regs (32 + n) 0 c (mem s)) (s\<lparr>mem := m\<rparr>) = Some (r, t) \<and> (ucast (r_cs r) :: u16) AND 3 = 0 \<longrightarrow>
       interrupt syms k (of_nat (32 + n)) None c s =
         Some (Ret (with_regs r (ESP c) (seg c SS)) (t\<lparr>mem := spill k (ESP c - 72) (write_regs (mem t) (ESP c - 68) r)\<rparr>)))"
  using entry_mem_regs(2) entry_mem_frame irq_runs [OF assms]
  by (intro exI [of _ "entry_mem 0 (32 + n) c (mem s)"]) blast

text \<open>C11. An interrupt that does not switch processes is invisible to the code it interrupts, at whatever
  instruction and with whatever registers: a line with no handler, a key, or a tick before the
  last of the slice returns with every register of the processor as it was, flags, stack pointer and
  segment registers included. What changes is the screen; the free stack, namely the 72 bytes below the stack
  pointer that the processor and the stub push and whatever the C functions use below them (\<open>c_stack\<close>: their return
  address and frames); and of the variables of the kernel, which are fields of the state and not bytes of \<open>mem\<close>, the cursor, the count of
  ticks and the keys that are down. The stack is not in video memory.\<close>

theorem interrupts_transparent:
  assumes "gates_installed syms s" and "kernel_ok s" and "controller_ok s" and "length (shiftLookup s) = 128"
    and "n < 16" and "quiet_irq syms n s"
    and "seg c CS AND 3 = 0" and "used_stack k 80 c \<inter> video = {}"
  shows "\<exists>t. interrupt syms k (of_nat (32 + n)) None c s = Some (Ret c t) \<and> kernel_ok t \<and>
    (\<forall>x. x \<notin> video \<longrightarrow> x \<notin> used_stack k 72 c \<longrightarrow> mem t x = mem s x) \<and>
    t = s\<lparr>mem := mem t, trace := trace t, cx := cx t, cy := cy t, timer_ticks := timer_ticks t, keyStatus := keyStatus t\<rparr>"
proof -
  let ?r = "saved_regs (32 + n) 0 c (mem s)" and ?m = "entry_mem 0 (32 + n) c (mem s)"
  let ?s = "s\<lparr>mem := ?m\<rparr>"
  have "kernel_ok ?s" "controller_ok ?s" "length (shiftLookup ?s) = 128" "quiet_irq syms n ?s"
    using assms(2,3,4,6) by (simp_all add: kernel_ok_def cursor_ok_def controller_ok_def quiet_irq_def slice_ticks_def)
  from quiet_irq_handler [OF this(1-3) assms(5) this(4), of ?r] obtain t where
    t: "irq_handler syms ?r ?s = Some (?r, t)" "kernel_ok t" "variables_kept ?s t" "\<forall>x. x \<notin> video \<longrightarrow> mem t x = ?m x"
    by (auto simp: saved_regs_def)
  let ?t = "t\<lparr>mem := spill k (ESP c - 72) (mem t)\<rparr>"
  have ring: "(ucast (r_cs ?r) :: u16) AND 3 = 0" using assms(7) by (simp add: saved_regs_def)
  have "write_regs (mem t) (ESP c - 68) ?r = mem t"
  proof -
    have "x \<in> used_stack k 80 c" if "x \<in> region (ESP c - 68) 76" for x
      using region_shift [of x "ESP c - 72" 4 76 80] that by (simp add: used_stack_def algebra_simps)
    then have "read_regs (mem t) (ESP c - 68) = read_regs ?m (ESP c - 68)"
      using t(4) assms(8) by (intro read_regs_cong) blast
    from write_regs_same [OF this [unfolded entry_mem_regs]] show ?thesis .
  qed
  with irq_runs [OF assms(1,5,7) t(1) ring, of k, unfolded with_regs_saved]
  have "interrupt syms k (of_nat (32 + n)) None c s = Some (Ret c ?t)" by simp
  moreover have "kernel_ok ?t" using t(2) by (simp add: kernel_ok_def cursor_ok_def)
  moreover have "mem ?t x = mem s x" if "x \<notin> video" "x \<notin> used_stack k 72 c" for x
    using that t(4) by (simp add: used_stack_def spill_frame entry_mem_frame)
  moreover have "variables_kept s ?t"
    by (rule variables_kept_trans [OF variables_kept_trans [OF variables_kept_fields(1) t(3)] variables_kept_fields(1)])
  ultimately show ?thesis unfolding variables_kept_def by blast
qed

text \<open>C19. The last tick of a slice, seen from the processor. The scheduler saves the interrupted registers in
  the slot of the running process, and the processor continues with those of the next slot and with its
  page directory, but on the stack of the interrupted process: the saved stack pointer \<open>useresp\<close> never
  reaches \<open>esp\<close>, since an \<open>iret\<close> within kernel mode does not load it. It goes, with the saved \<open>ss\<close>, to the
  two words on top of the interrupted stack instead.\<close>

theorem switch_keeps_stack:
  assumes "gates_installed syms s" and "kernel_ok s" and "sched_ok s" and "scheduler_active s \<noteq> 0" and "is_first_run s = 0"
    and "irq_routines s ! 0 = sym_timer_handler syms" and "sym_timer_handler syms \<noteq> 0" and "timer_ticks s + 1 = slice_ticks s"
    and "seg c CS AND 3 = 0" and "\<forall>i. live (proc_arr s) i \<longrightarrow> (ucast (r_cs (last_state_regs (proc_arr s ! i))) :: u16) AND 3 = 0"
  shows "\<exists>i r t. live (proc_arr s) i \<and> i = chosen s \<and>
    r = (if int i = cur_proc_index s then saved_regs 32 0 c (mem s) else last_state_regs (proc_arr s ! i)) \<and>
    interrupt syms k 32 None c s = Some (Ret (with_regs r (ESP c) (seg c SS)) t) \<and>
    cur_proc_index t = int i \<and> cr3 t = page_directory (proc_arr s ! i) \<and> timer_ticks t = 0 \<and>
    last_state_regs (proc_arr t ! nat (cur_proc_index s)) = saved_regs 32 0 c (mem s) \<and>
    ld32 (mem t) (ESP c) = r_useresp r \<and> ld32 (mem t) (ESP c + 4) = r_ss r \<and>
    (\<forall>x. x \<notin> used_stack k 80 c \<longrightarrow> mem t x = mem s x)"
proof -
  let ?r = "saved_regs 32 0 c (mem s)" and ?m = "entry_mem 0 32 c (mem s)"
  let ?s = "s\<lparr>mem := ?m\<rparr>" and ?q = "next_regs (saved_regs 32 0 c (mem s)) s"
  have "sched_ok ?s" "timer_ticks ?s + 1 = slice_ticks ?s" using assms(3,8) by (simp_all add: sched_ok_def slice_ticks_def)
  moreover have e: "chosen ?s = chosen s" "next_regs ?r ?s = ?q" by (simp_all add: chosen_def next_regs_def)
  ultimately obtain u where u: "timer_handler ?r ?s = Some (?q, u)" "mem u = ?m" "cur_proc_index u = int (chosen s)"
    "cr3 u = page_directory (proc_arr s ! chosen s)" "timer_ticks u = 0"
    "last_state_regs (proc_arr u ! nat (cur_proc_index s)) = ?r"
    using last_tick [of ?s ?r] assms(4,5) by (auto simp: e)
  let ?u = "outb 0x20 0x20 (if 40 \<le> r_int_no ?q then outb 0xA0 0x20 u else u)"
  have "length (irq_routines s) = 16" using assms(2) by (simp add: kernel_ok_def)
  then have h: "irq_handler syms ?r ?s = Some (?q, ?u)"
    using u(1) assms(6,7) by (simp add: irq_handler_def saved_regs_def call_irq_def Let_def)
  have live: "live (proc_arr s) (chosen s)" by (rule live_chosen [OF assms(3)])
  then have ring: "(ucast (r_cs ?q) :: u16) AND 3 = 0" using assms(9,10) by (simp add: next_regs_def saved_regs_def)
  let ?t = "?u\<lparr>mem := spill k (ESP c - 72) (write_regs ?m (ESP c - 68) ?q)\<rparr>"
  have "interrupt syms k 32 None c s = Some (Ret (with_regs ?q (ESP c) (seg c SS)) ?t)"
    using irq_runs [OF assms(1) _ assms(9) _ ring, of 0 _ k] h u(2) by (simp add: outb_def)
  moreover have "ld32 (mem ?t) (ESP c) = r_useresp ?q" "ld32 (mem ?t) (ESP c + 4) = r_ss ?q"
    using read_write_regs [of ?m "ESP c - 68" ?q] spill_word [of 72 k "ESP c - 72"] spill_word [of 76 k "ESP c - 72"]
    by (simp_all add: read_regs_stack regs_words_def add.commute [of 4])
  moreover have "mem ?t x = mem s x" if "x \<notin> used_stack k 80 c" for x
    using used_stack_frame [OF that] by simp
  ultimately show ?thesis using u(3-6) live
    by (intro exI [of _ "chosen s"] exI [of _ ?q] exI [of _ ?t]) (simp add: outb_def next_regs_def)
qed

text \<open>C29. Every exception reaches \<open>fault_handler\<close> with its number and its error code, or 0 where the processor
  supplies none, in the same places of the structure: the stub pushes a 0 exactly for the exceptions
  that have no code of their own. The interrupted code is never resumed.\<close>

theorem exceptions_reach_handler:
  assumes "gates_installed syms s" and "n < 32" and "seg c CS AND 3 = 0"
    and "err = (if n \<in> {8, 10, 11, 12, 13, 14, 17, 30} then Some v else None)"
  shows "\<exists>m. read_regs m (ESP c - 68) = saved_regs n (case err of None \<Rightarrow> 0 | Some v \<Rightarrow> v) c (mem s) \<and>
    (\<forall>x. x \<notin> region (ESP c - 72) 72 \<longrightarrow> m x = mem s x) \<and>
    (\<forall>u. fault_handler syms (saved_regs n (case err of None \<Rightarrow> 0 | Some v \<Rightarrow> v) c (mem s)) (s\<lparr>mem := m\<rparr>) = Some (Halt u) \<longrightarrow>
       interrupt syms k (of_nat n) err c s = Some (Halt u)) \<and>
    (\<forall>d u. interrupt syms k (of_nat n) err c s \<noteq> Some (Ret d u))"
proof -
  let ?e = "case err of None \<Rightarrow> 0 | Some v \<Rightarrow> v" and ?a = "sym_isr syms n"
  let ?m = "entry_mem ?e n c (mem s)"
  have g: "idtr s = Some (2047, idt s)" "gate_is (mem s) (idt s + of_nat (8 * n)) ?a 8 0x8E" "n < 48"
    using assms(1,2) by (simp_all add: gates_installed_def del: of_nat_mult)
  have pc: "EIP (at_stub ?a 8 c) = ?a" "EIP ((at_stub ?a 8 c)\<lparr>ESP := w\<rparr>) = ?a" for w by (simp_all add: at_stub_def)
  note code = stub_code_isr [OF assms(1,2)]
  have run: "interrupt syms k (of_nat n) err c s =
      and_then (call_c syms k Fault_handler (at_call ?a 8 c) (s\<lparr>mem := ?m\<rparr>)) (run syms k leave)"
  proof (cases "n \<in> {8, 10, 11, 12, 13, 14, 17, 30}")
    case True
    then have "err = Some v" using assms(4) by simp
    then show ?thesis
      using code isr_stub_entry_error [OF True, of syms k Fault_handler c ?a 8 v s] deliver_vector(2) [OF g assms(3), of v]
      by (simp add: interrupt_def isr_common_stub_def pc del: push_words.simps)
  next
    case False
    then have "err = None" using assms(4) by simp
    then show ?thesis
      using code isr_stub_entry [OF False, of syms k Fault_handler ?a 8 c s] deliver_vector(1) [OF g assms(3)]
      by (simp add: interrupt_def isr_common_stub_def pc del: push_words.simps)
  qed
  have call: "call_c syms k Fault_handler (at_call ?a 8 c) (s\<lparr>mem := ?m\<rparr>) =
      and_then (fault_handler syms (saved_regs n ?e c (mem s)) (s\<lparr>mem := ?m\<rparr>)) (\<lambda>_ s. Some (Ret (clobber k (at_call ?a 8 c)) (s\<lparr>mem := spill k (ESP c - 72) (mem s)\<rparr>)))"
    by (simp add: call_c_def at_call_def entry_mem_regs Let_def)
  show ?thesis
  proof (intro exI [of _ ?m] conjI allI impI)
    show "read_regs ?m (ESP c - 68) = saved_regs n ?e c (mem s)" by (rule entry_mem_regs)
    show "?m x = mem s x" if "x \<notin> region (ESP c - 72) 72" for x using that by (rule entry_mem_frame)
    show "interrupt syms k (of_nat n) err c s = Some (Halt u)"
      if "fault_handler syms (saved_regs n ?e c (mem s)) (s\<lparr>mem := ?m\<rparr>) = Some (Halt u)" for u
      unfolding run call that by simp
    show "interrupt syms k (of_nat n) err c s \<noteq> Some (Ret d u)" for d u
      unfolding run call by (auto simp: and_then_Ret_iff fault_handler_no_return)
  qed
qed


section \<open>Witnesses\<close>

lemma ready_gates:
  assumes "ready syms I s" "distinct (map (sym_isr syms) [0..<32] @ map (sym_irq syms) [0..<16])"
  shows "gates_installed syms s"
  using assms by (simp add: gates_installed_def ready_def)

lemma demo_addresses_distinct:
  "distinct (map (sym_isr demo_addresses) [0..<32] @ map (sym_irq demo_addresses) [0..<16])"
  by code_simp

text \<open>The state after \<open>main\<close>, and a processor somewhere in the kernel.\<close>

definition demo_cpu :: cpu where
  "demo_cpu = \<lparr>EAX = 1, ECX = 2, EDX = 3, EBX = 4, ESP = 0x90000, EBP = 5, ESI = 6, EDI = 7, EIP = 0x20100,
     EFLAGS = 0x202, seg = (\<lambda>_. 0x10)(CS := 8)\<rparr>"

lemma demo_cpu_fields [simp]: "seg demo_cpu CS AND 3 = 0" "ESP demo_cpu = 0x90000" "seg demo_cpu SS = 0x10"
  by (simp_all add: demo_cpu_def)

lemma demo_running:
  obtains s :: tss where "gates_installed demo_addresses s" "kernel_ok s" "sched_ok s" "controller_ok s"
    "scheduler_active s = 1" "irq_routines s ! 0 = 0x2200" "irq_routines s ! 1 = 0x2300" "slice_ticks s = 4"
    "\<forall>i. live (proc_arr s) i \<longleftrightarrow> i = 0" "r_cs (last_state_regs (proc_arr s ! 0)) = 8" "cur_proc_index s = 0"
proof -
  obtain t :: tss where t: "started demo_addresses (idt_page demo_boot) 0x21000 t" "dev t = dev demo_boot"
    using main_starts [OF demo_boot_ok(1,3,4), of demo_addresses "0x7C00" "0x25000" "0x21000"] by blast
  have "gates_installed demo_addresses t"
    using t(1) by (intro ready_gates [where I = "idt_page demo_boot", OF _ demo_addresses_distinct]) (simp add: started_def)
  moreover have "controller_ok t" using demo_boot_ok(4) t(2) by (simp add: controller_ok_def)
  ultimately show ?thesis using t(1) that [of t]
    by (simp add: started_def sched_ok_def kernel_ok_def slice_ticks_def demo_addresses_def MAX_PROC_def)
qed

text \<open>C functions that leave 200 bytes of rubbish on the stack.\<close>

definition demo_effects :: c_effects where
  "demo_effects = cpu.extend demo_cpu \<lparr>c_frame = 200, c_scratch = \<lambda>_. 0xCC\<rparr>"

lemma demo_effects_frame [simp]: "c_frame demo_effects = 200"
  by (simp add: demo_effects_def cpu.defs)

lemma exceptions_reach_handler_witness:
  "\<exists>s :: tss. \<forall>k d u. interrupt demo_addresses k 14 (Some 2) demo_cpu s \<noteq> Some (Ret d u) \<and>
    interrupt demo_addresses k 0 None demo_cpu s \<noteq> Some (Ret d u)"
proof -
  obtain s :: tss where g: "gates_installed demo_addresses s" by (rule demo_running)
  have "interrupt demo_addresses k 14 (Some 2) demo_cpu s \<noteq> Some (Ret d u)"
    "interrupt demo_addresses k 0 None demo_cpu s \<noteq> Some (Ret d u)" for k d u
    using exceptions_reach_handler [OF g, of 14 demo_cpu "Some 2" 2 k]
      exceptions_reach_handler [OF g, of 0 demo_cpu None 0 k] by auto
  then show ?thesis by blast
qed

lemma demo_stack: "used_stack demo_effects n demo_cpu \<subseteq> region 0x8FEF0 (200 + n)" if "n \<le> 80"
proof -
  have "region (0x8FEF0 + of_nat 200) n \<subseteq> region 0x8FEF0 (200 + n)"
    using that region_shift [of _ "0x8FEF0" 200 n "200 + n"] by auto
  moreover have "region 0x8FEF0 200 \<subseteq> region 0x8FEF0 (200 + n)" by (rule region_mono) simp
  ultimately show ?thesis by (simp add: used_stack_def c_stack_def)
qed

lemma stack_not_video: "used_stack demo_effects 80 demo_cpu \<inter> video = {}"
proof -
  have "x \<notin> region 0x8FEF0 280" if "x \<in> video" for x
    using that by (auto simp: video_def region_iff VIDEO_MEMORY_def)
  then show ?thesis using demo_stack [of 80] by auto
qed

text \<open>A key; the word on top of the interrupted stack is as it was.\<close>

lemma interrupts_transparent_witness:
  "\<exists>s t :: tss. interrupt demo_addresses demo_effects 33 None demo_cpu s = Some (Ret demo_cpu t) \<and> mem t 0x90000 = mem s 0x90000"
proof -
  obtain s0 :: tss where s0: "gates_installed demo_addresses s0" "kernel_ok s0" "controller_ok s0" "irq_routines s0 ! 1 = 0x2300"
    by (rule demo_running)
  define s where "s = s0\<lparr>shiftLookup := replicate 128 0\<rparr>"
  have s: "gates_installed demo_addresses s" "kernel_ok s" "controller_ok s" "length (shiftLookup s) = 128"
    "quiet_irq demo_addresses 1 s"
    using s0 by (simp_all add: s_def gates_installed_def kernel_ok_def cursor_ok_def controller_ok_def quiet_irq_def demo_addresses_def)
  have "0x90000 \<notin> video" "0x90000 \<notin> used_stack demo_effects 72 demo_cpu"
    using demo_stack [of 72] by (auto simp: video_def region_iff VIDEO_MEMORY_def)
  with interrupts_transparent [OF s(1-4) _ s(5) demo_cpu_fields(1) stack_not_video] show ?thesis by auto
qed

text \<open>With one process, the last tick of the slice switches from it to itself.\<close>

lemma switch_keeps_stack_witness:
  "\<exists>s t :: tss. timer_ticks s = 3 \<and>
    interrupt demo_addresses demo_effects 32 None demo_cpu s = Some (Ret demo_cpu t) \<and> timer_ticks t = 0"
proof -
  obtain s :: tss where s: "gates_installed demo_addresses s" "kernel_ok s" "sched_ok s" "scheduler_active s = 1"
    "irq_routines s ! 0 = 0x2200" "slice_ticks s = 4" "\<forall>i. live (proc_arr s) i \<longleftrightarrow> i = 0"
    "r_cs (last_state_regs (proc_arr s ! 0)) = 8" "cur_proc_index s = 0"
    by (rule demo_running)
  define u where "u = s\<lparr>is_first_run := 0, timer_ticks := 3\<rparr>"
  have "gates_installed demo_addresses u" "kernel_ok u" "sched_ok u" "scheduler_active u \<noteq> 0" "is_first_run u = 0"
    "irq_routines u ! 0 = sym_timer_handler demo_addresses" "sym_timer_handler demo_addresses \<noteq> 0"
    "timer_ticks u + 1 = slice_ticks u"
    "\<forall>i. live (proc_arr u) i \<longrightarrow> (ucast (r_cs (last_state_regs (proc_arr u ! i))) :: u16) AND 3 = 0"
    using s by (simp_all add: u_def gates_installed_def kernel_ok_def cursor_ok_def sched_ok_def slice_ticks_def demo_addresses_def)
  from switch_keeps_stack [OF this(1-8) demo_cpu_fields(1) this(9), of demo_effects] obtain t :: tss where
    "interrupt demo_addresses demo_effects 32 None demo_cpu u =
       Some (Ret (with_regs (saved_regs 32 0 demo_cpu (mem u)) (ESP demo_cpu) (seg demo_cpu SS)) t)" "timer_ticks t = 0"
    using s(7,9) by (auto simp: u_def)
  then show ?thesis unfolding with_regs_saved by (intro exI [of _ u] exI [of _ t]) (simp add: u_def)
qed

text \<open>A line without a handler is only acknowledged.\<close>

lemma hardware_interrupt_returns_witness:
  "\<exists>s t :: tss. interrupt demo_addresses demo_effects 37 None demo_cpu s = Some (Ret demo_cpu t)"
proof -
  obtain s0 :: tss where s0: "gates_installed demo_addresses s0" "kernel_ok s0" by (rule demo_running)
  define s where "s = s0\<lparr>irq_routines := replicate 16 0\<rparr>"
  have g: "gates_installed demo_addresses s" using s0(1) by (simp add: s_def gates_installed_def)
  let ?r = "saved_regs 37 0 demo_cpu (mem s)"
  obtain m where m: "\<forall>r t. irq_handler demo_addresses ?r (s\<lparr>mem := m\<rparr>) = Some (r, t) \<and> (ucast (r_cs r) :: u16) AND 3 = 0 \<longrightarrow>
       interrupt demo_addresses demo_effects 37 None demo_cpu s =
         Some (Ret (with_regs r (ESP demo_cpu) (seg demo_cpu SS)) (t\<lparr>mem := spill demo_effects (ESP demo_cpu - 72) (write_regs (mem t) (ESP demo_cpu - 68) r)\<rparr>))"
    using hardware_interrupt_returns [OF g, of 5 demo_cpu demo_effects] by auto
  have "\<exists>t. irq_handler demo_addresses ?r (s\<lparr>mem := m\<rparr>) = Some (?r, t)"
    by (simp add: irq_handler_def saved_regs_def s_def Let_def)
  moreover have "(ucast (r_cs ?r) :: u16) AND 3 = 0" by (simp add: saved_regs_def)
  ultimately show ?thesis using m [rule_format, of ?r] unfolding with_regs_saved by blast
qed

end
