(* ===== verification/Gdt.thy ===== *)
theory Gdt
  imports Stubs
begin

text \<open>
  The global descriptor table of \<open>bits_16/gdt.asm\<close>, byte for byte, the selectors that \<open>switch_to_pm.asm\<close> and
  the kernel load, and how the processor turns a selector and an offset into a linear address. The rest
  of the development takes an offset to be the linear address; here, that the table makes it so, also
  after \<open>init_tss\<close> has filled in its last entry.
\<close>

section \<open>The table\<close>

text \<open>The data directives of the assembler.\<close>

definition dw :: "u16 \<Rightarrow> u8 list" where
  "dw w = [ucast w, ucast (drop_bit 8 w)]"

definition dd :: "u32 \<Rightarrow> u8 list" where
  "dd w = [ucast w, ucast (drop_bit 8 w), ucast (drop_bit 16 w), ucast (drop_bit 24 w)]"

definition gdt_null :: "u8 list" where "gdt_null = dd 0 @ dd 0"

definition gdt_code :: "u8 list" where "gdt_code = dw 0xFFFF @ dw 0 @ [0, 0b10011010, 0b11001111, 0]"

definition gdt_data :: "u8 list" where "gdt_data = dw 0xFFFF @ dw 0 @ [0, 0b10010010, 0b11001111, 0]"

definition gdt_code_user :: "u8 list" where "gdt_code_user = dw 0xFFFF @ dw 0 @ [0, 0b11111010, 0b11001111, 0]"

definition gdt_data_user :: "u8 list" where "gdt_data_user = dw 0xFFFF @ dw 0 @ [0, 0b11110010, 0b11001111, 0]"

definition gdt_tss_kernel :: "u8 list" where "gdt_tss_kernel = dd 0 @ dd 0"

definition gdt :: "u8 list" where
  "gdt = gdt_null @ gdt_code @ gdt_data @ gdt_code_user @ gdt_data_user @ gdt_tss_kernel"

text \<open>Limit and base, as \<open>lgdt\<close> loads them.\<close>

definition gdt_descriptor :: "u32 \<Rightarrow> u16 \<times> u32" where
  "gdt_descriptor gdt_start = (of_nat (length gdt - 1), gdt_start)"

definition CODE_SEG :: u16 where "CODE_SEG = of_nat (length gdt_null)"
definition DATA_SEG :: u16 where "DATA_SEG = of_nat (length (gdt_null @ gdt_code))"

text \<open>\<open>switch_to_pm\<close> up to its last instruction, the call of the code that follows. It turns interrupts off,
  loads the table register, sets the protection bit of \<open>cr0\<close> by way of \<open>eax\<close>, loads \<open>cs\<close> by a far jump and
  the other segment registers by way of \<open>ax\<close>. In 16-bit code \<open>lgdt\<close> loads only 24 bits of the base; the
  whole base is loaded here, which is the same for a table below 16 MB, and the boot code lies below 1 MB.\<close>

definition switch_to_pm :: "u32 \<Rightarrow> cpu \<times> (u16 \<times> u32) \<times> u32 \<Rightarrow> cpu \<times> (u16 \<times> u32) \<times> u32" where
  "switch_to_pm gdt_start =
     (\<lambda>(c, gdtr, cr0).
        let c = c\<lparr>EFLAGS := EFLAGS c AND NOT 0x200\<rparr>;
            gdtr = gdt_descriptor gdt_start;
            c = c\<lparr>EAX := cr0 OR 1\<rparr>;
            cr0 = EAX c;
            c = c\<lparr>seg := (seg c)(CS := CODE_SEG)\<rparr>;
            c = c\<lparr>EAX := (EAX c AND 0xFFFF0000) OR ucast DATA_SEG\<rparr>;
            ax = ucast (EAX c)
        in (c\<lparr>seg := (seg c)(DS := ax, SS := ax, ES := ax, FS := ax, GS := ax)\<rparr>, gdtr, cr0))"

section \<open>Segmentation\<close>

text \<open>What the processor reads of a descriptor, beyond its base and limit: bit 7 of the access byte is
  present, bits 6 and 5 the privilege level, bit 4 a code or data segment, bit 3 code, bit 1 readable
  code or writable data; bit 7 of the flags counts the limit in pages.\<close>

definition last_offset :: "mem \<Rightarrow> u32 \<Rightarrow> u32" where
  "last_offset m e = (if bit (m (e + 6)) 7 then push_bit 12 (segment_limit m e) OR 0xFFF else segment_limit m e)"

definition privilege :: "mem \<Rightarrow> u32 \<Rightarrow> nat" where
  "privilege m e = unat (drop_bit 5 (m (e + 5)) AND 3)"

datatype access = Fetch | Load | Store

definition permits :: "u8 \<Rightarrow> access \<Rightarrow> bool" where
  "permits b k \<longleftrightarrow> bit b 7 \<and> bit b 4 \<and>
     (case k of Fetch \<Rightarrow> bit b 3 | Load \<Rightarrow> bit b 3 \<longrightarrow> bit b 1 | Store \<Rightarrow> \<not> bit b 3 \<and> bit b 1)"

text \<open>The entry of a selector, if it is not null and within the limit of the table.\<close>

definition entry_of :: "u16 \<times> u32 \<Rightarrow> u16 \<Rightarrow> u32 option" where
  "entry_of gdtr sel =
     (if sel AND 0xFFFC = 0 \<or> bit sel 2 \<or> fst gdtr < (sel AND 0xFFF8) + 7 then None
      else Some (snd gdtr + ucast (sel AND 0xFFF8)))"

text \<open>The linear address of an access through a segment register that holds the selector, \<open>None\<close> for a
  fault. Code must have the privilege level of the processor, data at most that of processor and
  selector.\<close>

definition linear :: "mem \<Rightarrow> u16 \<times> u32 \<Rightarrow> nat \<Rightarrow> u16 \<Rightarrow> access \<Rightarrow> u32 \<Rightarrow> u32 option" where
  "linear m gdtr cpl sel k off =
     (case entry_of gdtr sel of
        None \<Rightarrow> None
      | Some e \<Rightarrow>
          if permits (m (e + 5)) k \<and> off \<le> last_offset m e \<and>
             (if k = Fetch then privilege m e = cpl else max cpl (unat (sel AND 3)) \<le> privilege m e)
          then Some (segment_base m e + off) else None)"

text \<open>The table in memory. The processor sets bit 0 of the access byte of a segment when it loads the selector,
  so this bit of the four segments is free.\<close>

definition accessed :: "nat \<Rightarrow> u8" where
  "accessed i = (if i \<in> {13, 21, 29, 37} then 1 else 0)"

definition gdt_at :: "mem \<Rightarrow> u32 \<Rightarrow> bool" where
  "gdt_at m g \<longleftrightarrow> (\<forall>i<length gdt. m (g + of_nat i) OR accessed i = gdt ! i OR accessed i)"

lemma gdt_numerals:
  "gdt = [0, 0, 0, 0, 0, 0, 0, 0, 0xFF, 0xFF, 0, 0, 0, 0x9A, 0xCF, 0, 0xFF, 0xFF, 0, 0, 0, 0x92, 0xCF, 0,
     0xFF, 0xFF, 0, 0, 0, 0xFA, 0xCF, 0, 0xFF, 0xFF, 0, 0, 0, 0xF2, 0xCF, 0, 0, 0, 0, 0, 0, 0, 0, 0]"
  by (simp add: gdt_def gdt_null_def gdt_code_def gdt_data_def gdt_code_user_def gdt_data_user_def
      gdt_tss_kernel_def dw_def dd_def)

lemma length_gdt [simp]: "length gdt = 48"
  by (simp add: gdt_numerals)

lemma selectors: "CODE_SEG = 8" "DATA_SEG = 16"
  by (simp_all add: CODE_SEG_def DATA_SEG_def gdt_null_def gdt_code_def dd_def dw_def)

section \<open>Flat segments\<close>

text \<open>A descriptor that covers the four gigabytes from 0 on, with the access byte \<open>b\<close>.\<close>

definition flat_at :: "mem \<Rightarrow> u32 \<Rightarrow> u8 \<Rightarrow> bool" where
  "flat_at m e b \<longleftrightarrow> segment_base m e = 0 \<and> last_offset m e = - 1 \<and> m (e + 5) OR 1 = b OR 1"

lemma flat_atI:
  assumes "m e = 0xFF" "m (e + 1) = 0xFF" "m (e + 2) = 0" "m (e + 3) = 0" "m (e + 4) = 0" "m (e + 6) = 0xCF"
    "m (e + 7) = 0" "m (e + 5) OR 1 = b OR 1"
  shows "flat_at m e b"
  using assms by (simp add: flat_at_def last_offset_def segment_base_def segment_limit_def ld16_def add.assoc)

lemma gdt_flat:
  assumes "\<And>i. i < 40 \<Longrightarrow> m (g + of_nat i) OR accessed i = gdt ! i OR accessed i"
  shows "flat_at m (g + 8) 0x9A" "flat_at m (g + 16) 0x92" "flat_at m (g + 24) 0xFA" "flat_at m (g + 32) 0xF2"
proof -
  note h = assms
  show "flat_at m (g + 8) 0x9A"
    using h [of 8] h [of 9] h [of 10] h [of 11] h [of 12] h [of 13] h [of 14] h [of 15]
    by (intro flat_atI) (simp_all add: gdt_numerals accessed_def add.assoc)
  show "flat_at m (g + 16) 0x92"
    using h [of 16] h [of 17] h [of 18] h [of 19] h [of 20] h [of 21] h [of 22] h [of 23]
    by (intro flat_atI) (simp_all add: gdt_numerals accessed_def add.assoc)
  show "flat_at m (g + 24) 0xFA"
    using h [of 24] h [of 25] h [of 26] h [of 27] h [of 28] h [of 29] h [of 30] h [of 31]
    by (intro flat_atI) (simp_all add: gdt_numerals accessed_def add.assoc)
  show "flat_at m (g + 32) 0xF2"
    using h [of 32] h [of 33] h [of 34] h [of 35] h [of 36] h [of 37] h [of 38] h [of 39]
    by (intro flat_atI) (simp_all add: gdt_numerals accessed_def add.assoc)
qed

text \<open>The accessed bit has no part in the access rights.\<close>

lemma access_bits:
  assumes "b OR 1 = c OR (1 :: u8)"
  shows "0 < n \<Longrightarrow> bit b n = bit c n" "drop_bit 5 b = drop_bit 5 c"
proof -
  show b: "bit b n = bit c n" if "0 < n" for n
    using arg_cong [OF assms, of "\<lambda>w. bit w n"] that by (simp add: bit_simps)
  show "drop_bit 5 b = drop_bit 5 c" by (rule bit_word_eqI) (simp add: bit_drop_bit_eq b)
qed

lemma linear_flat:
  assumes "flat_at m e b" "entry_of gdtr sel = Some e"
  shows "linear m gdtr cpl sel k off =
     (if permits b k \<and> (let dpl = unat (drop_bit 5 b AND 3)
         in if k = Fetch then dpl = cpl else max cpl (unat (sel AND 3)) \<le> dpl) then Some off else None)"
proof -
  have b: "m (e + 5) OR 1 = b OR 1" using assms(1) by (simp add: flat_at_def)
  have "permits (m (e + 5)) k = permits b k" by (simp add: permits_def access_bits(1) [OF b] cong: access.case_cong)
  moreover have "privilege m e = unat (drop_bit 5 b AND 3)" by (simp add: privilege_def access_bits(2) [OF b])
  moreover have "segment_base m e = 0" "off \<le> last_offset m e" using assms(1) by (simp_all add: flat_at_def)
  ultimately show ?thesis by (simp add: linear_def assms(2) Let_def)
qed

lemma gdt_entry_of:
  "entry_of (gdt_descriptor g) 8 = Some (g + 8)" "entry_of (gdt_descriptor g) 0x10 = Some (g + 16)"
  "entry_of (gdt_descriptor g) 0x1B = Some (g + 24)" "entry_of (gdt_descriptor g) 0x23 = Some (g + 32)"
  "entry_of (gdt_descriptor g) 0x2B = Some (g + 40)"
  by (simp_all add: entry_of_def gdt_descriptor_def bit_numeral_rec)

lemma init_tss_gdt:
  assumes "gdt_at (mem s) g" "region g 48 \<inter> region a 104 = {}" "i < 40"
  shows "mem (init_tss g a s) (g + of_nat i) OR accessed i = gdt ! i OR accessed i"
proof -
  have "g + of_nat i \<in> region g 48" using assms(3) by (intro region_offset) simp_all
  then have "g + of_nat i \<notin> region a 104" using assms(2) by blast
  moreover have "g + of_nat i \<notin> region (g + 40) 8"
  proof
    assume "g + of_nat i \<in> region (g + 40) 8"
    then have "unat (of_nat i - (40 :: u32)) < 8" by (simp add: region_def)
    moreover have "unat (of_nat i - (40 :: u32)) = 4294967296 - 40 + i"
      using assms(3) by (simp add: unat_sub_if' unat_of_nat_32)
    ultimately show False by simp
  qed
  ultimately show ?thesis using assms(1,3) by (simp add: init_tss_state tss_bytes_outside descriptor_outside gdt_at_def)
qed

lemma seg_switch_to_pm:
  "switch_to_pm g (c, r, z) = (d, r', z') \<Longrightarrow> seg d = (\<lambda>x. if x = CS then 8 else 0x10) \<and> r' = gdt_descriptor g"
proof -
  have "(ucast ((v AND 0xFFFF0000) OR (0x10 :: u32)) :: u16) = 0x10" for v :: u32
  proof (rule bit_word_eqI)
    fix n assume n: "n < LENGTH(16)"
    have "\<not> bit (0xFFFF0000 :: u32) n"
    proof -
      have "(0xFFFF0000 :: u32) = push_bit 16 0xFFFF" by simp
      then show ?thesis using n by (simp only: bit_push_bit_iff) simp
    qed
    moreover have "bit (0x10 :: u32) n = bit (0x10 :: u16) n"
      using n by (simp add: bit_numeral_word_iff)
    ultimately show "bit (ucast ((v AND 0xFFFF0000) OR (0x10 :: u32)) :: u16) n = bit (0x10 :: u16) n"
      using n by (simp add: bit_simps)
  qed
  then show "switch_to_pm g (c, r, z) = (d, r', z') \<Longrightarrow> seg d = (\<lambda>x. if x = CS then 8 else 0x10) \<and> r' = gdt_descriptor g"
    by (auto simp: switch_to_pm_def selectors Let_def fun_eq_iff) (metis sreg.exhaust)
qed

section \<open>Properties\<close>


section \<open>Witness\<close>


end
