(* ===== verification/UserPages.thy ===== *)
theory UserPages
  imports Boot
begin

text \<open>
  \<open>alloc_page\<close> for the directory of a process while the kernel's tables have room: the process's table, the
  bitset and the kernel's own table each get one word. \<open>pspace ND fs m\<close> is a directory made by
  \<open>get_new_kernel_mapped_dir\<close> at \<open>ND\<close> after pages for the addresses from \<open>KERNEL_MEM_END\<close> on have been
  mapped to the frames \<open>fs\<close>.
\<close>

definition pspace :: "nat \<Rightarrow> nat list \<Rightarrow> mem \<Rightarrow> bool" where
  "pspace ND fs m \<longleftrightarrow>
     (\<forall>j<1024. word_at m (ND + 4 * j) = (if j < 4 then of_nat (ND + 4096 + 4096 * j) OR 3 else 0)) \<and>
     (\<forall>q<4080 + length fs. word_at m (ND + 4096 + 4 * q) =
        of_nat (4096 * (if q < 4080 then q else fs ! (q - 4080))) OR 3)"

lemma mirror_pspace: "mirror ND 4 4080 s \<Longrightarrow> pspace ND [] (mem s)"
  by (simp add: mirror_def pspace_def)

lemma pspace_mirror: "pspace ND fs (mem s) \<Longrightarrow> mirror ND 4 4080 (s\<lparr>place_addr := of_nat (ND + 20480)\<rparr>)"
  by (simp add: mirror_def pspace_def)

lemma pspace_cong:
  assumes "pspace ND fs m" "mroom ND" "length fs \<le> 16"
    and "\<And>x. ND \<le> unat x \<Longrightarrow> unat x < ND + 20480 \<Longrightarrow> m' x = m x"
  shows "pspace ND fs m'"
proof -
  have "word_at m' a = word_at m a" if "ND \<le> a" "a + 4 \<le> ND + 20480" for a
    using that assms(2,4) by (intro word_at_cong) (auto simp: mroom_def)
  then show ?thesis using assms(1,3) by (auto simp: pspace_def)
qed

lemma kmap_fields:
  assumes "kmap KD k s"
  shows "kernel_directory s = of_nat KD" "frames s = of_nat (KD + 4096)"
    "j < 1024 \<Longrightarrow> word_at (mem s) (KD + 4 * j) = (if j < 4 then of_nat (KD + 135168 + 4096 * j) OR 3 else 0)"
    "q < 4096 \<Longrightarrow> word_at (mem s) (KD + 135168 + 4 * q) = (if q < k then of_nat (4096 * q) OR 3 else 0)"
    "w < 32768 \<Longrightarrow> b < 32 \<Longrightarrow> bit (word_at (mem s) (KD + 4096 + 4 * w)) b \<longleftrightarrow> 32 * w + b < k"
  using assms by (simp_all add: kmap_def kstate_def)

text \<open>The three words that one new page changes.\<close>

definition page_words :: "nat \<Rightarrow> nat \<Rightarrow> nat \<Rightarrow> nat \<Rightarrow> mem \<Rightarrow> mem" where
  "page_words KD ND q k m =
     (let m = st32 m (of_nat (ND + 4096 + 4 * q)) (of_nat (4096 * k) OR 3);
          p = of_nat (KD + 4096 + 4 * (k div 32));
          m = st32 m p (ld32 m p OR push_bit (k mod 32) 1)
      in st32 m (of_nat (KD + 135168 + 4 * k)) (of_nat (4096 * k) OR 3))"

text \<open>The process's directory lies behind the kernel's structures, and both tables have the entry.\<close>

definition page_room :: "nat \<Rightarrow> nat \<Rightarrow> nat \<Rightarrow> nat \<Rightarrow> bool" where
  "page_room KD ND q k \<longleftrightarrow> kroom KD \<and> mroom ND \<and> KD + 151552 \<le> ND \<and> q < 4096 \<and> k < 4096"

lemma page_roomD:
  assumes "page_room KD ND q k"
  shows "kroom KD" "mroom ND" "KD + 151552 \<le> ND" "q < 4096" "k < 4096"
    "KD + 151552 \<le> 16711680" "ND + 20480 \<le> 4294967295" "k div 32 < 128"
  using assms by (simp_all add: page_room_def kroom_def mroom_def div_less_iff_less_mult)

lemma page_words_word:
  assumes r: "page_room KD ND q k" and "4 dvd c" "c < 4294967296"
  shows "word_at (page_words KD ND q k m) c =
    (if c = KD + 135168 + 4 * k \<or> c = ND + 4096 + 4 * q then of_nat (4096 * k) OR 3
     else if c = KD + 4096 + 4 * (k div 32) then word_at m c OR push_bit (k mod 32) 1
     else word_at m c)"
proof -
  note b = page_roomD [OF r] and al = kroom_aligned [OF page_roomD(1) [OF r]] mroom_aligned [OF page_roomD(2) [OF r]]
  have l: "KD + 135168 + 4 * k < 4294967296" "ND + 4096 + 4 * q < 4294967296" "KD + 4096 + 4 * (k div 32) < 4294967296"
    using b by simp_all
  have ne: "KD + 4096 + 4 * (k div 32) \<noteq> ND + 4096 + 4 * q" "KD + 135168 + 4 * k \<noteq> KD + 4096 + 4 * (k div 32)"
    "KD + 135168 + 4 * k \<noteq> ND + 4096 + 4 * q" using b by linarith+
  show ?thesis
    unfolding page_words_def Let_def word_at_def [of _ "KD + 4096 + 4 * (k div 32)", symmetric]
    using assms(2,3) l ne by (auto simp: word_at_store al simp del: of_nat_add of_nat_mult)
qed

lemma page_words_outside:
  assumes r: "page_room KD ND q k" and "unat x < KD \<or> KD + 151552 \<le> unat x" "unat x < ND \<or> ND + 4100 + 4 * q \<le> unat x"
  shows "page_words KD ND q k m x = m x"
proof -
  note b = page_roomD [OF r]
  have out: "x \<notin> region (of_nat a) 4"
    if "KD \<le> a \<and> a + 4 \<le> KD + 151552 \<or> ND \<le> a \<and> a + 4 \<le> ND + 4100 + 4 * q" for a
    using that assms(2,3) b by (auto simp: region_iff unat_of_nat_32)
  from out [of "KD + 135168 + 4 * k"] out [of "ND + 4096 + 4 * q"] out [of "KD + 4096 + 4 * (k div 32)"] b
  show ?thesis by (simp add: page_words_def s32.st_frame Let_def del: of_nat_add of_nat_mult)
qed

lemma page_words_kmap:
  assumes r: "page_room KD ND q k" and st: "kmap KD k s"
  shows "kmap KD (Suc k) (s\<lparr>mem := page_words KD ND q k (mem s)\<rparr>)"
proof -
  note b = page_roomD [OF r] and w = page_words_word [OF r] and f = kmap_fields [OF st]
  note al = kroom_aligned [OF b(1)]
  have "word_at (page_words KD ND q k (mem s)) (KD + 4 * j) = word_at (mem s) (KD + 4 * j)" if "j < 1024" for j
    using that b al by (subst w) auto
  moreover have "word_at (page_words KD ND q k (mem s)) (KD + 135168 + 4 * i) =
      (if i < Suc k then of_nat (4096 * i) OR 3 else 0)" if "i < 4096" for i
    using that b al f(4) [OF that] by (subst w) (auto simp: less_Suc_eq)
  moreover have "bit (word_at (page_words KD ND q k (mem s)) (KD + 4096 + 4 * v)) c \<longleftrightarrow> 32 * v + c < Suc k"
    if "v < 32768" "c < 32" for v c
  proof -
    have "word_at (page_words KD ND q k (mem s)) (KD + 4096 + 4 * v) =
        (if v = k div 32 then word_at (mem s) (KD + 4096 + 4 * v) OR push_bit (k mod 32) 1 else word_at (mem s) (KD + 4096 + 4 * v))"
      using that b al by (subst w) auto
    then show ?thesis using bitset_bit_step [OF _ that f(5) [OF that]] b by simp
  qed
  ultimately show ?thesis using f(1-3) by (simp add: kmap_def kstate_def)
qed

lemma page_words_pspace:
  assumes r: "page_room KD ND q k" and "pspace ND fs m" "q = 4080 + length fs"
  shows "pspace ND (fs @ [k]) (page_words KD ND q k m)"
proof -
  note b = page_roomD [OF r] and w = page_words_word [OF r]
  note al = mroom_aligned [OF b(2)]
  have "word_at (page_words KD ND q k m) (ND + 4 * j) = word_at m (ND + 4 * j)" if "j < 1024" for j
    using that b al by (subst w) auto
  moreover have "word_at (page_words KD ND q k m) (ND + 4096 + 4 * i) =
      of_nat (4096 * (if i < 4080 then i else (fs @ [k]) ! (i - 4080))) OR 3" if i: "i < Suc q" for i
  proof (cases "i = q")
    case True
    then show ?thesis using b al assms(3) by (subst w) auto
  next
    case False
    then have "i < 4080 + length fs" using i assms(3) by simp
    then have "word_at m (ND + 4096 + 4 * i) = of_nat (4096 * (if i < 4080 then i else (fs @ [k]) ! (i - 4080))) OR 3"
      using assms(2) by (auto simp: pspace_def nth_append)
    then show ?thesis using False i b al by (subst w) auto
  qed
  ultimately show ?thesis using assms(2,3) by (simp add: pspace_def)
qed

section \<open>alloc_page\<close>

lemma aligned_table:
  assumes "page_room KD ND q k"
  shows "unat (of_nat (4096 * k) :: u32) mod 4096 = 0"
  using page_roomD(5) [OF assms] by (subst unat_of_nat_32) simp_all

lemma user_entries:
  assumes room: "mroom ND" and q: "q < 4096" and p: "pspace ND fs m"
  shows "ld32 m (dir_entry (of_nat ND) (of_nat (q * 4096))) AND 1 \<noteq> 0"
    "table_entry m (of_nat ND) (of_nat (q * 4096)) = of_nat (ND + 4096 + 4 * q)"
proof -
  define s :: paging where "s = undefined\<lparr>mem := m\<rparr>"
  have ms: "mem s = m" by (simp add: s_def)
  have q4: "q div 1024 < 4" using q by (simp add: div_less_iff_less_mult)
  note en = mirror_entries [OF pspace_mirror [of ND fs s, unfolded ms, OF p] room _ q, simplified, unfolded ms]
  have "(of_nat (ND + 4096 + 4096 * (q div 1024)) OR 3) AND 1 = (1 :: u32)"
    using entry_flag [OF mroom_page(1) [OF room q4], of 3] by simp
  then show "ld32 m (dir_entry (of_nat ND) (of_nat (q * 4096))) AND 1 \<noteq> 0" using en(1,2) q4 by simp
  show "table_entry m (of_nat ND) (of_nat (q * 4096)) = of_nat (ND + 4096 + 4 * q)" using en(3) q4 by simp
qed

lemma kernel_entries:
  assumes r: "page_room KD ND q k" and st: "kmap KD i s"
  shows "dir_entry (kernel_directory s) (of_nat (k * 4096)) = of_nat (KD + 4 * (k div 1024))"
    "ld32 (mem s) (of_nat (KD + 4 * (k div 1024))) AND 1 \<noteq> 0"
    "table_entry (mem s) (kernel_directory s) (of_nat (k * 4096)) = of_nat (KD + 135168 + 4 * k)"
proof -
  note b = page_roomD [OF r] and st = st [unfolded kmap_def]
  have k: "k div 1024 < 4" "unat (of_nat (k * 4096) :: u32) div 4096 = k"
    using b by (simp_all add: div_less_iff_less_mult unat_of_nat_32 del: of_nat_mult)
  note kd = kstate_dir_entry [OF st, of "of_nat (k * 4096)", unfolded k(2)]
    and dw = kstate_dir_word [OF st, of "of_nat (k * 4096)", unfolded k(2)]
    and te = kstate_table_entry [OF st b(1), of "of_nat (k * 4096)", unfolded k(2)]
  show d: "dir_entry (kernel_directory s) (of_nat (k * 4096)) = of_nat (KD + 4 * (k div 1024))" using kd by simp
  have "(of_nat (KD + 135168 + 4096 * (k div 1024)) OR 3) AND 1 = (1 :: u32)"
    using entry_flag [OF kroom_page [OF b(1) k(1)], of 3] by simp
  then show "ld32 (mem s) (of_nat (KD + 4 * (k div 1024))) AND 1 \<noteq> 0" using dw k(1) d by simp
  show "table_entry (mem s) (kernel_directory s) (of_nat (k * 4096)) = of_nat (KD + 135168 + 4 * k)"
    using te k(1) by simp
qed

lemma map_frame_user:
  assumes r: "page_room KD ND q k" and st: "kmap KD k s" and p: "pspace ND fs (mem s)"
  shows "map_frame (of_nat ND) (of_nat (q * 4096)) (of_nat (k * 4096)) True True s = s\<lparr>mem := page_words KD ND q k (mem s)\<rparr>"
proof -
  let ?ph = "of_nat (k * 4096) :: u32" and ?T = "ND + 4096 + 4 * q" and ?a = "KD + 4096 + 4 * (k div 32)"
  note b = page_roomD [OF r] and f = kmap_fields [OF st]
  note al = kroom_aligned [OF b(1)] mroom_aligned [OF b(2)]
  define e where "e = ?ph OR 3"
  define m1 where "m1 = st32 (mem s) (of_nat ?T) e"
  define m2 where "m2 = st32 m1 (of_nat ?a) (ld32 m1 (of_nat ?a) OR push_bit (k mod 32) 1)"
  have w: "word_at m2 c = word_at (mem s) c" if "4 dvd c" "c < 4294967296" "c \<noteq> ?T" "c \<noteq> ?a" for c
    unfolding m2_def m1_def using that b al by (simp add: word_at_store del: of_nat_add of_nat_mult)
  have k: "k div 1024 < 4" using b by (simp add: div_less_iff_less_mult)
  have dw: "ld32 m2 (of_nat (KD + 4 * (k div 1024))) = ld32 (mem s) (of_nat (KD + 4 * (k div 1024)))"
    unfolding word_at_def [symmetric] using b al k by (intro w) simp_all
  have kw: "ld32 m2 (of_nat (KD + 135168 + 4 * k)) = 0"
  proof -
    have "word_at m2 (KD + 135168 + 4 * k) = word_at (mem s) (KD + 135168 + 4 * k)"
      using b al by (intro w) simp_all
    also have "\<dots> = 0" using f(4) b(5) by simp
    finally show ?thesis by (simp only: word_at_def)
  qed
  note ue = user_entries [OF b(2,4) p] and ke = kernel_entries [OF r st]
  have fl: "page_entry_flags True True = 3" by (simp add: page_entry_flags_def)
  have s1: "write_bitset ?ph 1 (store32 (of_nat ?T) e s) = s\<lparr>mem := m2\<rparr>"
    using b by (subst write_bitset_mark) (simp_all add: store32_def f m1_def m2_def add.assoc Let_def)
  have "unat (of_nat ND :: u32) = ND" "unat (of_nat KD :: u32) = KD" using b by (simp_all add: unat_of_nat_32)
  then have ne: "(of_nat ND :: u32) \<noteq> of_nat KD" using b(3) by auto
  have add: "add_frame_to_kernel_dir ?ph (s\<lparr>mem := m2\<rparr>) = s\<lparr>mem := st32 m2 (of_nat (KD + 135168 + 4 * k)) e\<rparr>"
  proof -
    have te: "table_entry m2 (kernel_directory s) ?ph = of_nat (KD + 135168 + 4 * k)"
      using ke dw by (simp add: table_entry_def)
    have "ld32 m2 (dir_entry (kernel_directory s) ?ph) AND 1 \<noteq> 0" using ke(1,2) dw by simp
    then show ?thesis
      using kw by (subst add_frame_present) (simp_all add: te store32_def e_def Let_def del: of_nat_add of_nat_mult)
  qed
  have "map_frame (of_nat ND) (of_nat (q * 4096)) ?ph True True s =
      (let s = write_bitset ?ph 1 (store32 (of_nat ?T) e s)
       in if of_nat ND \<noteq> kernel_directory s then add_frame_to_kernel_dir ?ph s else s)"
    unfolding map_frame_def ue(2) fl e_def by (simp only: Let_def)
  also have "\<dots> = s\<lparr>mem := st32 m2 (of_nat (KD + 135168 + 4 * k)) e\<rparr>"
    unfolding s1 Let_def using add ne f(1) by (simp del: of_nat_add of_nat_mult)
  also have "st32 m2 (of_nat (KD + 135168 + 4 * k)) e = page_words KD ND q k (mem s)"
    by (simp only: page_words_def m2_def m1_def e_def Let_def mult.commute [of 4096 k])
  finally show ?thesis .
qed

text \<open>The next page of the process comes from the least free frame, which is frame \<open>k\<close>.\<close>

lemma user_page:
  assumes r: "page_room KD ND (4080 + length fs) k" and st: "kmap KD k s" and p: "pspace ND fs (mem s)"
  shows "\<exists>m. alloc_page (of_nat ND) (of_nat ((4080 + length fs) * 4096)) 1 1 s = Some (Ret (of_nat (k * 4096)) (s\<lparr>mem := m\<rparr>)) \<and>
    kmap KD (Suc k) (s\<lparr>mem := m\<rparr>) \<and> pspace ND (fs @ [k]) m \<and>
    (\<forall>x. unat x < KD \<or> KD + 151552 \<le> unat x \<longrightarrow> unat x < ND \<or> ND + 20420 + 4 * length fs \<le> unat x \<longrightarrow> m x = mem s x)"
proof -
  let ?q = "4080 + length fs"
  have used: "frame_used (mem s) (frames s) i \<longleftrightarrow> i < k" if "i < 1048576" for i
    using kstate_frame_used [OF st [unfolded kmap_def] that] by simp
  have "alloc_page (of_nat ND) (of_nat (?q * 4096)) 1 1 s = Some (Ret (of_nat (k * 4096))
      (map_frame (of_nat ND) (of_nat (?q * 4096)) (of_nat (k * 4096)) (1 \<noteq> (0 :: u32)) (1 \<noteq> (0 :: u32)) s))"
    using page_roomD(5) [OF r] used user_entries(1) [OF page_roomD(2,4) [OF r] p] by (intro alloc_page_frame) simp_all
  then show ?thesis
    using map_frame_user [OF r st p] page_words_kmap [OF r st] page_words_pspace [OF r p] page_words_outside [OF r]
    by (intro exI [of _ "page_words KD ND ?q k (mem s)"]) simp
qed

text \<open>What the processor does with such a directory.\<close>

lemma pspace_walk:
  assumes p: "pspace ND fs m" and room: "mroom ND" and n: "length fs \<le> 16" and fs: "\<forall>f \<in> set fs. f < 1048576"
    and q: "unat va div 4096 < 4080 + length fs"
  shows "walk m (of_nat ND) va =
    Some (of_nat (4096 * (if unat va div 4096 < 4080 then unat va div 4096 else fs ! (unat va div 4096 - 4080))) OR (va AND 0xFFF))"
proof -
  define k where "k = unat va div 4096"
  define f where "f = (if k < 4080 then k else fs ! (k - 4080))"
  define pg :: u32 where "pg = of_nat (4096 * f)"
  define i :: u32 where "i = of_nat (k * 4096)"
  have k: "k < 4096" "k div 1024 < 4" using q n by (simp_all add: k_def div_less_iff_less_mult)
  have "f < 1048576" using fs q by (auto simp: f_def k_def)
  then have pm: "unat pg mod 4096 = 0" unfolding pg_def by (subst unat_of_nat_32) simp_all
  have ui: "unat i = k * 4096" unfolding i_def using k by (intro unat_of_nat_32) simp
  have same: "dir_entry (of_nat ND) va = dir_entry (of_nat ND) i"
    "table_entry m (of_nat ND) va = table_entry m (of_nat ND) i"
    using ui by (simp_all add: dir_entry_def table_entry_def table_index_of_nat page_index_of_nat k_def)
  note en = user_entries [OF room k(1) p, folded i_def]
  have pte: "ld32 m (of_nat (ND + 4096 + 4 * k)) = pg OR 3"
    using p q unfolding pspace_def word_at_def [symmetric] pg_def f_def k_def by blast
  have aligned: "unat (of_nat ND :: u32) mod 4096 = 0"
    using room by (subst unat_of_nat_32) (simp_all add: mroom_def)
  have "walk m (of_nat ND) va = Some (pg OR (va AND 0xFFF))"
    using en pte entry_flag [OF pm, of 3] entry_page [OF pm, of 3]
    by (simp add: walk_entries [OF aligned] same del: of_nat_add)
  then show ?thesis by (simp only: pg_def f_def k_def)
qed

end
