(* ===== verification/MainProcesses.thy ===== *)
theory MainProcesses
  imports UserPages
begin

text \<open>
  \<open>lol\<close> of \<open>p_mode/main.c\<close>, the first process: it makes the two processes \<open>proc2\<close> and \<open>proc3\<close>, each with a
  directory of its own, a page for its stack and a page for its heap, and puts them into the process
  table. The two halves of the function are the same code on the two global variables;
  \<open>process_variable\<close> is the interface of such a variable.
\<close>

record boot = tss +
  proc2 :: process
  proc3 :: process

section \<open>The code\<close>

definition process_regs :: "u32 \<Rightarrow> regs \<Rightarrow> regs" where
  "process_regs eip regis = regis\<lparr>r_ds := 0x10, r_cs := 0x08, r_eip := eip, r_ss := 0x10, r_es := 0x10,
     r_fs := 0x10, r_gs := 0x10, r_eflags := 0x202\<rparr>"

definition new_process ::
  "('a boot_scheme \<Rightarrow> process) \<Rightarrow> ((process \<Rightarrow> process) \<Rightarrow> 'a boot_scheme \<Rightarrow> 'a boot_scheme) \<Rightarrow> u32 \<Rightarrow> regs \<Rightarrow>
   'a boot_scheme \<Rightarrow> (regs, 'a boot_scheme) result" where
  "new_process get upd eip regis s =
     (let (d, s) = get_new_kernel_mapped_dir s;
          s = upd (\<lambda>p. p\<lparr>page_directory := d, priority_level := 0\<rparr>) s;
          regis = process_regs eip regis
      in and_then (alloc_page (page_directory (get s)) KERNEL_MEM_END 1 1 s) (\<lambda>_ s.
         and_then (alloc_page (page_directory (get s)) (KERNEL_MEM_END + 0x1000) 1 1 s) (\<lambda>_ s.
           let regis = regis\<lparr>r_useresp := KERNEL_MEM_END + 0x1000\<rparr>;
               regis = regis\<lparr>r_ebp := r_useresp regis\<rparr>;
               s = upd (\<lambda>p. p\<lparr>heap_stack_boundary := r_ebp regis, heap_size := 0x1000, last_state_regs := regis\<rparr>) s
           in case add_process (get s) s of None \<Rightarrow> None | Some (_, s) \<Rightarrow> Some (Ret regis s))))"

text \<open>\<open>regis\<close> is a local variable that starts uninitialised; the final \<open>while(1);\<close> is \<open>Halt\<close>.\<close>

definition lol :: "u32 \<Rightarrow> u32 \<Rightarrow> regs \<Rightarrow> 'a boot_scheme \<Rightarrow> (unit, 'a boot_scheme) result" where
  "lol lol2_addr lol3_addr regis s =
     and_then (new_process proc2 proc2_update lol2_addr regis s) (\<lambda>regis s.
     and_then (new_process proc3 proc3_update lol3_addr regis s) (\<lambda>_ s. Some (Halt s)))"

section \<open>A global variable of type process\<close>

text \<open>The variable when \<open>new_process\<close> is done, with its directory at \<open>ND\<close>.\<close>

definition ready_process :: "u32 \<Rightarrow> regs \<Rightarrow> nat \<Rightarrow> process \<Rightarrow> process" where
  "ready_process eip regis ND p = p\<lparr>page_directory := of_nat ND, priority_level := 0,
     heap_stack_boundary := KERNEL_MEM_END + 0x1000, heap_size := 0x1000,
     last_state_regs := (process_regs eip regis)\<lparr>r_useresp := KERNEL_MEM_END + 0x1000, r_ebp := KERNEL_MEM_END + 0x1000\<rparr>\<rparr>"

locale process_variable =
  fixes get :: "'a boot_scheme \<Rightarrow> process"
    and upd :: "(process \<Rightarrow> process) \<Rightarrow> 'a boot_scheme \<Rightarrow> 'a boot_scheme"
  assumes get_upd: "get (upd f s) = f (get s)"
    and upd_upd: "upd f (upd g s) = upd (\<lambda>p. f (g p)) s"
    and get_other: "get (s\<lparr>mem := m\<rparr>) = get s" "get (s\<lparr>place_addr := a\<rparr>) = get s" "get (s\<lparr>proc_arr := ps\<rparr>) = get s"
    and upd_other: "upd f (s\<lparr>mem := m\<rparr>) = upd f s\<lparr>mem := m\<rparr>" "upd f (s\<lparr>place_addr := a\<rparr>) = upd f s\<lparr>place_addr := a\<rparr>"
      "upd f (s\<lparr>proc_arr := ps\<rparr>) = upd f s\<lparr>proc_arr := ps\<rparr>"
    and other_upd: "mem (upd f s) = mem s" "place_addr (upd f s) = place_addr s" "proc_arr (upd f s) = proc_arr s"
      "kernel_directory (upd f s) = kernel_directory s" "frames (upd f s) = frames s"
begin

lemmas laws = get_upd upd_upd get_other upd_other other_upd

lemma kmap_upd: "kmap KD k (upd f s) = kmap KD k s"
  by (simp add: kmap_def kstate_def other_upd)

lemma new_process_runs:
  fixes s :: "'a boot_scheme"
  defines "ND \<equiv> page_up (unat (place_addr s))"
  assumes room: "page_room KD ND 4081 (Suc k)" and st: "kmap KD k s"
    and free: "free_slot (proc_arr s) 0 = Some i"
  shows "\<exists>m. new_process get upd eip regis s =
      Some (Ret ((process_regs eip regis)\<lparr>r_useresp := KERNEL_MEM_END + 0x1000, r_ebp := KERNEL_MEM_END + 0x1000\<rparr>)
        (upd (ready_process eip regis ND) s\<lparr>mem := m, place_addr := of_nat (ND + 20480),
           proc_arr := (proc_arr s)[i := (ready_process eip regis ND (get s))\<lparr>pid := of_nat i\<rparr>]\<rparr>)) \<and>
    kmap KD (Suc (Suc k)) (s\<lparr>mem := m\<rparr>) \<and> pspace ND [k, Suc k] m \<and>
    (\<forall>x. unat x < KD \<or> KD + 151552 \<le> unat x \<longrightarrow> unat x < ND \<or> ND + 20424 \<le> unat x \<longrightarrow> m x = mem s x)"
proof -
  have r0: "page_room KD ND 4080 k" using room by (simp add: page_room_def)
  note b = page_roomD [OF r0]
  obtain t where t: "get_new_kernel_mapped_dir s = (of_nat ND, t)" "mirror ND 4 4080 t"
    "t = s\<lparr>mem := mem t, place_addr := place_addr t\<rparr>"
    "\<forall>x. unat x < ND \<or> ND + 20416 \<le> unat x \<longrightarrow> mem t x = mem s x"
    using get_new_kernel_mapped_dir_mirror [of s] b(2) unfolding ND_def by blast
  have pt: "place_addr t = of_nat (ND + 20480)" using t(2) by (simp add: mirror_def)
  have kt: "kmap KD k t"
  proof (rule kmap_cong [OF st b(1)])
    show "mem t x = mem s x" if "KD \<le> unat x" "unat x < KD + 151552" for x using that t(4) b(3) by auto
  qed (subst t(3), simp)+
  define f0 :: "process \<Rightarrow> process" where "f0 = (\<lambda>p. p\<lparr>page_directory := of_nat ND, priority_level := 0\<rparr>)"
  define f1 :: "process \<Rightarrow> process" where "f1 = (\<lambda>p. p\<lparr>heap_stack_boundary := KERNEL_MEM_END + 0x1000, heap_size := 0x1000,
     last_state_regs := (process_regs eip regis)\<lparr>r_useresp := KERNEL_MEM_END + 0x1000, r_ebp := KERNEL_MEM_END + 0x1000\<rparr>\<rparr>)"
  define u where "u = upd f0 t"
  have u: "mem u = mem t" "kmap KD k u" "page_directory (get u) = of_nat ND"
    using kt by (simp_all add: u_def f0_def laws kmap_upd)
  obtain m1 where m1: "alloc_page (of_nat ND) KERNEL_MEM_END 1 1 u = Some (Ret (of_nat (k * 4096)) (u\<lparr>mem := m1\<rparr>))"
    "kmap KD (Suc k) (u\<lparr>mem := m1\<rparr>)" "pspace ND [k] m1"
    "\<forall>x. unat x < KD \<or> KD + 151552 \<le> unat x \<longrightarrow> unat x < ND \<or> ND + 20420 \<le> unat x \<longrightarrow> m1 x = mem t x"
    using user_page [of KD ND "[]" k u] r0 u(1,2) mirror_pspace [OF t(2)] by (auto simp: KERNEL_MEM_END_def)
  obtain m2 where m2: "alloc_page (of_nat ND) (KERNEL_MEM_END + 0x1000) 1 1 (u\<lparr>mem := m1\<rparr>) =
      Some (Ret (of_nat (Suc k * 4096)) (u\<lparr>mem := m2\<rparr>))"
    "kmap KD (Suc (Suc k)) (u\<lparr>mem := m2\<rparr>)" "pspace ND [k, Suc k] m2"
    "\<forall>x. unat x < KD \<or> KD + 151552 \<le> unat x \<longrightarrow> unat x < ND \<or> ND + 20424 \<le> unat x \<longrightarrow> m2 x = m1 x"
    using user_page [of KD ND "[k]" "Suc k" "u\<lparr>mem := m1\<rparr>"] room m1(2,3) by (auto simp: KERNEL_MEM_END_def)
  have fin: "upd f1 (u\<lparr>mem := m2\<rparr>) = upd (ready_process eip regis ND) s\<lparr>mem := m2, place_addr := of_nat (ND + 20480)\<rparr>"
  proof -
    have "(\<lambda>p. f1 (f0 p)) = ready_process eip regis ND" by (rule ext) (simp add: f1_def f0_def ready_process_def)
    then have "upd f1 (u\<lparr>mem := m2\<rparr>) = upd (ready_process eip regis ND) t\<lparr>mem := m2\<rparr>" by (simp add: u_def laws)
    also have "upd (ready_process eip regis ND) t = upd (ready_process eip regis ND) s\<lparr>mem := mem t, place_addr := place_addr t\<rparr>"
      by (subst t(3)) (simp only: upd_other)
    finally show ?thesis by (cases "upd (ready_process eip regis ND) s") (simp add: pt)
  qed
  have run: "new_process get upd eip regis s =
      (case add_process (get (upd f1 (u\<lparr>mem := m2\<rparr>))) (upd f1 (u\<lparr>mem := m2\<rparr>)) of None \<Rightarrow> None
       | Some (_, s) \<Rightarrow> Some (Ret ((process_regs eip regis)\<lparr>r_useresp := KERNEL_MEM_END + 0x1000, r_ebp := KERNEL_MEM_END + 0x1000\<rparr>) s))"
    using t(1) m1(1) m2(1) u(3) by (simp add: new_process_def Let_def f0_def [symmetric] u_def [symmetric] get_other f1_def split: option.split)
  have "get (upd f1 (u\<lparr>mem := m2\<rparr>)) = ready_process eip regis ND (get s)" unfolding fin by (simp add: laws)
  moreover have "proc_arr (upd f1 (u\<lparr>mem := m2\<rparr>)) = proc_arr s" unfolding fin by (simp add: laws)
  ultimately have "new_process get upd eip regis s =
      Some (Ret ((process_regs eip regis)\<lparr>r_useresp := KERNEL_MEM_END + 0x1000, r_ebp := KERNEL_MEM_END + 0x1000\<rparr>)
        (upd (ready_process eip regis ND) s\<lparr>mem := m2, place_addr := of_nat (ND + 20480),
           proc_arr := (proc_arr s)[i := (ready_process eip regis ND (get s))\<lparr>pid := of_nat i\<rparr>]\<rparr>))"
    unfolding run using free by (simp add: add_process_def fin)
  moreover have "kmap KD (Suc (Suc k)) (s\<lparr>mem := m2\<rparr>)"
  proof (rule kmap_cong [OF m2(2) b(1)])
    show "kernel_directory (s\<lparr>mem := m2\<rparr>) = kernel_directory (u\<lparr>mem := m2\<rparr>)" "frames (s\<lparr>mem := m2\<rparr>) = frames (u\<lparr>mem := m2\<rparr>)"
      by (simp_all add: u_def laws) (subst t(3), simp)+
  qed simp
  moreover have "m2 x = mem s x" if "unat x < KD \<or> KD + 151552 \<le> unat x" "unat x < ND \<or> ND + 20424 \<le> unat x" for x
    using that m1(4) m2(4) t(4) by auto
  ultimately show ?thesis using m2(3) by blast
qed

end

interpretation p2: process_variable proc2 proc2_update
  by unfold_locales simp_all

interpretation p3: process_variable proc3 proc3_update
  by unfold_locales simp_all

section \<open>The two processes\<close>

lemma next_free_slot:
  assumes "procs_ok ps" "\<forall>i. live ps i \<longleftrightarrow> i < n" "n < 32"
  shows "free_slot ps 0 = Some n"
proof -
  have "length ps = 32" using assms(1) by (simp add: procs_ok_def MAX_PROC_def)
  then show ?thesis using assms(2,3) by (auto simp: free_slot_Some live_def)
qed

lemma fill_slot:
  assumes "procs_ok ps" "\<forall>i. live ps i \<longleftrightarrow> i < n" "n < 32"
  shows "procs_ok (ps[n := p\<lparr>pid := of_nat n\<rparr>])" "\<forall>i. live (ps[n := p\<lparr>pid := of_nat n\<rparr>]) i \<longleftrightarrow> i < n + 1"
proof -
  show "procs_ok (ps[n := p\<lparr>pid := of_nat n\<rparr>])"
    using assms(1,3) by (intro procs_ok_update) (simp_all add: MAX_PROC_def)
  have l: "length ps = 32" using assms(1) by (simp add: procs_ok_def MAX_PROC_def)
  have "(of_nat n :: u32) \<noteq> -1" using assms(3) by (intro small_not_minus_1) simp
  then show "\<forall>i. live (ps[n := p\<lparr>pid := of_nat n\<rparr>]) i \<longleftrightarrow> i < n + 1"
    using assms(2,3) l by (auto simp: live_def nth_list_update less_Suc_eq)
qed

text \<open>The page at \<open>KERNEL_MEM_END\<close> and the next one.\<close>

lemma two_pages_walk:
  assumes p: "pspace ND [k, Suc k] m" and room: "mroom ND" and k: "4080 \<le> k" "k < 4096"
  shows "va < KERNEL_MEM_END \<Longrightarrow> walk m (of_nat ND) va = Some va"
    "KERNEL_MEM_END \<le> va \<Longrightarrow> va < KERNEL_MEM_END + 0x2000 \<Longrightarrow>
       walk m (of_nat ND) va = Some (va + of_nat (4096 * (k - 4080)))"
proof -
  have w: "walk m (of_nat ND) va = Some (of_nat (4096 * (if unat va div 4096 < 4080 then unat va div 4096
      else [k, Suc k] ! (unat va div 4096 - 4080))) OR (va AND 0xFFF))" if "unat va div 4096 < 4082"
    using pspace_walk [OF p room, of va] that k by simp
  {
    assume va: "va < KERNEL_MEM_END"
    then have q: "unat va div 4096 < 4080"
      by (simp add: KERNEL_MEM_END_def word_less_nat_alt div_less_iff_less_mult)
    have "of_nat (4096 * (unat va div 4096)) OR (va AND 0xFFF) = va"
      using q by (intro page_offset_split) (simp add: unat_of_nat_32 del: of_nat_mult)
    then show "walk m (of_nat ND) va = Some va" using w q by simp
  }
  assume va: "KERNEL_MEM_END \<le> va" "va < KERNEL_MEM_END + 0x2000"
  define q where "q = unat va div 4096"
  have uva: "16711680 \<le> unat va" "unat va < 16719872"
    using va by (simp_all add: KERNEL_MEM_END_def word_less_nat_alt word_le_nat_alt)
  then have q: "4080 \<le> q" "q < 4082" by (simp_all add: q_def less_eq_div_iff_mult_less_eq div_less_iff_less_mult)
  let ?d = "4096 * (k - 4080)"
  have uv: "unat (va + of_nat ?d) = unat va + ?d" using uva k by (intro unat_add_of_nat) simp
  have f: "[k, Suc k] ! (q - 4080) = q + (k - 4080)"
  proof -
    have "q = 4080 \<or> q = 4081" using q by linarith
    then show ?thesis using k by auto
  qed
  have "of_nat (4096 * (q + (k - 4080))) OR ((va + of_nat ?d) AND 0xFFF) = va + of_nat ?d"
    using q k uv by (intro page_offset_split) (simp add: unat_of_nat_32 q_def del: of_nat_mult of_nat_add)
  moreover have "(va + of_nat ?d) AND 0xFFF = va AND 0xFFF"
  proof -
    have e: "(0xFFF :: u32) = mask 12" by (simp add: mask_eq_exp_minus_1)
    show ?thesis unfolding e take_bit_eq_mask [symmetric]
      by (simp add: word_unat_eq_iff take_bit_eq_mod unat_mod uv del: of_nat_mult)
  qed
  ultimately show "walk m (of_nat ND) va = Some (va + of_nat ?d)"
    using w q f by (simp add: q_def [symmetric])
qed

text \<open>The room for two directories behind the kernel's tables, all below \<open>KERNEL_MEM_END\<close>.\<close>

definition two_rooms :: "nat \<Rightarrow> 'a kheap_scheme \<Rightarrow> bool" where
  "two_rooms KD s \<longleftrightarrow> kroom KD \<and> KD + 151552 \<le> unat (place_addr s) \<and>
     page_up (unat (place_addr s)) + 40960 \<le> 0xFF0000"

lemma next_directory: "p mod 4096 = 0 \<Longrightarrow> (p + 20480) mod 4096 = (0 :: nat)"
  by (auto simp: mod_eq_0_iff_dvd intro: dvd_add)

lemma two_rooms_page_room:
  assumes "two_rooms KD s" "q < 4096" "k < 4096"
  shows "page_room KD (page_up (unat (place_addr s))) q k" "page_room KD (page_up (unat (place_addr s)) + 20480) q k"
proof -
  have m: "(page_up (unat (place_addr s)) + 20480) mod 4096 = 0"
    by (rule next_directory [OF page_up_mod])
  show "page_room KD (page_up (unat (place_addr s))) q k" "page_room KD (page_up (unat (place_addr s)) + 20480) q k"
    using assms m page_up_ge [of "unat (place_addr s)"] page_up_mod [of "unat (place_addr s)"]
    by (simp_all add: page_room_def two_rooms_def mroom_def)
qed

text \<open>The state in which \<open>lol\<close> ends.\<close>

lemma lol_runs:
  fixes s :: "'a boot_scheme"
  defines "ND \<equiv> page_up (unat (place_addr s))"
  assumes st: "kmap KD 4080 s" and room: "two_rooms KD s" and ps: "procs_ok (proc_arr s)" "\<forall>i. live (proc_arr s) i \<longleftrightarrow> i < 1"
  shows "\<exists>m r. lol a2 a3 regis s = Some (Halt
      (s\<lparr>mem := m, place_addr := of_nat (ND + 40960),
         proc2 := ready_process a2 regis ND (proc2 s), proc3 := ready_process a3 r (ND + 20480) (proc3 s),
         proc_arr := (proc_arr s)[1 := (ready_process a2 regis ND (proc2 s))\<lparr>pid := of_nat 1\<rparr>,
           2 := (ready_process a3 r (ND + 20480) (proc3 s))\<lparr>pid := of_nat 2\<rparr>]\<rparr>)) \<and>
    kmap KD 4084 (s\<lparr>mem := m\<rparr>) \<and> pspace ND [4080, 4081] m \<and> pspace (ND + 20480) [4082, 4083] m \<and>
    (\<forall>x. unat x < KD \<longrightarrow> m x = mem s x) \<and>
    (\<forall>x. unat x < KD \<or> ND + 20424 \<le> unat x \<longrightarrow> unat x < ND + 20480 \<or> ND + 40904 \<le> unat x \<longrightarrow> m x = mem s x)"
proof -
  note pr = two_rooms_page_room [OF room, folded ND_def]
  define p where "p = ready_process a2 regis ND (proc2 s)"
  define r where "r = (process_regs a2 regis)\<lparr>r_useresp := KERNEL_MEM_END + 0x1000, r_ebp := KERNEL_MEM_END + 0x1000\<rparr>"
  have f1: "free_slot (proc_arr s) 0 = Some 1" by (rule next_free_slot [OF ps]) simp
  have "page_room KD ND 4081 (Suc 4080)" by (rule pr(1)) simp_all
  note run2 = p2.new_process_runs [of KD s 4080 1 a2 regis, folded ND_def, OF this st f1]
  have e2: "proc2_update (ready_process a2 regis ND) s = s\<lparr>proc2 := p\<rparr>" by (cases s) (simp add: p_def)
  from run2 [unfolded e2, folded p_def r_def] obtain m1 where
    m1: "new_process proc2 proc2_update a2 regis s = Some (Ret r (s\<lparr>proc2 := p, mem := m1, place_addr := of_nat (ND + 20480),
      proc_arr := (proc_arr s)[1 := p\<lparr>pid := of_nat 1\<rparr>]\<rparr>))"
    "kmap KD 4082 (s\<lparr>mem := m1\<rparr>)" "pspace ND [4080, 4081] m1"
    "\<forall>x. unat x < KD \<or> KD + 151552 \<le> unat x \<longrightarrow> unat x < ND \<or> ND + 20424 \<le> unat x \<longrightarrow> m1 x = mem s x"
    by auto
  let ?u = "s\<lparr>proc2 := p, mem := m1, place_addr := of_nat (ND + 20480), proc_arr := (proc_arr s)[1 := p\<lparr>pid := of_nat 1\<rparr>]\<rparr>"
  have b: "ND + 40960 \<le> 16711680" "KD + 151552 \<le> ND" "KD + 151552 \<le> 16711680"
    using room page_up_ge [of "unat (place_addr s)"] by (simp_all add: two_rooms_def ND_def kroom_def)
  have "unat (of_nat (ND + 20480) :: u32) = ND + 20480" using b by (intro unat_of_nat_32) simp
  moreover have "(ND + 20480) mod 4096 = 0" unfolding ND_def by (rule next_directory [OF page_up_mod])
  ultimately have ND3: "page_up (unat (place_addr ?u)) = ND + 20480" by simp
  have ku: "kmap KD 4082 ?u" using m1(2) by (simp add: kmap_def kstate_def)
  have f2: "free_slot (proc_arr ?u) 0 = Some 2"
    using fill_slot [OF ps, of p] by (intro next_free_slot) (simp_all add: numeral_2_eq_2)
  have "page_room KD (page_up (unat (place_addr ?u))) 4081 (Suc 4082)" unfolding ND3 by (rule pr(2)) simp_all
  note run3 = p3.new_process_runs [of KD ?u 4082 2 a3 r, OF this ku f2, unfolded ND3]
  define q where "q = ready_process a3 r (ND + 20480) (proc3 ?u)"
  have e3: "proc3_update (ready_process a3 r (ND + 20480)) ?u = ?u\<lparr>proc3 := q\<rparr>" by (cases s) (simp add: q_def)
  from run3 [unfolded e3, folded q_def] obtain m r' where
    m: "new_process proc3 proc3_update a3 r ?u = Some (Ret r' (?u\<lparr>proc3 := q, mem := m, place_addr := of_nat (ND + 20480 + 20480),
       proc_arr := (proc_arr ?u)[2 := q\<lparr>pid := of_nat 2\<rparr>]\<rparr>))"
    "kmap KD 4084 (?u\<lparr>mem := m\<rparr>)" "pspace (ND + 20480) [4082, 4083] m"
    "\<forall>x. unat x < KD \<or> KD + 151552 \<le> unat x \<longrightarrow> unat x < ND + 20480 \<or> ND + 20480 + 20424 \<le> unat x \<longrightarrow> m x = mem ?u x"
    by auto
  have "pspace ND [4080, 4081] m"
  proof (rule pspace_cong [OF m1(3)])
    show "mroom ND" using page_roomD(2) [OF pr(1) [of 0 0]] by simp
    show "m x = m1 x" if "ND \<le> unat x" "unat x < ND + 20480" for x using m(4) that b by simp
  qed simp
  moreover have "m x = mem s x" if "unat x < KD" for x using m(4) m1(4) that b by simp
  moreover have "m x = mem s x"
    if "unat x < KD \<or> ND + 20424 \<le> unat x" "unat x < ND + 20480 \<or> ND + 40904 \<le> unat x" for x
    using m(4) m1(4) that b by auto
  moreover have "kmap KD 4084 (s\<lparr>mem := m\<rparr>)" using m(2) by (simp add: kmap_def kstate_def)
  moreover have "lol a2 a3 regis s = Some (Halt
      (s\<lparr>mem := m, place_addr := of_nat (ND + 40960), proc2 := p, proc3 := ready_process a3 r (ND + 20480) (proc3 s),
         proc_arr := (proc_arr s)[1 := p\<lparr>pid := of_nat 1\<rparr>, 2 := (ready_process a3 r (ND + 20480) (proc3 s))\<lparr>pid := of_nat 2\<rparr>]\<rparr>))"
    using m1(1) m(1) by (cases s) (simp add: lol_def q_def)
  ultimately show ?thesis using m(3) unfolding p_def by blast
qed

text \<open>The addresses behind the two pages. Up to 16 MB the entries are those at the end of the directory's last table, which
  \<open>get_new_kernel_mapped_dir\<close> does not clear: \<open>tail_clear\<close> says that the memory the table is made of marks none
  of them as present. From 16 MB on there is no table.\<close>

definition tail_clear :: "nat \<Rightarrow> mem \<Rightarrow> bool" where
  "tail_clear ND m \<longleftrightarrow> (\<forall>q \<in> {4082..<4096}. ld32 m (of_nat (ND + 4096 + 4 * q)) AND 1 = 0)"

lemma pspace_walk_high:
  assumes p: "pspace ND fs m" and room: "mroom ND" and va: "0x1000000 \<le> va"
  shows "walk m (of_nat ND) va = None"
proof -
  define s :: paging where "s = undefined\<lparr>mem := m\<rparr>"
  have "pspace ND fs (mem s)" using p by (simp add: s_def)
  from mirror_walk_high [OF pspace_mirror [OF this] room va] show ?thesis by (simp add: s_def)
qed

lemma pspace_walk_tail:
  assumes p: "pspace ND fs m" and room: "mroom ND" and clear: "tail_clear ND m"
    and va: "KERNEL_MEM_END + 0x2000 \<le> va"
  shows "walk m (of_nat ND) va = None"
proof (cases "0x1000000 \<le> va")
  case True
  then show ?thesis by (rule pspace_walk_high [OF p room])
next
  case False
  define k where "k = unat va div 4096"
  have u: "16719872 \<le> unat va" "unat va < 16777216"
    using va False by (simp_all add: KERNEL_MEM_END_def word_le_nat_alt not_le word_less_nat_alt)
  then have k: "4082 \<le> k" "k < 4096"
    by (simp_all add: k_def less_eq_div_iff_mult_less_eq div_less_iff_less_mult)
  define i :: u32 where "i = of_nat (k * 4096)"
  have ui: "unat i = k * 4096" unfolding i_def using k by (intro unat_of_nat_32) simp
  have same: "dir_entry (of_nat ND) va = dir_entry (of_nat ND) i"
    "table_entry m (of_nat ND) va = table_entry m (of_nat ND) i"
    using ui by (simp_all add: dir_entry_def table_entry_def table_index_of_nat page_index_of_nat k_def)
  have aligned: "unat (of_nat ND :: u32) mod 4096 = 0"
    using room by (subst unat_of_nat_32) (simp_all add: mroom_def)
  have "ld32 m (of_nat (ND + 4096 + 4 * k)) AND 1 = 0" using clear k by (simp add: tail_clear_def del: of_nat_add of_nat_mult)
  then show ?thesis using user_entries [OF room k(2) p, folded i_def]
    by (simp add: walk_entries [OF aligned] same del: of_nat_add of_nat_mult)
qed

lemma tail_clear_cong:
  assumes "mroom ND" "\<And>x. ND + 20424 \<le> unat x \<Longrightarrow> unat x < ND + 20480 \<Longrightarrow> m' x = m x"
  shows "tail_clear ND m' = tail_clear ND m"
proof -
  have "ld32 m' (of_nat (ND + 4096 + 4 * q)) = ld32 m (of_nat (ND + 4096 + 4 * q))" if "q \<in> {4082..<4096}" for q
  proof (rule s32.ld_cong)
    fix x assume x: "x \<in> region (of_nat (ND + 4096 + 4 * q)) 4"
    have "unat (of_nat (ND + 4096 + 4 * q) :: u32) = ND + 4096 + 4 * q"
      using assms(1) that by (intro unat_of_nat_32) (simp add: mroom_def)
    with x assms(1) that show "m' x = m x" by (intro assms(2)) (simp_all add: region_iff mroom_def del: of_nat_add of_nat_mult)
  qed
  then show ?thesis unfolding tail_clear_def by (intro ball_cong refl) (simp del: of_nat_add of_nat_mult)
qed

section \<open>Properties\<close>

text \<open>C17. \<open>lol\<close>, started by the scheduler once \<open>main\<close> has returned, gives each of the two processes a slot in
  the process table and a directory of its own. Both directories, like the kernel's, show the kernel's
  memory at its own addresses; the stack page at \<open>KERNEL_MEM_END\<close> and the heap page behind it are four
  different frames; from 16 MB on nothing is mapped. Between the heap page and 16 MB the directories have whatever the memory behind
  the allocator held, because the code does not clear the last table; when that memory marks no entry as present, nothing is
  mapped there either, so that no address of one process is mapped to a private page of the other. This is about what the directories
  map: both processes run in ring 0 and can write the kernel's memory, the directories and the tables in it.\<close>

theorem processes_isolated:
  fixes s :: "'a boot_scheme"
  defines "ND \<equiv> page_up (unat (place_addr s))"
  assumes "kmap KD 4080 s" and "two_rooms KD s" and "sched_ok s" and "\<forall>i. live (proc_arr s) i \<longleftrightarrow> i = 0"
  shows "\<exists>t d2 d3. lol a2 a3 regis s = Some (Halt t) \<and> sched_ok t \<and> (\<forall>i. live (proc_arr t) i \<longleftrightarrow> i < 3) \<and>
    proc_arr t ! 0 = proc_arr s ! 0 \<and>
    page_directory (proc_arr t ! 1) = d2 \<and> page_directory (proc_arr t ! 2) = d3 \<and>
    r_eip (last_state_regs (proc_arr t ! 1)) = a2 \<and> r_eip (last_state_regs (proc_arr t ! 2)) = a3 \<and>
    (\<forall>i \<in> {1, 2}. r_useresp (last_state_regs (proc_arr t ! i)) = KERNEL_MEM_END + 0x1000 \<and>
       heap_stack_boundary (proc_arr t ! i) = KERNEL_MEM_END + 0x1000 \<and> heap_size (proc_arr t ! i) = 0x1000) \<and>
    (\<forall>va. va < KERNEL_MEM_END \<longrightarrow> walk (mem t) d2 va = Some va \<and> walk (mem t) d3 va = Some va \<and>
       walk (mem t) (kernel_directory t) va = Some va) \<and>
    (\<forall>va. KERNEL_MEM_END \<le> va \<longrightarrow> va < KERNEL_MEM_END + 0x2000 \<longrightarrow>
       walk (mem t) d2 va = Some va \<and> walk (mem t) d3 va = Some (va + 0x2000)) \<and>
    (\<forall>va. 0x1000000 \<le> va \<longrightarrow> walk (mem t) d2 va = None \<and> walk (mem t) d3 va = None) \<and>
    (tail_clear ND (mem s) \<and> tail_clear (ND + 20480) (mem s) \<longrightarrow>
       (\<forall>va. KERNEL_MEM_END + 0x2000 \<le> va \<longrightarrow> walk (mem t) d2 va = None \<and> walk (mem t) d3 va = None)) \<and>
    (\<forall>x. unat x < KD \<longrightarrow> mem t x = mem s x)"
proof -
  have ps: "procs_ok (proc_arr s)" "\<forall>i. live (proc_arr s) i \<longleftrightarrow> i < 1" using assms(4,5) by (simp_all add: sched_ok_def)
  obtain m r where m: "lol a2 a3 regis s = Some (Halt
      (s\<lparr>mem := m, place_addr := of_nat (ND + 40960),
         proc2 := ready_process a2 regis ND (proc2 s), proc3 := ready_process a3 r (ND + 20480) (proc3 s),
         proc_arr := (proc_arr s)[1 := (ready_process a2 regis ND (proc2 s))\<lparr>pid := of_nat 1\<rparr>,
           2 := (ready_process a3 r (ND + 20480) (proc3 s))\<lparr>pid := of_nat 2\<rparr>]\<rparr>))" (is "_ = Some (Halt ?t)")
    "kmap KD 4084 (s\<lparr>mem := m\<rparr>)" "pspace ND [4080, 4081] m" "pspace (ND + 20480) [4082, 4083] m"
    "\<forall>x. unat x < KD \<longrightarrow> m x = mem s x"
    "\<forall>x. unat x < KD \<or> ND + 20424 \<le> unat x \<longrightarrow> unat x < ND + 20480 \<or> ND + 40904 \<le> unat x \<longrightarrow> m x = mem s x"
    using lol_runs [OF assms(2,3) ps, folded ND_def] by blast
  note fl = fill_slot [OF ps, of "ready_process a2 regis ND (proc2 s)"]
  have pt: "procs_ok (proc_arr ?t)" "\<forall>i. live (proc_arr ?t) i \<longleftrightarrow> i < 3"
    using fill_slot [of _ 2 "ready_process a3 r (ND + 20480) (proc3 s)", OF fl(1)] fl(2)
    by (simp_all add: numeral_2_eq_2 numeral_3_eq_3)
  have len: "length (proc_arr s) = 32" using ps(1) by (simp add: procs_ok_def MAX_PROC_def)
  have "sched_ok ?t" using assms(4,5) pt by (simp add: sched_ok_def)
  moreover have "walk m (kernel_directory ?t) va = Some va" if "va < KERNEL_MEM_END" for va
  proof -
    have "unat va div 4096 < 4084"
      using that by (simp add: KERNEL_MEM_END_def word_less_nat_alt div_less_iff_less_mult)
    then show ?thesis
      using kstate_walk_pages [OF m(2) [unfolded kmap_def], of va] assms(3) by (simp add: two_rooms_def)
  qed
  moreover have rm: "mroom ND" "mroom (ND + 20480)"
    using two_rooms_page_room [OF assms(3), of 0 0] by (simp_all add: page_room_def ND_def)
  moreover have "walk m (of_nat ND) va = None \<and> walk m (of_nat (ND + 20480)) va = None"
    if "tail_clear ND (mem s) \<and> tail_clear (ND + 20480) (mem s)" "KERNEL_MEM_END + 0x2000 \<le> va" for va
  proof -
    have "tail_clear ND m" "tail_clear (ND + 20480) m"
      using that(1) tail_clear_cong [OF rm(1), of m "mem s"] tail_clear_cong [OF rm(2), of m "mem s"] m(6) by auto
    then show ?thesis using pspace_walk_tail [OF m(3) rm(1) _ that(2)] pspace_walk_tail [OF m(4) rm(2) _ that(2)] by blast
  qed
  ultimately show ?thesis
    using two_pages_walk [of ND 4080 m] two_pages_walk [of "ND + 20480" 4082 m] m(1-5) pt(2) len
      pspace_walk_high [OF m(3) rm(1)] pspace_walk_high [OF m(4) rm(2)]
    by (intro exI [of _ ?t] exI [of _ "of_nat ND"] exI [of _ "of_nat (ND + 20480)"])
      (simp add: ready_process_def process_regs_def)
qed

section \<open>Witness: after main\<close>

definition demo_main :: boot where
  "demo_main = tss.extend demo_boot \<lparr>proc2 = hd (proc_arr demo_boot), proc3 = hd (proc_arr demo_boot)\<rparr>"

lemma demo_main_ok: "boot_room demo_main" "idt_page demo_main = 0x100000" "length (irq_routines demo_main) = 16"
  "controller_ok demo_main" "timer_ticks demo_main = 0" "is_first_run demo_main \<noteq> 0"
proof -
  have p: "unat (place_addr demo_main) = 0xF0000" by (simp add: demo_main_def demo_boot_def tss.defs)
  then show i: "idt_page demo_main = 0x100000" by (simp add: idt_page_def)
  show "boot_room demo_main" using p i by (simp add: boot_room_def kroom_def)
  show "length (irq_routines demo_main) = 16" "timer_ticks demo_main = 0" "is_first_run demo_main \<noteq> 0"
    by (simp_all add: demo_main_def demo_boot_def tss.defs)
  show "controller_ok demo_main"
    by (simp add: controller_ok_def demo_main_def demo_boot_def demo_tss_def demo_keyboard_def keyboard.defs tss.defs)
qed

lemma demo_main_started:
  obtains t where "main demo_addresses 0x7C00 0x25000 0x21000 demo_main = Some (Ret () t)"
    "started demo_addresses 0x100000 0x21000 t"
  using that main_starts [OF demo_main_ok(1,3,4), of demo_addresses "0x7C00" "0x25000" "0x21000"] demo_main_ok(2) by auto

lemma demo_main_ready:
  obtains s where "main demo_addresses 0x7C00 0x25000 0x21000 demo_main = Some (Ret () s)"
    "kmap 0x101000 4080 s" "two_rooms 0x101000 s" "sched_ok s" "\<forall>i. live (proc_arr s) i \<longleftrightarrow> i = 0" "cursor_ok s"
proof -
  obtain s where s: "main demo_addresses 0x7C00 0x25000 0x21000 demo_main = Some (Ret () s)"
    "started demo_addresses 0x100000 0x21000 s" by (rule demo_main_started)
  have "kroom 0x101000" "unat (place_addr s) = 0x127C00" using s(2) by (simp_all add: started_def ready_def)
  moreover have "page_up 0x127C00 = 0x128000" by (simp add: page_up_def)
  ultimately have "two_rooms 0x101000 s" by (simp add: two_rooms_def)
  then show ?thesis
    using that [OF s(1)] s(2) by (simp add: started_def ready_def sched_ok_def kernel_ok_def MAX_PROC_def)
qed

text \<open>The state after \<open>main\<close>, with the memory behind the allocator zero, as a machine starts.\<close>

definition wiped :: "'a machine_scheme \<Rightarrow> 'a machine_scheme" where
  "wiped s = s\<lparr>mem := \<lambda>x. if 0x128000 \<le> unat x then 0 else mem s x\<rparr>"

lemma wiped_tail_clear:
  assumes "0x128000 \<le> N" "N + 20480 \<le> 4294967295"
  shows "tail_clear N (mem (wiped s))"
proof -
  have "ld32 (mem (wiped s)) (of_nat (N + 4096 + 4 * q)) = 0" if "q \<in> {4082..<4096}" for q
  proof -
    have "unat (of_nat (N + 4096 + 4 * q) :: u32) = N + 4096 + 4 * q" using assms that by (intro unat_of_nat_32) simp
    then have "ld32 (mem (wiped s)) (of_nat (N + 4096 + 4 * q)) = ld32 (\<lambda>_. 0) (of_nat (N + 4096 + 4 * q))"
      using assms that by (intro s32.ld_cong) (simp add: wiped_def region_iff del: of_nat_add of_nat_mult)
    then show ?thesis by (simp add: ld32_def)
  qed
  then show ?thesis by (simp add: tail_clear_def del: of_nat_add of_nat_mult)
qed

lemma processes_isolated_witness:
  "\<exists>s t d2 d3. main demo_addresses 0x7C00 0x25000 0x21000 demo_main = Some (Ret () s) \<and>
    lol 0x22000 0x23000 (last_state_regs (proc2 demo_main)) (wiped s) = Some (Halt t) \<and> live (proc_arr t) 2 \<and>
    walk (mem t) d2 0xFF0FFC = Some 0xFF0FFC \<and> walk (mem t) d3 0xFF0FFC = Some 0xFF2FFC \<and>
    walk (mem t) d2 0xFF2FFC = None \<and> walk (mem t) d3 0xFF3FFC = None"
proof -
  obtain s where s: "main demo_addresses 0x7C00 0x25000 0x21000 demo_main = Some (Ret () s)"
    "started demo_addresses 0x100000 0x21000 s" by (rule demo_main_started)
  have pl: "kroom 0x101000" "unat (place_addr (wiped s)) = 0x127C00" using s(2) by (simp_all add: started_def ready_def wiped_def)
  moreover have pu: "page_up 0x127C00 = 0x128000" by (simp add: page_up_def)
  ultimately have rooms: "two_rooms 0x101000 (wiped s)" by (simp add: two_rooms_def)
  have km: "kmap 0x101000 4080 (wiped s)"
    by (rule kmap_cong [of _ _ s]) (use s(2) pl(1) in \<open>simp_all add: started_def ready_def wiped_def\<close>)
  have so: "sched_ok (wiped s)" "\<forall>i. live (proc_arr (wiped s)) i \<longleftrightarrow> i = 0"
    using s(2) by (simp_all add: started_def ready_def sched_ok_def kernel_ok_def MAX_PROC_def wiped_def)
  have tc: "tail_clear 0x128000 (mem (wiped s)) \<and> tail_clear (0x128000 + 20480) (mem (wiped s))"
    by (intro conjI wiped_tail_clear) simp_all
  from processes_isolated [OF km rooms so, of "0x22000" "0x23000" "last_state_regs (proc2 demo_main)", unfolded pl(2) pu] obtain t d2 d3 where
    t: "lol 0x22000 0x23000 (last_state_regs (proc2 demo_main)) (wiped s) = Some (Halt t)" "\<forall>i. live (proc_arr t) i \<longleftrightarrow> i < 3"
    "\<forall>va. KERNEL_MEM_END \<le> va \<longrightarrow> va < KERNEL_MEM_END + 0x2000 \<longrightarrow>
       walk (mem t) d2 va = Some va \<and> walk (mem t) d3 va = Some (va + 0x2000)"
    "\<forall>va. KERNEL_MEM_END + 0x2000 \<le> va \<longrightarrow> walk (mem t) d2 va = None \<and> walk (mem t) d3 va = None"
    using tc by blast
  have "walk (mem t) d2 0xFF0FFC = Some 0xFF0FFC" "walk (mem t) d3 0xFF0FFC = Some (0xFF0FFC + 0x2000)"
    using t(3) [rule_format, of "0xFF0FFC"] by (simp_all add: KERNEL_MEM_END_def)
  moreover have "walk (mem t) d2 0xFF2FFC = None" "walk (mem t) d3 0xFF3FFC = None"
    using t(4) [rule_format, of "0xFF2FFC"] t(4) [rule_format, of "0xFF3FFC"] by (simp_all add: KERNEL_MEM_END_def)
  ultimately show ?thesis using s(1) t(1,2) by (intro exI [of _ s] exI [of _ t] exI [of _ d2] exI [of _ d3]) simp
qed

end
