(* ===== verification/TimeSharing.thy ===== *)
theory TimeSharing
  imports MainProcesses
begin

text \<open>
  The timer, the scheduler and the process table together, as one machine: a ready queue in round-robin
  order, a context for every slot, and a count of ticks. The theory proves that any sequence of timer
  interrupts does on the code's state what it does on that machine, and what share of the ticks each
  process gets.
\<close>

section \<open>The abstract machine\<close>

text \<open>The process at the head of \<open>queue\<close> runs and has \<open>ticks_left\<close> ticks to go; \<open>ctx\<close> has the registers with
  which each of the others goes on. \<open>q\<close> is the length of the slice of each slot.\<close>

record round_robin =
  ctx :: "nat \<Rightarrow> regs"
  queue :: "nat list"
  ticks_left :: nat

definition rr_tick :: "(nat \<Rightarrow> nat) \<Rightarrow> regs \<Rightarrow> round_robin \<Rightarrow> regs \<times> round_robin" where
  "rr_tick q r a =
     (if ticks_left a = 1 then
        let c = (ctx a)(hd (queue a) := r); xs = rotate1 (queue a)
        in (c (hd xs), \<lparr>ctx = c, queue = xs, ticks_left = q (hd xs)\<rparr>)
      else (r, a\<lparr>ticks_left := ticks_left a - 1\<rparr>))"

fun rr_ticks :: "(nat \<Rightarrow> nat) \<Rightarrow> regs list \<Rightarrow> round_robin \<Rightarrow> regs list \<times> round_robin" where
  "rr_ticks q [] a = ([], a)"
| "rr_ticks q (r # rs) a =
     (case rr_tick q r a of (r', a) \<Rightarrow> case rr_ticks q rs a of (rs', a) \<Rightarrow> (r' # rs', a))"

section \<open>The abstraction\<close>

definition ready_queue :: "process list \<Rightarrow> nat \<Rightarrow> nat list" where
  "ready_queue ps c = filter (live ps) ([c..<MAX_PROC] @ [0..<c])"

definition quantum :: "'a sched_scheme \<Rightarrow> nat \<Rightarrow> nat" where
  "quantum s i = unat (time_slice (priority_level (proc_arr s ! i)) * freq s div 1000)"

definition abs_sched :: "'a sched_scheme \<Rightarrow> round_robin" where
  "abs_sched s = \<lparr>ctx = (\<lambda>i. last_state_regs (proc_arr s ! i)), queue = ready_queue (proc_arr s) (nat (cur_proc_index s)),
     ticks_left = unat (slice_ticks s) - unat (timer_ticks s)\<rparr>"

text \<open>The invariant: an active scheduler past its first run, within a slice, and no slice so short that it
  would have no tick.\<close>

definition sharing :: "'a sched_scheme \<Rightarrow> bool" where
  "sharing s \<longleftrightarrow> sched_ok s \<and> scheduler_active s \<noteq> 0 \<and> is_first_run s = 0 \<and>
     unat (timer_ticks s) < unat (slice_ticks s) \<and> (\<forall>i. live (proc_arr s) i \<longrightarrow> 0 < quantum s i)"

section \<open>The queue\<close>

lemma gap_cases:
  assumes "i < MAX_PROC" "j < MAX_PROC"
  shows "gap i j = (if i < j then j - 1 - i else j + MAX_PROC - 1 - i)"
proof (cases "i < j")
  case True
  then have "j + MAX_PROC - 1 - i = (j - 1 - i) + MAX_PROC" by simp
  moreover have "j - 1 - i < MAX_PROC" using assms(2) by simp
  ultimately show ?thesis using True by (metis gap_def mod_add_self2 mod_less)
next
  case False
  then show ?thesis using assms by (simp add: gap_def)
qed

lemma ready_queue_hd:
  "live ps c \<Longrightarrow> c < MAX_PROC \<Longrightarrow> ready_queue ps c = c # filter (live ps) ([Suc c..<MAX_PROC] @ [0..<c])"
  by (simp add: ready_queue_def upt_conv_Cons)

lemma filter_none: "(\<And>x. m \<le> x \<Longrightarrow> x < n \<Longrightarrow> \<not> P x) \<Longrightarrow> filter P [m..<n] = []"
  by (auto simp: filter_empty_conv)

lemma upt_split: "i \<le> j \<Longrightarrow> j \<le> k \<Longrightarrow> [i..<k] = [i..<j] @ [j..<k]"
  by (metis upt_add_eq_append le_add_diff_inverse)

lemma ready_queue_next:
  assumes c: "live ps c" "c < MAX_PROC" and ps: "procs_ok ps"
  shows "ready_queue ps (next_live ps MAX_PROC c) = rotate1 (ready_queue ps c)"
proof -
  define j where "j = next_live ps MAX_PROC c"
  have j: "j < MAX_PROC" "live ps j" unfolding j_def using next_live_less next_live_live c by blast+
  have least: "gap c j \<le> gap c x" if "live ps x" for x
    unfolding j_def using next_live_least [OF c(2) live_less [OF ps that] that gap_less] .
  show ?thesis
  proof (cases "c < j")
    case True
    have none: "filter (live ps) [Suc c..<j] = []"
    proof (rule filter_none)
      fix x assume x: "Suc c \<le> x" "x < j"
      show "\<not> live ps x"
      proof
        assume "live ps x"
        from least [OF this] show False using x j c by (simp add: gap_cases)
      qed
    qed
    have "[c..<MAX_PROC] = c # [Suc c..<j] @ [j..<MAX_PROC]" "[0..<j] = [0..<c] @ c # [Suc c..<j]"
      using True j upt_split [of c j MAX_PROC] upt_split [of 0 c j] by (simp_all add: upt_conv_Cons)
    then show ?thesis using c none by (simp add: ready_queue_def j_def [symmetric])
  next
    case False
    have none: "\<not> live ps x" if "c < x \<and> x < MAX_PROC \<or> x < j" for x
    proof
      assume l: "live ps x"
      have "x < MAX_PROC" using that j by auto
      with least [OF l] show False using that False j c by (auto simp: gap_cases split: if_splits)
    qed
    have "filter (live ps) [Suc c..<MAX_PROC] = []" "filter (live ps) [0..<j] = []"
      using none by (auto intro!: filter_none)
    moreover have "[j..<MAX_PROC] = [j..<c] @ c # [Suc c..<MAX_PROC]" "[0..<c] = [0..<j] @ [j..<c]"
      using False c upt_split [of j c MAX_PROC] upt_split [of 0 j c] by (simp_all add: upt_conv_Cons)
    ultimately show ?thesis using c by (simp add: ready_queue_def j_def [symmetric] upt_conv_Cons)
  qed
qed

section \<open>One tick\<close>

lemma quantum_switched [simp]: "quantum (switched i r s\<lparr>time_slice_millis := w, timer_ticks := n\<rparr>) = quantum s"
proof -
  have "freq (switched i r s) = freq s" by (simp add: switched_def Let_def)
  then show ?thesis by (intro ext) (simp add: quantum_def)
qed

lemma hd_queue: "sched_ok s \<Longrightarrow> hd (queue (abs_sched s)) = nat (cur_proc_index s)"
  by (simp add: abs_sched_def ready_queue_hd sched_ok_def nat_less_iff)

lemma tick_simulates:
  assumes "sharing s"
  shows "\<exists>t. timer_handler r s = Some (fst (rr_tick (quantum s) r (abs_sched s)), t) \<and>
    abs_sched t = snd (rr_tick (quantum s) r (abs_sched s)) \<and> sharing t \<and> quantum t = quantum s \<and>
    (\<forall>i. live (proc_arr t) i \<longleftrightarrow> live (proc_arr s) i)"
proof (cases "timer_ticks s + 1 = slice_ticks s")
  case False
  have lt: "unat (timer_ticks s) < unat (slice_ticks s)" using assms by (simp add: sharing_def)
  then have u: "unat (timer_ticks s + 1) = unat (timer_ticks s) + 1"
    using unat_less_2p32 [of "slice_ticks s"] by (subst unat_add_no_wrap) (simp_all del: unat_less_2p32)
  then have ne: "unat (timer_ticks s) + 1 \<noteq> unat (slice_ticks s)" using False by (metis word_unat_eq_iff)
  let ?t = "s\<lparr>timer_ticks := timer_ticks s + 1\<rparr>"
  have "ticks_left (abs_sched s) \<noteq> 1" using lt ne by (simp add: abs_sched_def)
  moreover have "abs_sched ?t = abs_sched s\<lparr>ticks_left := ticks_left (abs_sched s) - 1\<rparr>"
    by (simp add: abs_sched_def u)
  moreover have "sharing ?t" using assms lt ne by (simp add: sharing_def sched_ok_def u quantum_def)
  ultimately show ?thesis
    using timer_handler_quiet [OF False, of r] by (simp add: rr_tick_def quantum_def fun_eq_iff)
next
  case True
  note ok = assms [unfolded sharing_def]
  let ?i = "chosen s" and ?c = "nat (cur_proc_index s)"
  let ?t = "switched ?i r s\<lparr>time_slice_millis := time_slice (priority_level (proc_arr s ! ?i)), timer_ticks := 0\<rparr>"
  have th: "timer_handler r s = Some (next_regs r s, ?t)"
    using ok True by (intro timer_last_tick) simp_all
  have cur: "procs_ok (proc_arr s)" "0 \<le> cur_proc_index s" "?c < MAX_PROC" "live (proc_arr s) ?c" "?c < length (proc_arr s)"
    using ok by (auto simp: sched_ok_def live_def nat_less_iff)
  have i: "live (proc_arr s) ?i" using ok by (intro live_chosen) simp
  have slice: "unat (slice_ticks ?t) = quantum s ?i" by (simp add: slice_ticks_def quantum_def switched_def Let_def)
  have arr: "proc_arr ?t = (proc_arr s)[?c := (proc_arr s ! ?c)\<lparr>last_state_regs := r\<rparr>]"
    using ok by (simp add: switched_def Let_def)
  have lv: "live (proc_arr ?t) = live (proc_arr s)" by (rule ext) simp
  have "ready_queue (proc_arr ?t) ?i = ready_queue (proc_arr s) ?i" by (simp only: ready_queue_def lv)
  also have "\<dots> = rotate1 (ready_queue (proc_arr s) ?c)"
    using ready_queue_next [OF cur(4,3,1)] by (simp add: chosen_def)
  finally have "ready_queue (proc_arr ?t) ?i = rotate1 (ready_queue (proc_arr s) ?c)" .
  then have q: "queue (abs_sched ?t) = rotate1 (queue (abs_sched s))" by (simp add: abs_sched_def)
  have okt: "sched_ok ?t" using sched_ok_switched [OF _ i, of r] ok by (simp add: sched_ok_def)
  then have hd: "hd (queue (abs_sched ?t)) = ?i" by (simp add: hd_queue)
  have "unat (timer_ticks s) + 1 = unat (slice_ticks s)"
    using True ok unat_less_2p32 [of "slice_ticks s"]
    by (subst True [symmetric], subst unat_add_no_wrap) (simp_all del: unat_less_2p32)
  then have one: "ticks_left (abs_sched s) = 1" by (simp add: abs_sched_def)
  have ctx: "ctx (abs_sched ?t) = (ctx (abs_sched s))(?c := r)"
    by (rule ext) (simp add: abs_sched_def arr nth_list_update cur(5))
  have "rr_tick (quantum s) r (abs_sched s) = (next_regs r s, abs_sched ?t)"
  proof -
    have "(ctx (abs_sched s))(?c := r) = ctx (abs_sched ?t)" by (simp add: ctx)
    moreover have "ctx (abs_sched ?t) ?i = next_regs r s"
      unfolding ctx using cur(2) by (auto simp: next_regs_def abs_sched_def)
    moreover have "ticks_left (abs_sched ?t) = quantum s ?i" using slice by (simp add: abs_sched_def)
    ultimately show ?thesis
      using one q hd hd_queue [of s] ok by (simp add: rr_tick_def Let_def round_robin.equality)
  qed
  moreover have "sharing ?t"
    using okt ok slice i by (simp add: sharing_def lv)
  ultimately show ?thesis using th lv by simp
qed


lemma ticks_simulate:
  assumes "sharing s"
  shows "\<exists>t. ticks rs s = Some (fst (rr_ticks (quantum s) rs (abs_sched s)), t) \<and>
    abs_sched t = snd (rr_ticks (quantum s) rs (abs_sched s)) \<and> sharing t \<and> quantum t = quantum s \<and>
    (\<forall>i. live (proc_arr t) i \<longleftrightarrow> live (proc_arr s) i)"
  using assms
proof (induction rs arbitrary: s)
  case (Cons r rs)
  obtain u where u: "timer_handler r s = Some (fst (rr_tick (quantum s) r (abs_sched s)), u)"
    "abs_sched u = snd (rr_tick (quantum s) r (abs_sched s))" "sharing u" "quantum u = quantum s"
    "\<forall>i. live (proc_arr u) i \<longleftrightarrow> live (proc_arr s) i"
    using tick_simulates [OF Cons.prems, of r] by blast
  from Cons.IH [OF u(3)] obtain t where "ticks rs u = Some (fst (rr_ticks (quantum s) rs (abs_sched u)), t)"
    "abs_sched t = snd (rr_ticks (quantum s) rs (abs_sched u))" "sharing t" "quantum t = quantum s"
    "\<forall>i. live (proc_arr t) i \<longleftrightarrow> live (proc_arr s) i"
    using u(4,5) by auto
  then show ?case using u(1,2) by (simp split: prod.split)
qed simp

section \<open>Who runs\<close>

text \<open>The slot that each tick interrupts, in the code and in the machine.\<close>

fun owners :: "regs list \<Rightarrow> 'a sched_scheme \<Rightarrow> nat list" where
  "owners [] s = []"
| "owners (r # rs) s =
     nat (cur_proc_index s) # (case timer_handler r s of None \<Rightarrow> [] | Some (_, t) \<Rightarrow> owners rs t)"

fun rr_owners :: "(nat \<Rightarrow> nat) \<Rightarrow> regs list \<Rightarrow> round_robin \<Rightarrow> nat list" where
  "rr_owners q [] a = []"
| "rr_owners q (r # rs) a = hd (queue a) # rr_owners q rs (snd (rr_tick q r a))"

lemma owners_simulate: "sharing s \<Longrightarrow> owners rs s = rr_owners (quantum s) rs (abs_sched s)"
proof (induction rs arbitrary: s)
  case (Cons r rs)
  obtain u where "timer_handler r s = Some (fst (rr_tick (quantum s) r (abs_sched s)), u)"
    "abs_sched u = snd (rr_tick (quantum s) r (abs_sched s))" "sharing u" "quantum u = quantum s"
    using tick_simulates [OF Cons.prems, of r] by blast
  then show ?case using Cons.IH [of u] Cons.prems by (simp add: hd_queue sharing_def)
qed simp

lemma rr_ticks_append:
  "snd (rr_ticks q (rs @ qs) a) = snd (rr_ticks q qs (snd (rr_ticks q rs a)))"
  "rr_owners q (rs @ qs) a = rr_owners q rs a @ rr_owners q qs (snd (rr_ticks q rs a))"
  by (induction rs arbitrary: a) (simp_all add: split_beta)

text \<open>One turn, then one round.\<close>

lemma rr_turn:
  assumes "length rs = ticks_left a" "rs \<noteq> []"
  shows "rr_owners q rs a = replicate (ticks_left a) (hd (queue a)) \<and>
    queue (snd (rr_ticks q rs a)) = rotate1 (queue a) \<and>
    ticks_left (snd (rr_ticks q rs a)) = q (hd (rotate1 (queue a)))"
  using assms
proof (induction rs arbitrary: a)
  case (Cons r rs)
  show ?case
  proof (cases "ticks_left a = 1")
    case True
    with Cons.prems have "rs = []" by simp
    with True show ?thesis by (simp add: rr_tick_def Let_def)
  next
    case False
    let ?a = "a\<lparr>ticks_left := ticks_left a - 1\<rparr>"
    have "rr_tick q r a = (r, ?a)" using False by (simp add: rr_tick_def)
    moreover have "rs \<noteq> []" "length rs = ticks_left ?a" using False Cons.prems by auto
    moreover have "replicate (ticks_left a) x = x # replicate (ticks_left ?a) x" for x :: nat
      using Cons.prems by (cases "ticks_left a") simp_all
    ultimately show ?thesis using Cons.IH [of ?a] by (simp add: split_beta)
  qed
qed simp

lemma rr_round:
  assumes "queue a = ys @ zs" "queue a \<noteq> []" "ticks_left a = q (hd (queue a))" "\<forall>i \<in> set (queue a). 0 < q i"
    and "length rs = sum_list (map q ys)"
  shows "rr_owners q rs a = concat (map (\<lambda>i. replicate (q i) i) ys) \<and> queue (snd (rr_ticks q rs a)) = zs @ ys \<and>
    ticks_left (snd (rr_ticks q rs a)) = q (hd (zs @ ys))"
  using assms
proof (induction ys arbitrary: a zs rs)
  case (Cons y ys)
  let ?p = "take (q y) rs" and ?d = "drop (q y) rs"
  define b where "b = snd (rr_ticks q ?p a)"
  have y: "0 < q y" using Cons.prems by simp
  have p: "length ?p = ticks_left a" "?p \<noteq> []" using Cons.prems y by auto
  note turn = rr_turn [OF p, of q, folded b_def]
  have "queue b = ys @ zs @ [y]" "ticks_left b = q (hd (queue b))"
    using turn Cons.prems(1) by simp_all
  moreover have "length ?d = sum_list (map q ys)" using Cons.prems(5) by simp
  ultimately have "rr_owners q ?d b = concat (map (\<lambda>i. replicate (q i) i) ys) \<and>
      queue (snd (rr_ticks q ?d b)) = (zs @ [y]) @ ys \<and> ticks_left (snd (rr_ticks q ?d b)) = q (hd ((zs @ [y]) @ ys))"
    using Cons.prems(1,4) by (intro Cons.IH) auto
  moreover have "rr_owners q (?p @ ?d) a = rr_owners q ?p a @ rr_owners q ?d b"
    "snd (rr_ticks q (?p @ ?d) a) = snd (rr_ticks q ?d b)"
    unfolding rr_ticks_append b_def by simp_all
  ultimately show ?case using turn Cons.prems(1,3) by simp
qed simp

lemma rr_rounds:
  assumes "queue a \<noteq> []" "ticks_left a = q (hd (queue a))" "\<forall>i \<in> set (queue a). 0 < q i"
    and "length rs = m * sum_list (map q (queue a))"
  shows "rr_owners q rs a = concat (replicate m (concat (map (\<lambda>i. replicate (q i) i) (queue a)))) \<and>
    queue (snd (rr_ticks q rs a)) = queue a \<and> ticks_left (snd (rr_ticks q rs a)) = ticks_left a"
  using assms
proof (induction m arbitrary: a rs)
  case (Suc m)
  let ?k = "sum_list (map q (queue a))"
  let ?p = "take ?k rs" and ?d = "drop ?k rs"
  define b where "b = snd (rr_ticks q ?p a)"
  have "length ?p = ?k" using Suc.prems(4) by simp
  from rr_round [OF _ Suc.prems(1-3) this, of "[]", folded b_def]
  have p: "rr_owners q ?p a = concat (map (\<lambda>i. replicate (q i) i) (queue a))" "queue b = queue a" "ticks_left b = ticks_left a"
    using Suc.prems(2) by simp_all
  have "length ?d = m * sum_list (map q (queue b))" using Suc.prems(4) p(2) by simp
  from Suc.IH [OF _ _ _ this] have "rr_owners q ?d b = concat (replicate m (concat (map (\<lambda>i. replicate (q i) i) (queue a)))) \<and>
      queue (snd (rr_ticks q ?d b)) = queue a \<and> ticks_left (snd (rr_ticks q ?d b)) = ticks_left a"
    using Suc.prems(1-3) p(2,3) by simp
  moreover have "rr_owners q (?p @ ?d) a = rr_owners q ?p a @ rr_owners q ?d b"
    "snd (rr_ticks q (?p @ ?d) a) = snd (rr_ticks q ?d b)"
    unfolding rr_ticks_append b_def by simp_all
  ultimately show ?case using p(1) by simp
qed simp

lemma ready_queue_set: "procs_ok ps \<Longrightarrow> c < MAX_PROC \<Longrightarrow> distinct (ready_queue ps c) \<and> set (ready_queue ps c) = {i. live ps i}"
  using live_less by (auto simp: ready_queue_def)

lemma shares:
  assumes s: "sharing s" and full: "unat (slice_ticks s) - unat (timer_ticks s) = quantum s (nat (cur_proc_index s))"
    and n: "length rs = m * (\<Sum>i | live (proc_arr s) i. quantum s i)"
  shows "owners rs s = concat (replicate m (concat (map (\<lambda>i. replicate (quantum s i) i) (ready_queue (proc_arr s) (nat (cur_proc_index s)))))) \<and>
    (\<exists>rs' t. ticks rs s = Some (rs', t) \<and> sharing t \<and> cur_proc_index t = cur_proc_index s)"
proof -
  let ?c = "nat (cur_proc_index s)" and ?a = "abs_sched s"
  have ok: "procs_ok (proc_arr s)" "?c < MAX_PROC" "live (proc_arr s) ?c" "0 \<le> cur_proc_index s"
    using s by (auto simp: sharing_def sched_ok_def nat_less_iff)
  have q: "queue ?a = ready_queue (proc_arr s) ?c" by (simp add: abs_sched_def)
  note rq = ready_queue_set [OF ok(1,2)]
  have "sum_list (map (quantum s) (queue ?a)) = (\<Sum>i | live (proc_arr s) i. quantum s i)"
    using rq by (simp add: q sum_list_distinct_conv_sum_set)
  moreover have "hd (queue ?a) = ?c" using s by (simp add: hd_queue sharing_def)
  moreover have "queue ?a \<noteq> []" using ok by (simp add: q ready_queue_hd)
  moreover have "\<forall>i \<in> set (queue ?a). 0 < quantum s i" using s rq by (simp add: q sharing_def)
  moreover have "ticks_left ?a = quantum s ?c" using full by (simp add: abs_sched_def)
  ultimately have r: "rr_owners (quantum s) rs ?a = concat (replicate m (concat (map (\<lambda>i. replicate (quantum s i) i) (queue ?a)))) \<and>
      queue (snd (rr_ticks (quantum s) rs ?a)) = queue ?a \<and> ticks_left (snd (rr_ticks (quantum s) rs ?a)) = ticks_left ?a"
    using n by (intro rr_rounds) simp_all
  obtain t where t: "ticks rs s = Some (fst (rr_ticks (quantum s) rs ?a), t)"
    "abs_sched t = snd (rr_ticks (quantum s) rs ?a)" "sharing t" using ticks_simulate [OF s, of rs] by blast
  have "hd (queue (abs_sched t)) = hd (queue ?a)" using r t(2) by simp
  moreover have "0 \<le> cur_proc_index t" "sched_ok t" using t(3) by (simp_all add: sharing_def sched_ok_def)
  ultimately have "cur_proc_index t = cur_proc_index s"
    using s ok(4) by (simp add: hd_queue sharing_def)
  then show ?thesis using r t owners_simulate [OF s, of rs] q by auto
qed


section \<open>From the boot to time sharing\<close>

text \<open>The kernel with its three processes: \<open>main\<close> returns, the fourth tick enters \<open>lol\<close>, and \<open>lol\<close> has made the
  other two.\<close>

lemma booted_sharing:
  fixes s :: "'a boot_scheme"
  assumes room: "boot_room s" "idt_page s + 204800 \<le> 0xFF0000" and irq: "length (irq_routines s) = 16" "controller_ok s"
    and first: "timer_ticks s = 0" "is_first_run s \<noteq> 0"
  obtains t u v where "main syms g a f s = Some (Ret () t)"
    "ticks [r1, r2, r3, r4] t = Some ([r1, r2, r3, last_state_regs (proc_arr t ! 0)], u)"
    "r_eip (last_state_regs (proc_arr t ! 0)) = f"
    "lol a2 a3 regis u = Some (Halt v)" "sharing v" "timer_ticks v = 0" "slice_ticks v = 10" "cur_proc_index v = 0"
    "\<forall>i. live (proc_arr v) i \<longleftrightarrow> i < 3" "\<forall>i<3. quantum v i = 10"
    "r_eip (last_state_regs (proc_arr v ! 1)) = a2" "r_eip (last_state_regs (proc_arr v ! 2)) = a3"
proof -
  let ?I = "idt_page s"
  obtain t where t: "main syms g a f s = Some (Ret () t)" "started syms ?I f t"
    "is_first_run t = is_first_run s" "timer_ticks t = timer_ticks s"
    using main_starts [OF room(1) irq] by blast
  let ?u = "t\<lparr>is_first_run := 0, current_dir := cr3 t, cr3 := cr3 t, cur_proc_index := 0, time_slice_millis := 100, timer_ticks := 0\<rparr>"
  have tk: "ticks [r1, r2, r3, r4] t = Some ([r1, r2, r3, last_state_regs (proc_arr t ! 0)], ?u)"
    by (rule first_slice [OF t(2)]) (use first t(3,4) in simp_all)
  have st: "kmap (?I + 4096) 4080 t" "kroom (?I + 4096)" "place_addr t = of_nat (?I + 162816)" "procs_ok (proc_arr t)"
    "\<forall>i. live (proc_arr t) i \<longleftrightarrow> i < 1" "freq t = 100" "scheduler_active t = 1" "priority_level (proc_arr t ! 0) = 0"
    "r_eip (last_state_regs (proc_arr t ! 0)) = f"
    using t(2) by (simp_all add: started_def ready_def kernel_ok_def)
  have ku: "kmap (?I + 4096) 4080 ?u" using st(1) by (simp add: kmap_def kstate_def)
  have pa: "unat (place_addr t) = ?I + 162816" using room(2) by (simp add: st(3) unat_of_nat_32 del: of_nat_add)
  have "?I mod 4096 = 0" by (simp add: idt_page_def page_up_mod)
  then obtain j where j: "?I = 4096 * j" by (auto simp: mod_eq_0_iff_dvd elim: dvdE)
  have "page_up (?I + 162816) = ?I + 163840" by (simp add: page_up_def j)
  then have "two_rooms (?I + 4096) ?u" using room(2) st(2) pa by (simp add: two_rooms_def)
  from lol_runs [OF ku this, of a2 a3 regis] st(4,5) obtain m r where l: "lol a2 a3 regis ?u = Some (Halt
      (?u\<lparr>mem := m, place_addr := of_nat (page_up (unat (place_addr ?u)) + 40960),
         proc2 := ready_process a2 regis (page_up (unat (place_addr ?u))) (proc2 ?u),
         proc3 := ready_process a3 r (page_up (unat (place_addr ?u)) + 20480) (proc3 ?u),
         proc_arr := (proc_arr ?u)[1 := (ready_process a2 regis (page_up (unat (place_addr ?u))) (proc2 ?u))\<lparr>pid := of_nat 1\<rparr>,
           2 := (ready_process a3 r (page_up (unat (place_addr ?u)) + 20480) (proc3 ?u))\<lparr>pid := of_nat 2\<rparr>]\<rparr>))" (is "_ = Some (Halt ?v)")
    by auto
  have len: "length (proc_arr t) = 32" using st(4) by (simp add: procs_ok_def MAX_PROC_def)
  note fl = fill_slot [OF st(4,5), of "ready_process a2 regis (page_up (unat (place_addr ?u))) (proc2 ?u)"]
  have pv: "procs_ok (proc_arr ?v)" "\<forall>i. live (proc_arr ?v) i \<longleftrightarrow> i < 3"
    using fill_slot [of _ 2 "ready_process a3 r (page_up (unat (place_addr ?u)) + 20480) (proc3 ?u)", OF fl(1)] fl(2)
    by (simp_all add: numeral_2_eq_2 numeral_3_eq_3)
  have pr: "priority_level (proc_arr ?v ! i) = 0" if "i < 3" for i
  proof -
    have "i = 0 \<or> i = 1 \<or> i = 2" using that by auto
    then show ?thesis using len st(8) by (auto simp: ready_process_def)
  qed
  have q: "quantum ?v i = 10" if "i < 3" for i using pr [OF that] st(6) by (simp add: quantum_def time_slice_def)
  have sl: "slice_ticks ?v = 10" using st(6) by (simp add: slice_ticks_def)
  have "sharing ?v" using pv q sl st(7) by (simp add: sharing_def sched_ok_def MAX_PROC_def)
  then show thesis
    using that [OF t(1) tk st(9) l _ _ sl _ pv(2)] q len by (simp add: ready_process_def process_regs_def)
qed

lemma three_slots:
  assumes "\<forall>i. P i \<longleftrightarrow> i < (3 :: nat)"
  shows "{i. P i} = {0, 1, 2}"
proof -
  have "i < 3 \<longleftrightarrow> i = 0 \<or> i = 1 \<or> i = 2" for i :: nat by arith
  then show ?thesis using assms by auto
qed

section \<open>Properties\<close>

text \<open>C7. Timer, scheduler and process table implement a round-robin queue. Whatever registers the interrupts
  save, and however many there are, the code hands back the same registers as the abstract machine,
  and its state afterwards is the machine's.\<close>

theorem round_robin_refinement:
  assumes "sharing s"
  shows "\<exists>t. ticks rs s = Some (fst (rr_ticks (quantum s) rs (abs_sched s)), t) \<and>
    abs_sched t = snd (rr_ticks (quantum s) rs (abs_sched s)) \<and> sharing t"
  using ticks_simulate [OF assms] by blast

text \<open>C24. The share of each process. From the first tick of a slice on, the processor goes round the processes
  in slot order, from the running one on, and each has exactly the ticks of its own slice; after any
  number \<open>m\<close> of rounds the first process runs again.\<close>

theorem processes_share_ticks:
  assumes "sharing s" and "unat (slice_ticks s) - unat (timer_ticks s) = quantum s (nat (cur_proc_index s))"
    and "length rs = m * (\<Sum>i | live (proc_arr s) i. quantum s i)"
  shows "owners rs s = concat (replicate m (concat (map (\<lambda>i. replicate (quantum s i) i)
      (filter (live (proc_arr s)) ([nat (cur_proc_index s)..<MAX_PROC] @ [0..<nat (cur_proc_index s)]))))) \<and>
    (\<exists>rs' t. ticks rs s = Some (rs', t) \<and> sharing t \<and> cur_proc_index t = cur_proc_index s)"
  using shares [OF assms] by (simp only: ready_queue_def)

text \<open>C14. The kernel shares its time, from the boot on. \<open>main\<close> returns, the fourth tick starts \<open>lol\<close>, and once
  \<open>lol\<close> has made its two processes, the processor is given to \<open>lol\<close>, \<open>lol2\<close> and \<open>lol3\<close> in turn, for ten ticks
  each (100 ms), for ever.\<close>

theorem kernel_shares_time:
  fixes s :: "'a boot_scheme"
  assumes "boot_room s" and "idt_page s + 204800 \<le> 0xFF0000" and "length (irq_routines s) = 16" and "controller_ok s"
    and "timer_ticks s = 0" and "is_first_run s \<noteq> 0"
  shows "\<exists>t u v r. main syms g a f s = Some (Ret () t) \<and> ticks [r1, r2, r3, r4] t = Some ([r1, r2, r3, r], u) \<and> r_eip r = f \<and>
    lol a2 a3 regis u = Some (Halt v) \<and>
    r_eip (last_state_regs (proc_arr v ! 1)) = a2 \<and> r_eip (last_state_regs (proc_arr v ! 2)) = a3 \<and>
    (\<forall>m rs. length rs = m * 30 \<longrightarrow>
       owners rs v = concat (replicate m (replicate 10 0 @ replicate 10 1 @ replicate 10 2)) \<and>
       (\<exists>rs' w. ticks rs v = Some (rs', w) \<and> cur_proc_index w = 0))"
proof -
  obtain t u v where v: "main syms g a f s = Some (Ret () t)"
    "ticks [r1, r2, r3, r4] t = Some ([r1, r2, r3, last_state_regs (proc_arr t ! 0)], u)"
    "r_eip (last_state_regs (proc_arr t ! 0)) = f"
    "lol a2 a3 regis u = Some (Halt v)" "sharing v" "timer_ticks v = 0" "slice_ticks v = 10" "cur_proc_index v = 0"
    "\<forall>i. live (proc_arr v) i \<longleftrightarrow> i < 3" "\<forall>i<3. quantum v i = 10"
    "r_eip (last_state_regs (proc_arr v ! 1)) = a2" "r_eip (last_state_regs (proc_arr v ! 2)) = a3"
    by (rule booted_sharing [OF assms])
  have "{i. live (proc_arr v) i} = {0, 1, 2}" by (rule three_slots [OF v(9)])
  then have sum: "(\<Sum>i | live (proc_arr v) i. quantum v i) = 30" using v(10) by simp
  have rq: "ready_queue (proc_arr v) 0 = [0, 1, 2]"
  proof -
    have "[0..<3] = [0, 1, 2 :: nat]" by code_simp
    moreover have "[0..<MAX_PROC] = [0..<3] @ [3..<MAX_PROC]" by (rule upt_split) (simp_all add: MAX_PROC_def)
    ultimately have "[0..<MAX_PROC] = [0, 1, 2] @ [3..<MAX_PROC]" by (simp only:)
    moreover have "filter (live (proc_arr v)) [3..<MAX_PROC] = []" using v(9) by (intro filter_none) simp
    ultimately show ?thesis using v(9) by (simp add: ready_queue_def)
  qed
  have "owners rs v = concat (replicate m (replicate 10 0 @ replicate 10 1 @ replicate 10 2)) \<and>
       (\<exists>rs' w. ticks rs v = Some (rs', w) \<and> cur_proc_index w = 0)" if "length rs = m * 30" for m rs
    using shares [of v rs m] v(5-8,10) sum rq that by auto
  then show ?thesis using v(1-4,11,12) by blast
qed

section \<open>Witnesses\<close>

lemma demo_sharing:
  obtains v :: boot where "sharing v" "timer_ticks v = 0" "slice_ticks v = 10" "cur_proc_index v = 0"
    "\<forall>i<3. quantum v i = 10" "\<forall>i. live (proc_arr v) i \<longleftrightarrow> i < 3"
proof (rule booted_sharing [OF demo_main_ok(1) _ demo_main_ok(3-6)])
  show "idt_page demo_main + 204800 \<le> 0xFF0000" by (simp add: demo_main_ok(2))
qed (use that in blast)

lemma round_robin_refinement_witness:
  "\<exists>s t :: boot. ticks (replicate 12 (last_state_regs (proc2 demo_main))) s =
     Some (fst (rr_ticks (quantum s) (replicate 12 (last_state_regs (proc2 demo_main))) (abs_sched s)), t)"
proof -
  obtain v :: boot where "sharing v" by (rule demo_sharing)
  from round_robin_refinement [OF this, of "replicate 12 (last_state_regs (proc2 demo_main))"] show ?thesis by blast
qed

lemma processes_share_ticks_witness:
  "\<exists>s rs' t. ticks (replicate 60 (last_state_regs (proc2 demo_main))) (s :: boot) = Some (rs', t) \<and> cur_proc_index t = 0"
proof -
  obtain v :: boot where v: "sharing v" "timer_ticks v = 0" "slice_ticks v = 10" "cur_proc_index v = 0"
    "\<forall>i<3. quantum v i = 10" "\<forall>i. live (proc_arr v) i \<longleftrightarrow> i < 3" by (rule demo_sharing)
  have "{i. live (proc_arr v) i} = {0, 1, 2}" by (rule three_slots [OF v(6)])
  then have len: "length (replicate 60 (last_state_regs (proc2 demo_main))) = 2 * (\<Sum>i | live (proc_arr v) i. quantum v i)"
    using v(5) by simp
  have "unat (slice_ticks v) - unat (timer_ticks v) = quantum v (nat (cur_proc_index v))" using v(2-5) by simp
  from processes_share_ticks [OF v(1) this len] obtain rs' t where
    "ticks (replicate 60 (last_state_regs (proc2 demo_main))) v = Some (rs', t)" "cur_proc_index t = cur_proc_index v" by blast
  then show ?thesis using v(4) by (intro exI [of _ v] exI [of _ rs'] exI [of _ t]) (simp del: ticks.simps)
qed

lemma kernel_shares_time_witness:
  "\<exists>v. owners (replicate 30 (last_state_regs (proc2 demo_main))) (v :: boot) = replicate 10 0 @ replicate 10 1 @ replicate 10 2"
proof -
  have "idt_page demo_main + 204800 \<le> 0xFF0000" by (simp add: demo_main_ok(2))
  from kernel_shares_time [OF demo_main_ok(1) this demo_main_ok(3-6), of demo_addresses "0x7C00" "0x25000" "0x21000"
      _ _ _ _ "0x22000" "0x23000" "last_state_regs (proc2 demo_main)"]
  obtain v :: boot where "\<forall>m rs. length rs = m * 30 \<longrightarrow>
       owners rs v = concat (replicate m (replicate 10 0 @ replicate 10 1 @ replicate 10 2))" by blast
  from this [rule_format, of "replicate 30 (last_state_regs (proc2 demo_main))" 1] show ?thesis
    by (intro exI [of _ v]) (simp del: owners.simps)
qed

end
