(* ===== verification/ProcessorSharing.thy ===== *)
theory ProcessorSharing
  imports Gdt TimeSharing
begin

text \<open>
  The round robin as the processor sees it: whole timer interrupts, from the gate to \<open>iret\<close>, one after the
  other, while the programs in between do what they like with the registers and with memory, as long as
  they leave the descriptor table alone and stay in kernel mode. Every process goes on with exactly the
  registers it was interrupted with.
\<close>

section \<open>Interrupts one after the other\<close>

text \<open>Each element of the list is what the running program has made of the processor and of memory when the
  next timer interrupt arrives; the result has the processor after each, with the slot that runs.\<close>

fun cpu_ticks :: "symbols \<Rightarrow> c_effects \<Rightarrow> (cpu \<times> mem) list \<Rightarrow> 'a keyboard_scheme \<Rightarrow>
    ((cpu \<times> nat) list \<times> 'a keyboard_scheme) option" where
  "cpu_ticks syms k [] s = Some ([], s)"
| "cpu_ticks syms k ((c, m) # xs) s =
     (case interrupt syms k 32 None c (s\<lparr>mem := m\<rparr>) of
        Some (Ret c s) \<Rightarrow> map_option (apfst (Cons (c, nat (cur_proc_index s)))) (cpu_ticks syms k xs s)
      | _ \<Rightarrow> None)"

text \<open>The registers that each slot was last interrupted with.\<close>

fun interrupted :: "(nat \<Rightarrow> regs) \<Rightarrow> nat list \<Rightarrow> regs list \<Rightarrow> nat \<Rightarrow> regs" where
  "interrupted f (i # is) (r # rs) = interrupted (f(i := r)) is rs"
| "interrupted f _ _ = f"

section \<open>The abstract machine\<close>

lemma rr_tick_queue: "set (queue (snd (rr_tick q r a))) = set (queue a)" "queue a \<noteq> [] \<Longrightarrow> queue (snd (rr_tick q r a)) \<noteq> []"
  by (simp_all add: rr_tick_def Let_def)

lemma hd_rotate1: "xs \<noteq> [] \<Longrightarrow> hd (rotate1 xs) \<in> set xs"
  by (metis hd_in_set rotate1_is_Nil_conv set_rotate1)

text \<open>A tick saves the registers of the slot it interrupts, if only in the next tick that switches.\<close>

lemma rr_tick_contexts:
  assumes "\<And>i. i \<noteq> hd (queue a) \<Longrightarrow> f i = ctx a i"
  shows "fst (rr_tick q r a) = (f(hd (queue a) := r)) (hd (queue (snd (rr_tick q r a))))"
    and "i \<noteq> hd (queue (snd (rr_tick q r a))) \<Longrightarrow> (f(hd (queue a) := r)) i = ctx (snd (rr_tick q r a)) i"
  using assms by (auto simp: rr_tick_def Let_def)

lemma rr_ticks_contexts:
  assumes "\<And>i. i \<noteq> hd (queue a) \<Longrightarrow> f i = ctx a i" "j < length rs"
  shows "fst (rr_ticks q rs a) ! j = interrupted f (take (Suc j) (rr_owners q rs a)) (take (Suc j) rs)
    ((rr_owners q rs a @ [hd (queue (snd (rr_ticks q rs a)))]) ! Suc j)"
  using assms
proof (induction rs arbitrary: a f j)
  case (Cons r rs)
  let ?a = "snd (rr_tick q r a)" and ?f = "f(hd (queue a) := r)"
  note tick = rr_tick_contexts [OF Cons.prems(1), where q = q and r = r]
  have next_owner: "(rr_owners q rs ?a @ [hd (queue (snd (rr_ticks q rs ?a)))]) ! 0 = hd (queue ?a)" by (cases rs) simp_all
  show ?case
  proof (cases j)
    case 0
    then show ?thesis using tick(1) next_owner by (simp add: split_beta)
  next
    case (Suc i)
    then show ?thesis using Cons.IH [OF tick(2), of i] Cons.prems(2) by (simp add: split_beta fun_upd_def)
  qed
qed simp

lemma length_rr: "length (rr_owners q rs a) = length rs" "length (fst (rr_ticks q rs a)) = length rs"
  by (induction rs arbitrary: a) (simp_all add: split_beta)

text \<open>The last interruption counts.\<close>

lemma interrupted_never: "i \<notin> set is \<Longrightarrow> interrupted f is rs i = f i"
  by (induction f "is" rs rule: interrupted.induct) auto

lemma interrupted_last:
  assumes "length is = length rs" "l < length is" "is ! l = i" "\<And>n. l < n \<Longrightarrow> n < length is \<Longrightarrow> is ! n \<noteq> i"
  shows "interrupted f is rs i = rs ! l"
  using assms
proof (induction f "is" rs arbitrary: l rule: interrupted.induct)
  case (1 f x xs r rs)
  show ?case
  proof (cases l)
    case 0
    have "i \<notin> set xs"
    proof
      assume "i \<in> set xs"
      then obtain n where "n < length xs" "xs ! n = i" by (auto simp: in_set_conv_nth)
      then show False using 1(5) [of "Suc n"] 0 by simp
    qed
    then show ?thesis using 0 1(4) by (simp add: interrupted_never)
  next
    case (Suc n)
    have "xs ! n' \<noteq> i" if "n < n'" "n' < length xs" for n' using 1(5) [of "Suc n'"] that Suc by simp
    then show ?thesis using 1(1) [of n] 1(2-4) Suc by (simp add: fun_upd_def)
  qed
qed auto

section \<open>One interrupt\<close>

text \<open>The registers are those of code in kernel mode.\<close>

definition kernel_mode :: "regs \<Rightarrow> bool" where
  "kernel_mode r \<longleftrightarrow> (ucast (r_cs r) :: u16) AND 3 = 0"

definition timer_installed :: "symbols \<Rightarrow> 'a keyboard_scheme \<Rightarrow> bool" where
  "timer_installed syms s \<longleftrightarrow> length (irq_routines s) = 16 \<and> irq_routines s ! 0 = sym_timer_handler syms \<and>
     sym_timer_handler syms \<noteq> 0"

lemma sharing_fields [simp]:
  "sharing (s\<lparr>mem := m\<rparr>) = sharing s" "sharing (s\<lparr>trace := tr\<rparr>) = sharing s"
  "abs_sched (s\<lparr>mem := m\<rparr>) = abs_sched s" "abs_sched (s\<lparr>trace := tr\<rparr>) = abs_sched s"
  "quantum (s\<lparr>mem := m\<rparr>) = quantum s" "quantum (s\<lparr>trace := tr\<rparr>) = quantum s"
  by (simp_all add: sharing_def sched_ok_def abs_sched_def slice_ticks_def quantum_def fun_eq_iff)

text \<open>The timer handler touches neither memory nor the interrupt tables.\<close>

lemma timer_handler_frame:
  assumes "sharing s" "timer_handler r s = Some (r', t)"
  shows "mem t = mem s" "irq_routines t = irq_routines s" "idtr t = idtr s" "idt t = idt s"
proof -
  have "mem t = mem s \<and> irq_routines t = irq_routines s \<and> idtr t = idtr s \<and> idt t = idt s"
  proof (cases "timer_ticks s + 1 = slice_ticks s")
    case True
    have "sched_ok s" "scheduler_active s \<noteq> 0" "is_first_run s = 0" using assms(1) by (simp_all add: sharing_def)
    from timer_last_tick [OF this True, of r] assms(2) show ?thesis by (auto simp: switched_def Let_def)
  qed (use assms(2) in \<open>auto simp: timer_handler_quiet\<close>)
  then show "mem t = mem s" "irq_routines t = irq_routines s" "idtr t = idtr s" "idt t = idt s" by simp_all
qed

lemma queue_sharing:
  assumes "sharing s"
  shows "queue (abs_sched s) \<noteq> []" "hd (queue (abs_sched s)) = nat (cur_proc_index s)"
    "set (queue (abs_sched s)) = {i. live (proc_arr s) i}"
proof -
  have ok: "sched_ok s" using assms by (simp add: sharing_def)
  show "hd (queue (abs_sched s)) = nat (cur_proc_index s)" by (rule hd_queue [OF ok])
  show "queue (abs_sched s) \<noteq> []" using ok by (simp add: abs_sched_def ready_queue_hd sched_ok_def nat_less_iff)
  have "procs_ok (proc_arr s)" using ok by (simp add: sched_ok_def)
  then show "set (queue (abs_sched s)) = {i. live (proc_arr s) i}"
    using ok by (auto simp: abs_sched_def ready_queue_def sched_ok_def dest: live_less)
qed

lemma interrupt_tick:
  assumes "sharing s" "timer_installed syms s" "gates_installed syms (s\<lparr>mem := m\<rparr>)" "seg c CS AND 3 = 0"
    and mode: "\<And>i. i \<in> set (queue (abs_sched s)) \<Longrightarrow> kernel_mode (ctx (abs_sched s) i)"
  defines "r \<equiv> saved_regs 32 0 c m"
  shows "\<exists>t. interrupt syms k 32 None c (s\<lparr>mem := m\<rparr>) =
      Some (Ret (with_regs (fst (rr_tick (quantum s) r (abs_sched s))) (ESP c) (seg c SS)) t) \<and>
    abs_sched t = snd (rr_tick (quantum s) r (abs_sched s)) \<and> sharing t \<and> quantum t = quantum s \<and>
    timer_installed syms t \<and> idtr t = idtr s \<and> idt t = idt s \<and>
    (\<forall>x. x \<notin> used_stack k 80 c \<longrightarrow> mem t x = m x)"
proof -
  let ?s = "s\<lparr>mem := entry_mem 0 32 c m\<rparr>"
  let ?r = "fst (rr_tick (quantum s) r (abs_sched s))"
  have "sharing ?s" using assms(1) by simp
  from tick_simulates [OF this, of r] obtain u where u: "timer_handler r ?s = Some (?r, u)"
    "abs_sched u = snd (rr_tick (quantum s) r (abs_sched s))" "sharing u" "quantum u = quantum s" by auto
  note frame = timer_handler_frame [OF \<open>sharing ?s\<close> u(1), simplified]
  let ?u = "outb 0x20 0x20 (if 40 \<le> r_int_no ?r then outb 0xA0 0x20 u else u)"
  have h: "irq_handler syms (saved_regs (32 + 0) 0 c (mem (s\<lparr>mem := m\<rparr>)))
      (s\<lparr>mem := m, mem := entry_mem 0 (32 + 0) c (mem (s\<lparr>mem := m\<rparr>))\<rparr>) = Some (?r, ?u)"
    using u(1) assms(2) by (simp add: irq_handler_def call_irq_def timer_installed_def r_def saved_regs_def Let_def)
  have "kernel_mode r" using assms(4) by (simp add: kernel_mode_def r_def saved_regs_def)
  then have "kernel_mode ?r"
    using mode [OF hd_rotate1 [OF queue_sharing(1) [OF assms(1)]]] by (simp add: rr_tick_def Let_def)
  then have "(ucast (r_cs ?r) :: u16) AND 3 = 0" by (simp add: kernel_mode_def)
  note irq_runs [OF assms(3) _ assms(4) h this, of k]
  moreover have "x \<notin> used_stack k 80 c \<Longrightarrow> spill k (ESP c - 72) (write_regs (mem ?u) (ESP c - 68) ?r) x = m x" for x
    using used_stack_frame [of x k c 0 32 m ?r] frame(1) by (simp add: outb_def)
  ultimately show ?thesis using u(2-4) frame(2-4) assms(2)
    by (intro exI [of _ "?u\<lparr>mem := spill k (ESP c - 72) (write_regs (mem ?u) (ESP c - 68) ?r)\<rparr>"]) (simp add: outb_def timer_installed_def)
qed

lemma with_regs_saved_other:
  "with_regs (saved_regs n err c m) e ss = c\<lparr>ESP := e, seg := (seg c)(SS := ss)\<rparr>"
  by (cases c) (auto simp: with_regs_def saved_regs_def fun_eq_iff intro: sreg.exhaust)

text \<open>The programs leave the descriptor table as it was and stay in kernel mode.\<close>

definition benign :: "symbols \<Rightarrow> 'a keyboard_scheme \<Rightarrow> cpu \<times> mem \<Rightarrow> bool" where
  "benign syms s = (\<lambda>(c, m). gates_installed syms (s\<lparr>mem := m\<rparr>) \<and> seg c CS AND 3 = 0)"

definition saved :: "cpu \<times> mem \<Rightarrow> regs" where
  "saved x = saved_regs 32 0 (fst x) (snd x)"

text \<open>The processor that goes on with the registers \<open>r\<close> after the interrupt that \<open>x\<close> took.\<close>

definition resumed :: "cpu \<times> mem \<Rightarrow> regs \<Rightarrow> cpu" where
  "resumed x r = with_regs r (ESP (fst x)) (seg (fst x) SS)"

lemma saved_resumed_Pair: "saved (c, m) = saved_regs 32 0 c m" "resumed (c, m) r = with_regs r (ESP c) (seg c SS)"
  by (simp_all add: saved_def resumed_def)

lemma benign_cong: "idtr t = idtr s \<Longrightarrow> idt t = idt s \<Longrightarrow> benign syms t = benign syms s"
  by (simp add: benign_def gates_installed_def fun_eq_iff)

lemma kernel_mode_tick:
  assumes "kernel_mode r" "\<And>i. i \<in> set (queue a) \<Longrightarrow> kernel_mode (ctx a i)" "i \<in> set (queue (snd (rr_tick q r a)))"
  shows "kernel_mode (ctx (snd (rr_tick q r a)) i)"
proof -
  have "i \<in> set (queue a)" using assms(3) by (simp only: rr_tick_queue(1))
  with assms(1,2) show ?thesis by (simp add: rr_tick_def Let_def)
qed

lemma cpu_ticks_simulate:
  assumes "sharing s" "timer_installed syms s" "list_all (benign syms s) xs"
    and "\<And>i. i \<in> set (queue (abs_sched s)) \<Longrightarrow> kernel_mode (ctx (abs_sched s) i)"
  defines "rr \<equiv> rr_ticks (quantum s) (map saved xs) (abs_sched s)"
  shows "\<exists>cs t. cpu_ticks syms k xs s = Some (cs, t) \<and> abs_sched t = snd rr \<and> sharing t \<and>
    map fst cs = map2 resumed xs (fst rr) \<and>
    nat (cur_proc_index s) # map snd cs = rr_owners (quantum s) (map saved xs) (abs_sched s) @ [hd (queue (snd rr))]"
  using assms(1-4) unfolding rr_def
proof (induction xs arbitrary: s)
  case Nil
  then show ?case using queue_sharing(2) [OF Nil(1)] by simp
next
  case (Cons x xs)
  obtain c m where x: "x = (c, m)" by (cases x)
  let ?r = "saved_regs 32 0 c m"
  have b: "gates_installed syms (s\<lparr>mem := m\<rparr>)" "seg c CS AND 3 = 0" using Cons.prems(3) by (simp_all add: x benign_def)
  obtain u where u: "interrupt syms k 32 None c (s\<lparr>mem := m\<rparr>) =
      Some (Ret (with_regs (fst (rr_tick (quantum s) ?r (abs_sched s))) (ESP c) (seg c SS)) u)"
    "abs_sched u = snd (rr_tick (quantum s) ?r (abs_sched s))" "sharing u" "quantum u = quantum s"
    "timer_installed syms u" "idtr u = idtr s" "idt u = idt s"
    using interrupt_tick [OF Cons.prems(1,2) b Cons.prems(4), of k] by blast
  have "list_all (benign syms u) xs" using Cons.prems(3) benign_cong [OF u(6,7), of syms] by simp
  moreover have "kernel_mode (ctx (abs_sched u) i)" if "i \<in> set (queue (abs_sched u))" for i
    using that b(2) kernel_mode_tick [OF _ Cons.prems(4)] unfolding u(2)
    by (simp add: kernel_mode_def saved_regs_def)
  moreover note Cons.IH [OF u(3,5)]
  ultimately obtain cs t where t: "cpu_ticks syms k xs u = Some (cs, t)"
    "abs_sched t = snd (rr_ticks (quantum s) (map saved xs) (abs_sched u))" "sharing t"
    "map fst cs = map2 resumed xs (fst (rr_ticks (quantum s) (map saved xs) (abs_sched u)))"
    "nat (cur_proc_index u) # map snd cs = rr_owners (quantum s) (map saved xs) (abs_sched u) @
       [hd (queue (snd (rr_ticks (quantum s) (map saved xs) (abs_sched u))))]"
    unfolding u(4) by blast
  show ?case using u(1) t queue_sharing(2) [OF Cons.prems(1)] unfolding x
    by (simp add: split_beta u(2) saved_resumed_Pair)
qed

section \<open>Properties\<close>

text \<open>C8. The timer interrupts, as the processor executes them, implement the round robin: whatever the programs
  do between them, every interrupt returns, the processor has the registers that the abstract machine
  hands out, on the stack of the interrupted program, and slots run in the machine's order.\<close>

theorem processor_refines_round_robin:
  assumes "sharing s" and "timer_installed syms s" and "list_all (benign syms s) xs"
    and "\<forall>i. live (proc_arr s) i \<longrightarrow> kernel_mode (last_state_regs (proc_arr s ! i))"
  shows "\<exists>cs t. cpu_ticks syms k xs s = Some (cs, t) \<and> sharing t \<and>
    (let (rs, a) = rr_ticks (quantum s) (map saved xs) (abs_sched s) in
       abs_sched t = a \<and> map fst cs = map2 resumed xs rs \<and>
       nat (cur_proc_index s) # map snd cs = rr_owners (quantum s) (map saved xs) (abs_sched s) @ [hd (queue a)])"
proof -
  have "kernel_mode (ctx (abs_sched s) i)" if "i \<in> set (queue (abs_sched s))" for i
    using that assms(4) queue_sharing(3) [OF assms(1)] by (simp add: abs_sched_def)
  from cpu_ticks_simulate [OF assms(1-3) this, of k] show ?thesis by (simp add: split_beta) blast
qed

text \<open>C9. Every process goes on where it was interrupted. When the slot that runs after interrupt \<open>j\<close> was last
  interrupted at \<open>l\<close>, the processor has the registers of then, every one of them but the stack pointer and
  the stack segment, which are those of the program interrupted at \<open>j\<close>; and a slot that has not run yet
  starts with the registers of the process table.\<close>

theorem processes_resume:
  assumes "sharing s" and "timer_installed syms s" and "list_all (benign syms s) xs"
    and "\<forall>i. live (proc_arr s) i \<longrightarrow> kernel_mode (last_state_regs (proc_arr s ! i))"
  shows "\<exists>cs t. cpu_ticks syms k xs s = Some (cs, t) \<and> length cs = length xs \<and>
    (let slots = nat (cur_proc_index s) # map snd cs in
     \<forall>j < length xs.
       (\<forall>l \<le> j. slots ! l = slots ! Suc j \<and> (\<forall>i. l < i \<and> i \<le> j \<longrightarrow> slots ! i \<noteq> slots ! Suc j) \<longrightarrow>
          fst (cs ! j) = (fst (xs ! l))\<lparr>ESP := ESP (fst (xs ! j)), seg := (seg (fst (xs ! l)))(SS := seg (fst (xs ! j)) SS)\<rparr>) \<and>
       ((\<forall>l \<le> j. slots ! l \<noteq> slots ! Suc j) \<longrightarrow>
          fst (cs ! j) = with_regs (last_state_regs (proc_arr s ! (slots ! Suc j))) (ESP (fst (xs ! j))) (seg (fst (xs ! j)) SS)))"
proof -
  let ?rr = "rr_ticks (quantum s) (map saved xs) (abs_sched s)"
  define os where "os = rr_owners (quantum s) (map saved xs) (abs_sched s)"
  have "kernel_mode (ctx (abs_sched s) i)" if "i \<in> set (queue (abs_sched s))" for i
    using that assms(4) queue_sharing(3) [OF assms(1)] by (simp add: abs_sched_def)
  from cpu_ticks_simulate [OF assms(1-3) this, of k] obtain cs t where t: "cpu_ticks syms k xs s = Some (cs, t)"
    "map fst cs = map2 resumed xs (fst ?rr)"
    "nat (cur_proc_index s) # map snd cs = os @ [hd (queue (snd ?rr))]"
    unfolding os_def by blast
  define slots where "slots = nat (cur_proc_index s) # map snd cs"
  have len: "length cs = length xs" "length os = length xs" using arg_cong [OF t(2), of length] by (simp_all add: length_rr os_def)
  have ls: "length slots = Suc (length xs)" by (simp add: slots_def len)
  have cpu: "fst (cs ! j) = with_regs (interrupted (ctx (abs_sched s)) (take (Suc j) slots) (take (Suc j) (map saved xs)) (slots ! Suc j))
      (ESP (fst (xs ! j))) (seg (fst (xs ! j)) SS)" if "j < length xs" for j
  proof -
    have "fst (cs ! j) = map fst cs ! j" using that len by simp
    also have "\<dots> = with_regs (fst ?rr ! j) (ESP (fst (xs ! j))) (seg (fst (xs ! j)) SS)"
      using that by (simp add: t(2) length_rr resumed_def)
    also have "fst ?rr ! j = interrupted (ctx (abs_sched s)) (take (Suc j) os) (take (Suc j) (map saved xs)) (slots ! Suc j)"
      using rr_ticks_contexts [of "abs_sched s" "ctx (abs_sched s)" j "map saved xs" "quantum s"] that
      by (simp add: os_def [symmetric] slots_def t(3))
    also have "take (Suc j) os = take (Suc j) slots" using that len by (simp add: slots_def t(3))
    finally show ?thesis .
  qed
  have again: "fst (cs ! j) = (fst (xs ! l))\<lparr>ESP := ESP (fst (xs ! j)), seg := (seg (fst (xs ! l)))(SS := seg (fst (xs ! j)) SS)\<rparr>"
    if "j < length xs" "l \<le> j" "slots ! l = slots ! Suc j" "\<forall>i. l < i \<and> i \<le> j \<longrightarrow> slots ! i \<noteq> slots ! Suc j" for j l
  proof -
    have "interrupted (ctx (abs_sched s)) (take (Suc j) slots) (take (Suc j) (map saved xs)) (slots ! Suc j) = take (Suc j) (map saved xs) ! l"
      by (rule interrupted_last) (use that in \<open>simp_all add: ls less_Suc_eq_le\<close>)
    then show ?thesis using cpu [OF that(1)] that by (simp add: saved_def split_beta with_regs_saved_other)
  qed
  have fresh: "fst (cs ! j) = with_regs (last_state_regs (proc_arr s ! (slots ! Suc j))) (ESP (fst (xs ! j))) (seg (fst (xs ! j)) SS)"
    if "j < length xs" "\<forall>l \<le> j. slots ! l \<noteq> slots ! Suc j" for j
  proof -
    have "slots ! Suc j \<notin> set (take (Suc j) slots)" using that by (auto simp: in_set_conv_nth less_Suc_eq_le)
    then show ?thesis using cpu [OF that(1)] by (simp add: interrupted_never abs_sched_def)
  qed
  show ?thesis using t(1) len(1) again fresh by (simp add: slots_def Let_def)
qed

section \<open>Witnesses\<close>

text \<open>The state after \<open>main\<close> once its first process runs.\<close>

lemma demo_shared:
  obtains s :: tss where "sharing s" "timer_installed demo_addresses s" "gates_installed demo_addresses s"
    "\<forall>i. live (proc_arr s) i \<longrightarrow> kernel_mode (last_state_regs (proc_arr s ! i))" "queue (abs_sched s) = [0]"
proof -
  obtain t :: tss where t: "started demo_addresses (idt_page demo_boot) 0x21000 t"
    using main_starts [OF demo_boot_ok(1,3,4), of demo_addresses "0x7C00" "0x25000" "0x21000"] by blast
  have g: "gates_installed demo_addresses t"
    using t by (intro ready_gates [where I = "idt_page demo_boot", OF _ demo_addresses_distinct]) (simp add: started_def)
  let ?u = "t\<lparr>is_first_run := 0, timer_ticks := 3\<rparr>"
  have "sharing ?u" using t
    by (simp add: sharing_def started_def sched_ok_def kernel_ok_def slice_ticks_def quantum_def time_slice_def MAX_PROC_def)
  moreover have "timer_installed demo_addresses ?u" "\<forall>i. live (proc_arr ?u) i \<longrightarrow> kernel_mode (last_state_regs (proc_arr ?u ! i))"
    using t by (simp_all add: timer_installed_def started_def kernel_ok_def demo_addresses_def kernel_mode_def)
  moreover have "gates_installed demo_addresses ?u" using g by (simp add: gates_installed_def)
  moreover have "queue (abs_sched ?u) = [0]"
  proof -
    have "filter (live (proc_arr t)) [Suc 0..<MAX_PROC] = []" using t by (intro filter_none) (simp add: started_def)
    then show ?thesis using t by (simp add: abs_sched_def ready_queue_def started_def upt_conv_Cons MAX_PROC_def)
  qed
  ultimately show ?thesis using that [of ?u] by blast
qed

lemma demo_benign: "gates_installed demo_addresses s \<Longrightarrow> list_all (benign demo_addresses s) [(demo_cpu, mem s), (demo_cpu\<lparr>EAX := 9\<rparr>, mem s)]"
  by (simp add: benign_def)

lemma processor_refines_round_robin_witness:
  "\<exists>(s :: tss) cs t. cpu_ticks demo_addresses demo_effects [(demo_cpu, mem s), (demo_cpu\<lparr>EAX := 9\<rparr>, mem s)] s = Some (cs, t) \<and> sharing t"
proof -
  obtain s :: tss where s: "sharing s" "timer_installed demo_addresses s" "gates_installed demo_addresses s"
    "\<forall>i. live (proc_arr s) i \<longrightarrow> kernel_mode (last_state_regs (proc_arr s ! i))" by (rule demo_shared) blast
  from processor_refines_round_robin [OF s(1,2) demo_benign [OF s(3)] s(4), of demo_effects] show ?thesis by blast
qed

lemma one_slot: "queue a = [i] \<Longrightarrow> set (rr_owners q rs a) \<subseteq> {i} \<and> queue (snd (rr_ticks q rs a)) = [i]"
proof (induction rs arbitrary: a)
  case (Cons r rs)
  have "queue (snd (rr_tick q r a)) = [i]" using Cons.prems by (simp add: rr_tick_def Let_def)
  from Cons.IH [OF this] Cons.prems show ?case by (simp add: split_beta)
qed simp

text \<open>The one process goes on with what its program had in \<open>eax\<close>.\<close>

lemma processes_resume_witness:
  "\<exists>(s :: tss) cs t. cpu_ticks demo_addresses demo_effects [(demo_cpu, mem s), (demo_cpu\<lparr>EAX := 9\<rparr>, mem s)] s = Some (cs, t) \<and>
    EAX (fst (cs ! 0)) = 1 \<and> EAX (fst (cs ! 1)) = 9"
proof -
  obtain s :: tss where s: "sharing s" "timer_installed demo_addresses s" "gates_installed demo_addresses s"
    "\<forall>i. live (proc_arr s) i \<longrightarrow> kernel_mode (last_state_regs (proc_arr s ! i))" "queue (abs_sched s) = [0]" by (rule demo_shared)
  let ?xs = "[(demo_cpu, mem s), (demo_cpu\<lparr>EAX := 9\<rparr>, mem s)]"
  obtain cs t where t: "cpu_ticks demo_addresses demo_effects ?xs s = Some (cs, t)" "length cs = 2"
    "\<forall>j < 2. \<forall>l \<le> j. (nat (cur_proc_index s) # map snd cs) ! l = (nat (cur_proc_index s) # map snd cs) ! Suc j \<and>
        (\<forall>i. l < i \<and> i \<le> j \<longrightarrow> (nat (cur_proc_index s) # map snd cs) ! i \<noteq> (nat (cur_proc_index s) # map snd cs) ! Suc j) \<longrightarrow>
          fst (cs ! j) = (fst (?xs ! l))\<lparr>ESP := ESP (fst (?xs ! j)), seg := (seg (fst (?xs ! l)))(SS := seg (fst (?xs ! j)) SS)\<rparr>"
    using processes_resume [OF s(1,2) demo_benign [OF s(3)] s(4), of demo_effects] by (auto simp: Let_def)
  have "kernel_mode (ctx (abs_sched s) i)" if "i \<in> set (queue (abs_sched s))" for i
    using that s(4) queue_sharing(3) [OF s(1)] by (simp add: abs_sched_def)
  from cpu_ticks_simulate [OF s(1,2) demo_benign [OF s(3)] this, of demo_effects] t(1)
  have "nat (cur_proc_index s) # map snd cs = rr_owners (quantum s) (map saved ?xs) (abs_sched s) @
      [hd (queue (snd (rr_ticks (quantum s) (map saved ?xs) (abs_sched s))))]" by auto
  also have "set \<dots> \<subseteq> {0}" using one_slot [OF s(5), of "quantum s" "map saved ?xs"] by simp
  finally have z: "set (nat (cur_proc_index s) # map snd cs) \<subseteq> {0}" .
  obtain x0 x1 where cs: "cs = [x0, x1]" using t(2) by (auto simp: numeral_2_eq_2 length_Suc_conv)
  have "EAX (fst (cs ! 0)) = 1" using t(3) [THEN spec, of 0] z by (auto simp: cs demo_cpu_def)
  moreover have "EAX (fst (cs ! 1)) = 9" using t(3) [THEN spec, of 1, THEN mp, THEN spec, of 1] z by (simp add: cs)
  ultimately show ?thesis using t(1) by blast
qed

end
