(* ===== verification/UserPrograms.thy ===== *)
theory UserPrograms
  imports MainProcesses
begin

text \<open>
  \<open>lol2\<close> and \<open>lol3\<close> of \<open>p_mode/main.c\<close>, the programs of the two processes: each makes a heap, stores a number
  in a block of it, and then counts for ever, reporting the number every 50 million rounds. \<open>mem\<close> is the
  memory as the directory of the process shows it. The endless loop is \<open>report_rounds\<close>, the state after
  each number of rounds; its body never stops it.
\<close>

section \<open>The code\<close>

definition user_program ::
  "('a boot_scheme \<Rightarrow> process) \<Rightarrow> ((process \<Rightarrow> process) \<Rightarrow> 'a boot_scheme \<Rightarrow> 'a boot_scheme) \<Rightarrow> u32 \<Rightarrow>
   'a boot_scheme \<Rightarrow> (u32, 'a boot_scheme) result" where
  "user_program get upd v s =
     (let s = s\<lparr>mem := initialise_heap (get s) (mem s)\<rparr>
      in and_then (malloc 50 (get s) 0 s) (\<lambda>(mptr, p) s.
           let s = upd (\<lambda>_. p) s in Some (Ret mptr (store32 mptr v s))))"

definition lol2 :: "'a boot_scheme \<Rightarrow> (u32, 'a boot_scheme) result" where
  "lol2 = user_program proc2 proc2_update 5"

definition lol3 :: "'a boot_scheme \<Rightarrow> (u32, 'a boot_scheme) result" where
  "lol3 = user_program proc3 proc3_update 6"

definition report_format :: "u8 list" where
  "report_format = str (''Value @ %x: %x'' @ [nl])"

text \<open>One round of the loop, on the counter and the state.\<close>

definition report_round :: "u32 \<Rightarrow> int \<times> 'a screen_scheme \<Rightarrow> (int \<times> 'a screen_scheme) option" where
  "report_round mptr = (\<lambda>(i, s).
     let i = i + 1 in
     if 50000000 \<le> i then map_option (Pair 0) (printf report_format [VaWord mptr, VaWord (ld32 (mem s) mptr)] s)
     else Some (i, s))"

fun report_rounds :: "u32 \<Rightarrow> nat \<Rightarrow> int \<times> 'a screen_scheme \<Rightarrow> (int \<times> 'a screen_scheme) option" where
  "report_rounds mptr 0 x = Some x"
| "report_rounds mptr (Suc n) x = Option.bind (report_round mptr x) (report_rounds mptr n)"

section \<open>The reports\<close>

text \<open>The same report, \<open>k\<close> times.\<close>

fun reports :: "u32 \<Rightarrow> u32 \<Rightarrow> nat \<Rightarrow> 'a screen_scheme \<Rightarrow> 'a screen_scheme option" where
  "reports mptr v 0 s = Some s"
| "reports mptr v (Suc k) s = Option.bind (printf report_format [VaWord mptr, VaWord v] s) (reports mptr v k)"

lemma report_returns:
  assumes "cursor_ok s"
  shows "\<exists>t. printf report_format [VaWord a, VaWord v] s = Some t \<and> console_step s t"
proof -
  have "format_ok report_format [VaWord a, VaWord v]" by (simp add: report_format_def str_def nl_def)
  from printf_returns [OF this] obtain t where "printf report_format [VaWord a, VaWord v] s = Some t" by blast
  then show ?thesis using printf_step assms by blast
qed

lemma console_step_word:
  assumes "console_step s t" "region a 4 \<inter> video = {}"
  shows "ld32 (mem t) a = ld32 (mem s) a"
  by (rule s32.ld_cong) (use assms in \<open>auto simp: console_step_def console_frame_def\<close>)

lemma reports_return:
  assumes "cursor_ok s"
  shows "\<exists>t. reports a v k s = Some t \<and> console_step s t"
  using assms
proof (induction k arbitrary: s)
  case (Suc k)
  obtain u where u: "printf report_format [VaWord a, VaWord v] s = Some u" "console_step s u"
    using report_returns [OF Suc.prems] by blast
  with Suc.IH [OF console_step_ok [OF u(2)]] show ?case by (auto intro: console_step_trans)
qed (simp add: console_step_refl)

lemma report_rounds_eq:
  assumes "region a 4 \<inter> video = {}"
  shows "cursor_ok s \<Longrightarrow> ld32 (mem s) a = v \<Longrightarrow> i < 50000000 \<Longrightarrow>
    report_rounds a n (int i, s) = map_option (Pair (int ((i + n) mod 50000000))) (reports a v ((i + n) div 50000000) s)"
proof (induction n arbitrary: i s)
  case (Suc n)
  show ?case
  proof (cases "i = 49999999")
    case True
    obtain u where u: "printf report_format [VaWord a, VaWord v] s = Some u" "console_step s u"
      using report_returns [OF Suc.prems(1)] by blast
    have "(i + Suc n) div 50000000 = Suc (n div 50000000)" "(i + Suc n) mod 50000000 = n mod 50000000"
      using True by simp_all
    moreover have "report_rounds a (Suc n) (int i, s) = report_rounds a n (int 0, u)"
      using True u(1) Suc.prems(2) by (simp add: report_round_def)
    moreover have "ld32 (mem u) a = v" using console_step_word [OF u(2) assms] Suc.prems(2) by simp
    ultimately show ?thesis
      using Suc.IH [of u 0] console_step_ok [OF u(2)] u(1) by simp
  next
    case False
    then have "Suc i < 50000000" using Suc.prems(3) by simp
    moreover have "report_rounds a (Suc n) (int i, s) = report_rounds a n (int (Suc i), s)"
      using False Suc.prems(3) by (simp add: report_round_def add.commute)
    ultimately show ?thesis using Suc.IH [of s "Suc i"] Suc.prems(1,2) by simp
  qed
qed simp

section \<open>The heap of a process\<close>

text \<open>The heap a process starts with: the second page from \<open>KERNEL_MEM_END\<close>.\<close>

definition fresh_heap :: "process \<Rightarrow> bool" where
  "fresh_heap p \<longleftrightarrow> heap_stack_boundary p = KERNEL_MEM_END + 0x1000 \<and> heap_size p = 0x1000"

lemma fresh_heap_words:
  assumes "fresh_heap p"
  shows "unat (heap_stack_boundary p) = 0xFF1000" "heap_stack_boundary p = 0xFF1000" "unat (heap_size p) = 0x1000"
    "in_heap p x \<longleftrightarrow> 0xFF1000 \<le> unat x \<and> unat x < 0xFF2000"
  using assms by (simp_all add: fresh_heap_def KERNEL_MEM_END_def in_heap_def)

lemma payload_region: "x \<in> region (0xFF1006 :: u32) 4 \<longleftrightarrow> 0xFF1006 \<le> unat x \<and> unat x < 0xFF100A"
  by (subst region_iff) simp_all

lemma payload_not_video: "region 0xFF1006 4 \<inter> video = {}"
proof -
  have "x \<notin> video" if "x \<in> region 0xFF1006 4" for x using that payload_region [of x] by (intro above_video) simp
  then show ?thesis by blast
qed

lemma fresh_heap_malloc:
  assumes "fresh_heap p"
  shows "\<exists>m. malloc 50 p 0 (s\<lparr>mem := initialise_heap p (mem s)\<rparr>) = Some (Ret (0xFF1006, p) (s\<lparr>mem := m\<rparr>)) \<and>
    heap_ok p [(False, 50), (True, 4034)] (st32 m 0xFF1006 v) \<and> (\<forall>x. \<not> in_heap p x \<longrightarrow> m x = mem s x)"
proof -
  note p = fresh_heap_words [OF assms]
  let ?s = "s\<lparr>mem := initialise_heap p (mem s)\<rparr>"
  have "0 < heap_stack_boundary p" "6 \<le> heap_size p" "unat (heap_stack_boundary p) + unat (heap_size p) \<le> 4294967295"
    using assms p(1,3) by (simp_all add: fresh_heap_def KERNEL_MEM_END_def)
  note init = initialise_heap_ok [where m = "mem s", OF this, unfolded p(3)]
  define m where "m = claim_block 0xFF1000 50 (initialise_heap p (mem s))"
  have f: "fit 50 [(True, 4090)] = Some (0, [(False, 50), (True, 4034)])" by (simp add: carve_def)
  have ok: "heap_ok p [(True, 4090)] (mem ?s)" using init(1) by simp
  have e: "(of_nat (unat (heap_stack_boundary p) + 0) :: u32) = 0xFF1000"
    "(of_nat (unat (heap_stack_boundary p) + 0 + 6) :: u32) = 0xFF1006" by (simp_all add: p(1))
  note mf = malloc_fits [OF ok _ f, unfolded e]
  have mal: "malloc 50 p 0 ?s = Some (Ret (0xFF1006, p) (s\<lparr>mem := m\<rparr>))" using mf(1) by (simp add: m_def)
  have okm: "heap_ok p [(False, 50), (True, 4034)] m" using mf(2) by (simp add: m_def)
  have b: "blocks (initialise_heap p (mem s)) 0xFF1000 [(True, 4090)]" using init(1) by (simp add: heap_ok_def p(1))
  have out: "m x = mem s x" if "\<not> in_heap p x" for x
    using fit_blocks(2) [OF b f, of x] init(2) [OF that] that by (auto simp: m_def p(4) not_le not_less)
  have "st32 m 0xFF1006 v x = m x" if "in_header 0xFF1000 [(False, 50), (True, 4034)] (unat x)" for x
  proof (rule s32.st_frame)
    show "x \<notin> region 0xFF1006 4" using that payload_region [of x] by auto
  qed
  then have "blocks (st32 m 0xFF1006 v) 0xFF1000 [(False, 50), (True, 4034)] \<longleftrightarrow> blocks m 0xFF1000 [(False, 50), (True, 4034)]"
    by (intro blocks_cong) simp_all
  then have "heap_ok p [(False, 50), (True, 4034)] (st32 m 0xFF1006 v)" using okm by (simp add: heap_ok_def p(1) del: blocks.simps span.simps)
  then show ?thesis using mal out by blast
qed

context process_variable
begin

lemma user_program_runs:
  assumes "fresh_heap (get s)"
  shows "\<exists>m. user_program get upd v s = Some (Ret 0xFF1006 (upd (\<lambda>_. get s) s\<lparr>mem := m\<rparr>)) \<and>
    heap_ok (get s) [(False, 50), (True, 4034)] m \<and> ld32 m 0xFF1006 = v \<and>
    (\<forall>x. \<not> in_heap (get s) x \<longrightarrow> m x = mem s x)"
proof -
  obtain m where m: "malloc 50 (get s) 0 (s\<lparr>mem := initialise_heap (get s) (mem s)\<rparr>) = Some (Ret (0xFF1006, get s) (s\<lparr>mem := m\<rparr>))"
    "heap_ok (get s) [(False, 50), (True, 4034)] (st32 m 0xFF1006 v)" "\<forall>x. \<not> in_heap (get s) x \<longrightarrow> m x = mem s x"
    using fresh_heap_malloc [OF assms] by blast
  have "user_program get upd v s = Some (Ret 0xFF1006 (upd (\<lambda>_. get s) s\<lparr>mem := st32 m 0xFF1006 v\<rparr>))"
    using m(1) by (simp add: user_program_def laws store32_def Let_def)
  moreover have "st32 m 0xFF1006 v x = mem s x" if "\<not> in_heap (get s) x" for x
    using that m(3) payload_region [of x] fresh_heap_words(4) [OF assms, of x] by (auto simp: s32.st_frame)
  ultimately show ?thesis using m(2) by (intro exI [of _ "st32 m 0xFF1006 v"]) (simp add: s32.ld_st)
qed

end

section \<open>Properties\<close>

text \<open>The programs of the two processes, each started with the heap page that \<open>lol\<close> gave it: the heap is
  made, the block for 50 bytes is the first payload, the number is in it, and nothing outside the
  heap page changes. From then on the loop never stops and the number never changes: after any number
  \<open>n\<close> of rounds the screen has had exactly \<open>n div 50000000\<close> reports, all the same.\<close>

theorem user_programs_report:
  fixes s :: "'a boot_scheme"
  assumes "cursor_ok s" and "fresh_heap (proc2 s)" and "fresh_heap (proc3 s)"
  shows "\<exists>m m'. lol2 s = Some (Ret 0xFF1006 (s\<lparr>mem := m\<rparr>)) \<and> lol3 s = Some (Ret 0xFF1006 (s\<lparr>mem := m'\<rparr>)) \<and>
    heap_ok (proc2 s) [(False, 50), (True, 4034)] m \<and> heap_ok (proc3 s) [(False, 50), (True, 4034)] m' \<and>
    (\<forall>x. unat x < 0xFF1000 \<or> 0xFF2000 \<le> unat x \<longrightarrow> m x = mem s x \<and> m' x = mem s x) \<and>
    (\<forall>n. report_rounds 0xFF1006 n (0, s\<lparr>mem := m\<rparr>) =
       map_option (Pair (int (n mod 50000000))) (reports 0xFF1006 5 (n div 50000000) (s\<lparr>mem := m\<rparr>))) \<and>
    (\<forall>n. report_rounds 0xFF1006 n (0, s\<lparr>mem := m'\<rparr>) =
       map_option (Pair (int (n mod 50000000))) (reports 0xFF1006 6 (n div 50000000) (s\<lparr>mem := m'\<rparr>))) \<and>
    (\<forall>k. reports 0xFF1006 5 k (s\<lparr>mem := m\<rparr>) \<noteq> None \<and> reports 0xFF1006 6 k (s\<lparr>mem := m'\<rparr>) \<noteq> None)"
proof -
  have same: "proc2_update (\<lambda>_. proc2 s) s = s" "proc3_update (\<lambda>_. proc3 s) s = s" by (cases s, simp)+
  obtain m where m: "lol2 s = Some (Ret 0xFF1006 (s\<lparr>mem := m\<rparr>))" "heap_ok (proc2 s) [(False, 50), (True, 4034)] m"
    "ld32 m 0xFF1006 = 5" "\<forall>x. \<not> in_heap (proc2 s) x \<longrightarrow> m x = mem s x"
    using p2.user_program_runs [OF assms(2), of 5] by (auto simp: lol2_def same)
  obtain m' where m': "lol3 s = Some (Ret 0xFF1006 (s\<lparr>mem := m'\<rparr>))" "heap_ok (proc3 s) [(False, 50), (True, 4034)] m'"
    "ld32 m' 0xFF1006 = 6" "\<forall>x. \<not> in_heap (proc3 s) x \<longrightarrow> m' x = mem s x"
    using p3.user_program_runs [OF assms(3), of 6] by (auto simp: lol3_def same)
  have rr: "report_rounds 0xFF1006 n (0, s\<lparr>mem := u\<rparr>) =
      map_option (Pair (int (n mod 50000000))) (reports 0xFF1006 v (n div 50000000) (s\<lparr>mem := u\<rparr>))"
    "reports 0xFF1006 v k (s\<lparr>mem := u\<rparr>) \<noteq> None" if "ld32 u 0xFF1006 = v" for u v n k
  proof -
    have c: "cursor_ok (s\<lparr>mem := u\<rparr>)" using assms(1) by (simp add: cursor_ok_def)
    show "report_rounds 0xFF1006 n (0, s\<lparr>mem := u\<rparr>) =
      map_option (Pair (int (n mod 50000000))) (reports 0xFF1006 v (n div 50000000) (s\<lparr>mem := u\<rparr>))"
      using report_rounds_eq [OF payload_not_video c, of v 0 n] that by simp
    show "reports 0xFF1006 v k (s\<lparr>mem := u\<rparr>) \<noteq> None" using reports_return [OF c, of "0xFF1006" v k] by auto
  qed
  show ?thesis
    using m m' rr [OF m(3)] rr [OF m'(3)] fresh_heap_words(4) [OF assms(2)] fresh_heap_words(4) [OF assms(3)]
    by (intro exI [of _ m] exI [of _ m']) (auto simp: not_le not_less)
qed

section \<open>Witness: after main and lol\<close>

lemma user_programs_report_witness:
  "\<exists>s t m. main demo_addresses 0x7C00 0x25000 0x21000 demo_main = Some (Ret () s) \<and>
    lol 0x22000 0x23000 (last_state_regs (proc2 demo_main)) s = Some (Halt t) \<and>
    lol2 t = Some (Ret 0xFF1006 (t\<lparr>mem := m\<rparr>)) \<and>
    report_rounds 0xFF1006 50000001 (0, t\<lparr>mem := m\<rparr>) = map_option (Pair 1) (reports 0xFF1006 5 1 (t\<lparr>mem := m\<rparr>))"
proof -
  let ?r = "last_state_regs (proc2 demo_main)"
  obtain s where s: "main demo_addresses 0x7C00 0x25000 0x21000 demo_main = Some (Ret () s)"
    and st: "kmap 0x101000 4080 s" "two_rooms 0x101000 s" "sched_ok s" "\<forall>i. live (proc_arr s) i \<longleftrightarrow> i = 0" "cursor_ok s"
    by (rule demo_main_ready)
  have ps: "procs_ok (proc_arr s)" "\<forall>i. live (proc_arr s) i \<longleftrightarrow> i < 1" using st(3,4) by (simp_all add: sched_ok_def)
  from lol_runs [OF st(1,2) ps, of "0x22000" "0x23000" ?r] obtain t where
    t: "lol 0x22000 0x23000 ?r s = Some (Halt t)" "fresh_heap (proc2 t)" "fresh_heap (proc3 t)" "cursor_ok t"
    using st(5) by (auto simp: fresh_heap_def ready_process_def cursor_ok_def)
  obtain m where "lol2 t = Some (Ret 0xFF1006 (t\<lparr>mem := m\<rparr>))"
    "\<forall>n. report_rounds 0xFF1006 n (0, t\<lparr>mem := m\<rparr>) =
       map_option (Pair (int (n mod 50000000))) (reports 0xFF1006 5 (n div 50000000) (t\<lparr>mem := m\<rparr>))"
    using user_programs_report [OF t(4,2,3)] by blast
  then show ?thesis
    using s t(1) by (intro exI [of _ s] exI [of _ t] exI [of _ m]) (simp del: reports.simps report_rounds.simps)
qed

end
