(* ===== verification/AddressSpaces.thy ===== *)
theory AddressSpaces
  imports UserPrograms
begin

text \<open>
  What the two processes of \<open>main.c\<close> see of memory. A process loads and stores through its page directory:
  \<open>vload\<close> and \<open>vstores\<close> are what the processor does, \<open>view\<close> is the whole memory that a directory shows. The
  interface \<open>private_pages\<close> is a directory whose private addresses, the two pages from \<open>KERNEL_MEM_END\<close> on,
  lie in frames of its own; both directories made by \<open>lol\<close> are interpretations.
\<close>

section \<open>Memory through a directory\<close>

definition vload :: "u32 \<Rightarrow> mem \<Rightarrow> u32 \<Rightarrow> u8 option" where
  "vload d m va = map_option m (walk m d va)"

text \<open>Bytes stored one after the other; a store to an address that is not mapped faults.\<close>

fun vstores :: "u32 \<Rightarrow> (u32 \<times> u8) list \<Rightarrow> mem \<Rightarrow> mem option" where
  "vstores d [] m = Some m"
| "vstores d ((va, v) # ws) m =
     (case walk m d va of None \<Rightarrow> None | Some pa \<Rightarrow> vstores d ws (m(pa := v)))"

definition view :: "u32 \<Rightarrow> mem \<Rightarrow> mem" where
  "view d m = (\<lambda>va. case vload d m va of None \<Rightarrow> 0 | Some v \<Rightarrow> v)"

definition own :: "u32 \<Rightarrow> bool" where
  "own va \<longleftrightarrow> KERNEL_MEM_END \<le> va \<and> va < KERNEL_MEM_END + 0x2000"

lemma own_unat: "own va \<longleftrightarrow> 0xFF0000 \<le> unat va \<and> unat va < 0xFF2000"
  by (simp add: own_def KERNEL_MEM_END_def word_le_nat_alt word_less_nat_alt)

locale private_pages =
  fixes d :: u32 and I :: "mem \<Rightarrow> bool" and k :: u32
  assumes walk_private: "I m \<Longrightarrow> own va \<Longrightarrow> walk m d va = Some (va + k)"
    and walk_kernel: "I m \<Longrightarrow> va < KERNEL_MEM_END \<Longrightarrow> walk m d va = Some va"
    and store_keeps: "I m \<Longrightarrow> own va \<Longrightarrow> I (m(va + k := v))"
begin

lemma vload_eq:
  assumes "I m"
  shows "own va \<Longrightarrow> vload d m va = Some (m (va + k))" "va < KERNEL_MEM_END \<Longrightarrow> vload d m va = Some (m va)"
    "own va \<Longrightarrow> view d m va = m (va + k)" "va < KERNEL_MEM_END \<Longrightarrow> view d m va = m va"
  using assms by (simp_all add: vload_def view_def walk_private walk_kernel)

text \<open>Private stores do not fault; each frame byte has the last value stored to it.\<close>

lemma vstores_run:
  assumes "I m" "\<forall>w \<in> set ws. own (fst w)"
  shows "\<exists>m'. vstores d ws m = Some m' \<and> I m' \<and> (\<forall>x. m' x = (case map_of (rev ws) (x - k) of None \<Rightarrow> m x | Some v \<Rightarrow> v))"
  using assms
proof (induction ws arbitrary: m)
  case (Cons w ws)
  obtain va v where w: "w = (va, v)" by (cases w)
  have p: "own va" using Cons.prems(2) w by simp
  have "I (m(va + k := v))" using store_keeps [OF Cons.prems(1) p] .
  moreover have "\<forall>w \<in> set ws. own (fst w)" using Cons.prems(2) by simp
  ultimately obtain m' where m': "vstores d ws (m(va + k := v)) = Some m'" "I m'"
    "\<forall>x. m' x = (case map_of (rev ws) (x - k) of None \<Rightarrow> (m(va + k := v)) x | Some v \<Rightarrow> v)" using Cons.IH by blast
  have "x = va + k \<longleftrightarrow> x - k = va" for x by auto
  then have "m' x = (case map_of (rev (w # ws)) (x - k) of None \<Rightarrow> m x | Some v \<Rightarrow> v)" for x
    using m'(3) w by (simp add: map_add_def split: option.split)
  then show ?case using m'(1,2) w walk_private [OF Cons.prems(1) p] by auto
qed simp

lemma vstores_frame:
  assumes "I m" "\<forall>w \<in> set ws. own (fst w)" "vstores d ws m = Some m'" "\<not> own (x - k)"
  shows "m' x = m x"
proof -
  have "map_of (rev ws) (x - k) = None" using assms(2,4) by (auto simp: map_of_eq_None_iff)
  then show ?thesis using vstores_run [OF assms(1,2)] assms(3) by auto
qed

lemma store_back:
  assumes s: "I m" and xs: "\<forall>x \<in> set xs. own x" and out: "\<And>va. va \<notin> set xs \<Longrightarrow> m' va = view d m va"
  shows "\<exists>m2. vstores d (map (\<lambda>va. (va, m' va)) xs) m = Some m2 \<and> I m2 \<and>
    (\<forall>va. own va \<longrightarrow> view d m2 va = m' va) \<and> (\<forall>x. \<not> own (x - k) \<longrightarrow> m2 x = m x)"
proof -
  let ?ws = "map (\<lambda>va. (va, m' va)) xs"
  have ws: "\<forall>w \<in> set ?ws. own (fst w)" using xs by auto
  obtain m2 where m2: "vstores d ?ws m = Some m2" "I m2"
    "\<forall>x. m2 x = (case map_of (rev ?ws) (x - k) of None \<Rightarrow> m x | Some v \<Rightarrow> v)"
    using vstores_run [OF s ws] by blast
  have mo: "map_of (rev ?ws) va = (if va \<in> set xs then Some (m' va) else None)" for va
    by (simp add: rev_map map_of_map_restrict)
  have "view d m2 va = m' va" if "own va" for va
    using m2(3) mo [of va] out [of va] vload_eq(3) [OF s that] vload_eq(3) [OF m2(2) that] by simp
  then show ?thesis using m2(1,2) vstores_frame [OF s ws m2(1)] by blast
qed

end

section \<open>The two directories\<close>

definition spaces :: "nat \<Rightarrow> nat \<Rightarrow> mem \<Rightarrow> bool" where
  "spaces N2 N3 m \<longleftrightarrow> mroom N2 \<and> mroom N3 \<and> N2 + 20480 \<le> 0xFF0000 \<and> N3 + 20480 \<le> 0xFF0000 \<and>
     pspace N2 [4080, 4081] m \<and> pspace N3 [4082, 4083] m"

lemma spaces_store:
  assumes "spaces N2 N3 m" "0xFF0000 \<le> unat x"
  shows "spaces N2 N3 (m(x := v))"
proof -
  have "pspace N fs (m(x := v))" if "pspace N fs m" "mroom N" "N + 20480 \<le> 0xFF0000" "length fs \<le> 16" for N fs
    using that assms(2) by (intro pspace_cong [OF that(1)]) auto
  then show ?thesis using assms(1) by (simp add: spaces_def)
qed

lemma spaces_cong:
  assumes "spaces N2 N3 m" and "\<And>x. unat x < 0xFF0000 \<Longrightarrow> m' x = m x"
  shows "spaces N2 N3 m'"
proof -
  have "pspace N fs m'" if "pspace N fs m" "mroom N" "N + 20480 \<le> 0xFF0000" "length fs \<le> 16" for N fs
    using that assms(2) by (intro pspace_cong [OF that(1)]) auto
  then show ?thesis using assms(1) by (simp add: spaces_def)
qed

lemma own_shift: "own va \<Longrightarrow> unat (va + 0x2000) = unat va + 0x2000"
  by (subst unat_add_no_wrap) (simp_all add: own_unat)

lemma spaces_walk:
  assumes "spaces N2 N3 m"
  shows "va < KERNEL_MEM_END \<Longrightarrow> walk m (of_nat N2) va = Some va" "own va \<Longrightarrow> walk m (of_nat N2) va = Some va"
    "va < KERNEL_MEM_END \<Longrightarrow> walk m (of_nat N3) va = Some va" "own va \<Longrightarrow> walk m (of_nat N3) va = Some (va + 0x2000)"
  using assms two_pages_walk [of N2 4080 m va] two_pages_walk [of N3 4082 m va] by (simp_all add: spaces_def own_def)

interpretation d2: private_pages "of_nat N2" "spaces N2 N3" "0 :: u32" for N2 N3
proof unfold_locales
  show "spaces N2 N3 (m(va + 0 := v))" if "spaces N2 N3 m" "own va" for m va v
    using that by (intro spaces_store) (simp_all add: own_unat)
qed (simp_all add: spaces_walk)

interpretation d3: private_pages "of_nat N3" "spaces N2 N3" "0x2000 :: u32" for N2 N3
proof unfold_locales
  show "spaces N2 N3 (m(va + 0x2000 := v))" if "spaces N2 N3 m" "own va" for m va v
    using that by (intro spaces_store) (simp_all add: own_shift own_unat)
qed (simp_all add: spaces_walk)

lemma kernel_not_own:
  assumes "x < KERNEL_MEM_END"
  shows "\<not> own (x - 0)" "\<not> own (x - 0x2000)"
proof -
  show "\<not> own (x - 0)" using assms by (simp add: own_def not_le)
  show "\<not> own (x - 0x2000)"
  proof
    assume "own (x - 0x2000)"
    from own_shift [OF this] own_unat [of "x - 0x2000"] this assms show False
      by (simp add: KERNEL_MEM_END_def word_less_nat_alt)
  qed
qed

lemma apart_own:
  assumes "own va"
  shows "\<not> own (va + 0x2000 - 0)" "\<not> own (va - 0x2000)"
proof -
  show "\<not> own (va + 0x2000 - 0)" using assms own_shift [OF assms] own_unat [of va] by (simp add: own_unat)
  show "\<not> own (va - 0x2000)"
  proof
    assume o: "own (va - 0x2000)"
    from own_shift [OF o] own_unat [of "va - 0x2000"] o assms show False by (simp add: own_unat)
  qed
qed

text \<open>What one process stores, the other does not see.\<close>

lemma stores_apart:
  assumes s: "spaces N2 N3 m" and ws: "\<forall>w \<in> set ws. own (fst w)"
  shows "\<exists>m'. vstores (of_nat N2) ws m = Some m' \<and> spaces N2 N3 m' \<and>
      (\<forall>va. own va \<longrightarrow> vload (of_nat N3) m' va = vload (of_nat N3) m va \<and>
         vload (of_nat N2) m' va = (case map_of (rev ws) va of None \<Rightarrow> vload (of_nat N2) m va | v \<Rightarrow> v)) \<and>
      (\<forall>x. x < KERNEL_MEM_END \<longrightarrow> m' x = m x)"
    and "\<exists>m'. vstores (of_nat N3) ws m = Some m' \<and> spaces N2 N3 m' \<and>
      (\<forall>va. own va \<longrightarrow> vload (of_nat N2) m' va = vload (of_nat N2) m va \<and>
         vload (of_nat N3) m' va = (case map_of (rev ws) va of None \<Rightarrow> vload (of_nat N3) m va | v \<Rightarrow> v)) \<and>
      (\<forall>x. x < KERNEL_MEM_END \<longrightarrow> m' x = m x)"
proof -
  note kern = kernel_not_own and other = apart_own
  obtain m2 where m2: "vstores (of_nat N2) ws m = Some m2" "spaces N2 N3 m2"
    "\<forall>x. m2 x = (case map_of (rev ws) (x - 0) of None \<Rightarrow> m x | Some v \<Rightarrow> v)"
    using d2.vstores_run [OF s ws] by blast
  note f2 = d2.vstores_frame [OF s ws m2(1)]
  show "\<exists>m'. vstores (of_nat N2) ws m = Some m' \<and> spaces N2 N3 m' \<and>
      (\<forall>va. own va \<longrightarrow> vload (of_nat N3) m' va = vload (of_nat N3) m va \<and>
         vload (of_nat N2) m' va = (case map_of (rev ws) va of None \<Rightarrow> vload (of_nat N2) m va | v \<Rightarrow> v)) \<and>
      (\<forall>x. x < KERNEL_MEM_END \<longrightarrow> m' x = m x)"
    using m2 f2 [OF kern(1)] f2 [OF other(1)] d2.vload_eq(1) [OF s] d2.vload_eq(1) [OF m2(2)]
      d3.vload_eq(1) [OF s] d3.vload_eq(1) [OF m2(2)]
    by (intro exI [of _ m2]) (auto split: option.split)
  obtain m3 where m3: "vstores (of_nat N3) ws m = Some m3" "spaces N2 N3 m3"
    "\<forall>x. m3 x = (case map_of (rev ws) (x - 0x2000) of None \<Rightarrow> m x | Some v \<Rightarrow> v)"
    using d3.vstores_run [OF s ws] by blast
  note f3 = d3.vstores_frame [OF s ws m3(1)]
  show "\<exists>m'. vstores (of_nat N3) ws m = Some m' \<and> spaces N2 N3 m' \<and>
      (\<forall>va. own va \<longrightarrow> vload (of_nat N2) m' va = vload (of_nat N2) m va \<and>
         vload (of_nat N3) m' va = (case map_of (rev ws) va of None \<Rightarrow> vload (of_nat N3) m va | v \<Rightarrow> v)) \<and>
      (\<forall>x. x < KERNEL_MEM_END \<longrightarrow> m' x = m x)"
    using m3 f3 [OF kern(2)] f3 [OF other(2)] d2.vload_eq(1) [OF s] d2.vload_eq(1) [OF m3(2)]
      d3.vload_eq(1) [OF s] d3.vload_eq(1) [OF m3(2)]
    by (intro exI [of _ m3]) (auto split: option.split)
qed


section \<open>The programs on their own memory\<close>

text \<open>A program that changes no memory but the heap of its process, run on what the directory shows; the heap
  is then stored back through the directory.\<close>

definition heap_addresses :: "process \<Rightarrow> u32 list" where
  "heap_addresses p = map (\<lambda>i. heap_stack_boundary p + of_nat i) [0..<unat (heap_size p)]"

definition run_in :: "process \<Rightarrow> ('a boot_scheme \<Rightarrow> (u32, 'a boot_scheme) result) \<Rightarrow> 'a boot_scheme \<Rightarrow>
    (u32, 'a boot_scheme) result" where
  "run_in p f s =
     (let d = page_directory p in
      and_then (f (s\<lparr>mem := view d (mem s)\<rparr>)) (\<lambda>v t.
        case vstores d (map (\<lambda>va. (va, mem t va)) (heap_addresses p)) (mem s) of None \<Rightarrow> None
        | Some m \<Rightarrow> Some (Ret v (t\<lparr>mem := m\<rparr>))))"

lemma heap_addresses_iff:
  assumes "fresh_heap p"
  shows "x \<in> set (heap_addresses p) \<longleftrightarrow> in_heap p x"
proof -
  note p = fresh_heap_words [OF assms]
  have a: "unat (0xFF1000 + of_nat i :: u32) = 0xFF1000 + i" if "i < 0x1000" for i
    using that by (subst unat_add_of_nat) simp_all
  have "x \<in> set (heap_addresses p)" if "0xFF1000 \<le> unat x" "unat x < 0xFF2000"
  proof -
    have "x = 0xFF1000 + of_nat (unat x - 0xFF1000)"
      using a [of "unat x - 0xFF1000"] that by (simp add: word_unat_eq_iff)
    moreover have "unat x - 0xFF1000 < 0x1000" using that by simp
    ultimately show ?thesis unfolding heap_addresses_def p(2,3) by auto
  qed
  then show ?thesis using a by (auto simp: heap_addresses_def p)
qed

lemma fresh_own: "fresh_heap p \<Longrightarrow> in_heap p x \<Longrightarrow> own x"
  by (simp add: fresh_heap_words(4) own_unat)

lemma fresh_heap_cong:
  assumes "fresh_heap p" "heap_ok p [(False, 50), (True, 4034)] m" "\<And>x. own x \<Longrightarrow> m' x = m x"
  shows "heap_ok p [(False, 50), (True, 4034)] m'" "ld32 m' 0xFF1006 = ld32 m 0xFF1006"
proof -
  note p = fresh_heap_words [OF assms(1)]
  have "blocks m' 0xFF1000 [(False, 50), (True, 4034)] \<longleftrightarrow> blocks m 0xFF1000 [(False, 50), (True, 4034)]"
    using assms(3) by (intro blocks_cong) (auto simp: own_unat)
  then show "heap_ok p [(False, 50), (True, 4034)] m'"
    using assms(2) by (simp add: heap_ok_def p(1) del: blocks.simps span.simps)
  show "ld32 m' 0xFF1006 = ld32 m 0xFF1006"
    using assms(3) payload_region by (intro s32.ld_cong) (auto simp: own_unat)
qed

lemma lol_spaces:
  fixes s :: "'a boot_scheme"
  assumes "kmap KD 4080 s" "two_rooms KD s" "procs_ok (proc_arr s)" "\<forall>i. live (proc_arr s) i \<longleftrightarrow> i < 1"
  obtains t N2 N3 where "lol a2 a3 regis s = Some (Halt t)" "spaces N2 N3 (mem t)"
    "page_directory (proc2 t) = of_nat N2" "page_directory (proc3 t) = of_nat N3" "fresh_heap (proc2 t)" "fresh_heap (proc3 t)"
    "page_directory (proc_arr t ! 1) = of_nat N2" "page_directory (proc_arr t ! 2) = of_nat N3"
    "\<forall>x. unat x < KD \<longrightarrow> mem t x = mem s x"
proof -
  let ?N = "page_up (unat (place_addr s))"
  obtain m r where m: "lol a2 a3 regis s = Some (Halt
      (s\<lparr>mem := m, place_addr := of_nat (?N + 40960),
         proc2 := ready_process a2 regis ?N (proc2 s), proc3 := ready_process a3 r (?N + 20480) (proc3 s),
         proc_arr := (proc_arr s)[1 := (ready_process a2 regis ?N (proc2 s))\<lparr>pid := of_nat 1\<rparr>,
           2 := (ready_process a3 r (?N + 20480) (proc3 s))\<lparr>pid := of_nat 2\<rparr>]\<rparr>))" (is "_ = Some (Halt ?t)")
    "pspace ?N [4080, 4081] m" "pspace (?N + 20480) [4082, 4083] m" "\<forall>x. unat x < KD \<longrightarrow> m x = mem s x"
    using lol_runs [OF assms] by blast
  have len: "length (proc_arr s) = 32" using assms(3) by (simp add: procs_ok_def MAX_PROC_def)
  have "mroom ?N" "mroom (?N + 20480)" "?N + 40960 \<le> 0xFF0000"
    using two_rooms_page_room [OF assms(2), of 0 0] assms(2) by (simp_all add: page_room_def two_rooms_def)
  then have "spaces ?N (?N + 20480) (mem ?t)" using m(2,3) by (simp add: spaces_def)
  then show thesis
    using that [OF m(1), of ?N "?N + 20480"] m(4) len by (simp add: ready_process_def fresh_heap_def)
qed

text \<open>Each program in its own address space, one after the other.\<close>

lemma both_run:
  fixes t :: "'a boot_scheme"
  assumes s: "spaces N2 N3 (mem t)" and d: "page_directory (proc2 t) = of_nat N2" "page_directory (proc3 t) = of_nat N3"
    and f: "fresh_heap (proc2 t)" "fresh_heap (proc3 t)"
  shows "\<exists>m m'. run_in (proc2 t) lol2 t = Some (Ret 0xFF1006 (t\<lparr>mem := m\<rparr>)) \<and>
    run_in (proc3 t) lol3 (t\<lparr>mem := m\<rparr>) = Some (Ret 0xFF1006 (t\<lparr>mem := m'\<rparr>)) \<and>
    heap_ok (proc2 t) [(False, 50), (True, 4034)] (view (of_nat N2) m') \<and> ld32 (view (of_nat N2) m') 0xFF1006 = 5 \<and>
    heap_ok (proc3 t) [(False, 50), (True, 4034)] (view (of_nat N3) m') \<and> ld32 (view (of_nat N3) m') 0xFF1006 = 6 \<and>
    (\<forall>x. x < KERNEL_MEM_END \<longrightarrow> m' x = mem t x)"
proof -
  have same: "proc2_update (\<lambda>_. proc2 t) t = t" "proc3_update (\<lambda>_. proc3 t) t = t" by (cases t, simp)+
  let ?t2 = "t\<lparr>mem := view (of_nat N2) (mem t)\<rparr>"
  obtain u where u: "lol2 ?t2 = Some (Ret 0xFF1006 (t\<lparr>mem := u\<rparr>))" "heap_ok (proc2 t) [(False, 50), (True, 4034)] u"
    "ld32 u 0xFF1006 = 5" "\<forall>x. \<not> in_heap (proc2 t) x \<longrightarrow> u x = view (of_nat N2) (mem t) x"
    using p2.user_program_runs [of ?t2 5] f(1) by (auto simp: lol2_def same p2.laws)
  obtain m where m: "vstores (of_nat N2) (map (\<lambda>va. (va, u va)) (heap_addresses (proc2 t))) (mem t) = Some m" "spaces N2 N3 m"
    "\<forall>va. own va \<longrightarrow> view (of_nat N2) m va = u va" "\<forall>x. \<not> own (x - 0) \<longrightarrow> m x = mem t x"
    using d2.store_back [OF s, of "heap_addresses (proc2 t)" u] u(4) fresh_own [OF f(1)] heap_addresses_iff [OF f(1)] by auto
  let ?t3 = "t\<lparr>mem := view (of_nat N3) m\<rparr>"
  obtain w where w: "lol3 ?t3 = Some (Ret 0xFF1006 (t\<lparr>mem := w\<rparr>))" "heap_ok (proc3 t) [(False, 50), (True, 4034)] w"
    "ld32 w 0xFF1006 = 6" "\<forall>x. \<not> in_heap (proc3 t) x \<longrightarrow> w x = view (of_nat N3) m x"
    using p3.user_program_runs [of ?t3 6] f(2) by (auto simp: lol3_def same p3.laws)
  obtain m' where m': "vstores (of_nat N3) (map (\<lambda>va. (va, w va)) (heap_addresses (proc3 t))) m = Some m'" "spaces N2 N3 m'"
    "\<forall>va. own va \<longrightarrow> view (of_nat N3) m' va = w va" "\<forall>x. \<not> own (x - 0x2000) \<longrightarrow> m' x = m x"
    using d3.store_back [OF m(2), of "heap_addresses (proc3 t)" w] w(4) fresh_own [OF f(2)] heap_addresses_iff [OF f(2)] by auto
  have v2: "view (of_nat N2) m' va = u va" if "own va" for va
    using that m(3) m'(4) apart_own(2) [OF that] d2.vload_eq(3) [OF m(2) that] d2.vload_eq(3) [OF m'(2) that] by simp
  have "run_in (proc2 t) lol2 t = Some (Ret 0xFF1006 (t\<lparr>mem := m\<rparr>))"
    using u(1) m(1) by (simp add: run_in_def d(1) Let_def)
  moreover have "run_in (proc3 t) lol3 (t\<lparr>mem := m\<rparr>) = Some (Ret 0xFF1006 (t\<lparr>mem := m'\<rparr>))"
    using w(1) m'(1) by (simp add: run_in_def d(2) Let_def)
  moreover have "m' x = mem t x" if "x < KERNEL_MEM_END" for x
    using m(4) m'(4) kernel_not_own [OF that] by simp
  ultimately show ?thesis
    using fresh_heap_cong [OF f(1) u(2) v2] fresh_heap_cong [OF f(2) w(2)] m'(3) u(3) w(3)
    by (intro exI [of _ m] exI [of _ m']) simp
qed


section \<open>Properties\<close>

text \<open>Stores of both processes in any order: \<open>False\<close> is the process of \<open>lol2\<close>, \<open>True\<close> that of \<open>lol3\<close>.\<close>

fun interleaved :: "u32 \<Rightarrow> u32 \<Rightarrow> (bool \<times> u32 \<times> u8) list \<Rightarrow> mem \<Rightarrow> mem option" where
  "interleaved d2 d3 [] m = Some m"
| "interleaved d2 d3 ((b, w) # es) m = Option.bind (vstores (if b then d3 else d2) [w] m) (interleaved d2 d3 es)"

lemma interleaved_run:
  assumes "spaces N2 N3 m" "\<forall>e \<in> set es. own (fst (snd e))"
  shows "\<exists>m'. interleaved (of_nat N2) (of_nat N3) es m = Some m' \<and>
    (\<forall>va. own va \<longrightarrow>
       vload (of_nat N2) m' va = (case map_of (rev (map snd (filter (\<lambda>e. \<not> fst e) es))) va of None \<Rightarrow> vload (of_nat N2) m va | v \<Rightarrow> v) \<and>
       vload (of_nat N3) m' va = (case map_of (rev (map snd (filter fst es))) va of None \<Rightarrow> vload (of_nat N3) m va | v \<Rightarrow> v)) \<and>
    (\<forall>x. x < KERNEL_MEM_END \<longrightarrow> m' x = m x)"
  using assms
proof (induction es arbitrary: m)
  case (Cons e es)
  obtain b w where e: "e = (b, w)" by (cases e)
  have w: "\<forall>w' \<in> set [w]. own (fst w')" using Cons.prems(2) e by simp
  obtain m1 where m1: "vstores (if b then of_nat N3 else of_nat N2) [w] m = Some m1" "spaces N2 N3 m1"
    "\<forall>x. x < KERNEL_MEM_END \<longrightarrow> m1 x = m x"
    "\<forall>va. own va \<longrightarrow> vload (of_nat N2) m1 va =
       (if \<not> b \<and> va = fst w then Some (snd w) else vload (of_nat N2) m va) \<and>
       vload (of_nat N3) m1 va = (if b \<and> va = fst w then Some (snd w) else vload (of_nat N3) m va)"
    using stores_apart [OF Cons.prems(1) w] by (cases b; cases w) (auto split: option.splits)
  have "\<forall>e \<in> set es. own (fst (snd e))" using Cons.prems(2) by simp
  from Cons.IH [OF m1(2) this] obtain m' where m': "interleaved (of_nat N2) (of_nat N3) es m1 = Some m'"
    "\<forall>va. own va \<longrightarrow>
       vload (of_nat N2) m' va = (case map_of (rev (map snd (filter (\<lambda>e. \<not> fst e) es))) va of None \<Rightarrow> vload (of_nat N2) m1 va | v \<Rightarrow> v) \<and>
       vload (of_nat N3) m' va = (case map_of (rev (map snd (filter fst es))) va of None \<Rightarrow> vload (of_nat N3) m1 va | v \<Rightarrow> v)"
    "\<forall>x. x < KERNEL_MEM_END \<longrightarrow> m' x = m1 x" by blast
  have "interleaved (of_nat N2) (of_nat N3) (e # es) m = Some m'" using e m1(1) m'(1) by simp
  moreover have "vload (of_nat N2) m' va = (case map_of (rev (map snd (filter (\<lambda>e. \<not> fst e) (e # es)))) va of None \<Rightarrow> vload (of_nat N2) m va | v \<Rightarrow> v) \<and>
       vload (of_nat N3) m' va = (case map_of (rev (map snd (filter fst (e # es)))) va of None \<Rightarrow> vload (of_nat N3) m va | v \<Rightarrow> v)"
    if "own va" for va
    using m'(2) m1(4) that e by (cases w) (auto simp: map_add_def split: option.split)
  ultimately show ?case using m'(3) m1(3) by (intro exI [of _ m']) simp
qed simp

text \<open>C6. The processes do not interfere. Once \<open>lol\<close> has made them, they may store to their two pages in any
  order and interleaving: no store faults, each process reads back its own last store to an address and
  otherwise what was there, whatever the other one stored at the same address, and the kernel's
  memory does not change.\<close>

theorem processes_noninterfering:
  fixes s :: "'a boot_scheme"
  assumes "kmap KD 4080 s" and "two_rooms KD s" and "sched_ok s" and "\<forall>i. live (proc_arr s) i \<longleftrightarrow> i = 0"
  shows "\<exists>t d2 d3. lol a2 a3 regis s = Some (Halt t) \<and>
    page_directory (proc_arr t ! 1) = d2 \<and> page_directory (proc_arr t ! 2) = d3 \<and>
    (\<forall>es. (\<forall>e \<in> set es. KERNEL_MEM_END \<le> fst (snd e) \<and> fst (snd e) < KERNEL_MEM_END + 0x2000) \<longrightarrow>
      (\<exists>m. interleaved d2 d3 es (mem t) = Some m \<and>
        (\<forall>va. KERNEL_MEM_END \<le> va \<and> va < KERNEL_MEM_END + 0x2000 \<longrightarrow>
           vload d2 m va = (case map_of (rev (map snd (filter (\<lambda>e. \<not> fst e) es))) va of None \<Rightarrow> vload d2 (mem t) va | v \<Rightarrow> v) \<and>
           vload d3 m va = (case map_of (rev (map snd (filter fst es))) va of None \<Rightarrow> vload d3 (mem t) va | v \<Rightarrow> v)) \<and>
        (\<forall>x. x < KERNEL_MEM_END \<longrightarrow> m x = mem t x)))"
proof -
  have ps: "procs_ok (proc_arr s)" "\<forall>i. live (proc_arr s) i \<longleftrightarrow> i < 1" using assms(3,4) by (simp_all add: sched_ok_def)
  obtain t N2 N3 where t: "lol a2 a3 regis s = Some (Halt t)" "spaces N2 N3 (mem t)"
    "page_directory (proc_arr t ! 1) = of_nat N2" "page_directory (proc_arr t ! 2) = of_nat N3"
    by (rule lol_spaces [OF assms(1,2) ps])
  then show ?thesis using interleaved_run [OF t(2)] unfolding own_def by blast
qed

text \<open>C23. The two programs run in one memory. Each makes its heap through its own directory, \<open>lol2\<close> first and
  \<open>lol3\<close> after it, and both store their number at the same virtual address: at the end each heap is in
  order, the first process still reads 5 there and the second reads 6, and the kernel's memory is
  as \<open>lol\<close> left it.\<close>

theorem programs_share_memory:
  fixes s :: "'a boot_scheme"
  assumes "kmap KD 4080 s" and "two_rooms KD s" and "sched_ok s" and "\<forall>i. live (proc_arr s) i \<longleftrightarrow> i = 0"
  shows "\<exists>t m m'. lol a2 a3 regis s = Some (Halt t) \<and>
    run_in (proc2 t) lol2 t = Some (Ret 0xFF1006 (t\<lparr>mem := m\<rparr>)) \<and>
    run_in (proc3 t) lol3 (t\<lparr>mem := m\<rparr>) = Some (Ret 0xFF1006 (t\<lparr>mem := m'\<rparr>)) \<and>
    heap_ok (proc2 t) [(False, 50), (True, 4034)] (view (page_directory (proc2 t)) m') \<and>
    ld32 (view (page_directory (proc2 t)) m') 0xFF1006 = 5 \<and>
    heap_ok (proc3 t) [(False, 50), (True, 4034)] (view (page_directory (proc3 t)) m') \<and>
    ld32 (view (page_directory (proc3 t)) m') 0xFF1006 = 6 \<and>
    (\<forall>x. x < KERNEL_MEM_END \<longrightarrow> m' x = mem t x)"
proof -
  have ps: "procs_ok (proc_arr s)" "\<forall>i. live (proc_arr s) i \<longleftrightarrow> i < 1" using assms(3,4) by (simp_all add: sched_ok_def)
  obtain t N2 N3 where t: "lol a2 a3 regis s = Some (Halt t)" "spaces N2 N3 (mem t)"
    "page_directory (proc2 t) = of_nat N2" "page_directory (proc3 t) = of_nat N3" "fresh_heap (proc2 t)" "fresh_heap (proc3 t)"
    by (rule lol_spaces [OF assms(1,2) ps])
  show ?thesis using t(1) both_run [OF t(2-6)] unfolding t(3,4) [symmetric] by blast
qed

section \<open>Witnesses\<close>

lemma processes_noninterfering_witness:
  "\<exists>s t d2 d3 m. main demo_addresses 0x7C00 0x25000 0x21000 demo_main = Some (Ret () s) \<and>
    lol 0x22000 0x23000 (last_state_regs (proc2 demo_main)) s = Some (Halt t) \<and>
    interleaved d2 d3 [(False, 0xFF1006, 5), (True, 0xFF1006, 6)] (mem t) = Some m \<and>
    vload d2 m 0xFF1006 = Some 5 \<and> vload d3 m 0xFF1006 = Some 6"
proof -
  obtain s where s: "main demo_addresses 0x7C00 0x25000 0x21000 demo_main = Some (Ret () s)"
    and st: "kmap 0x101000 4080 s" "two_rooms 0x101000 s" "sched_ok s" "\<forall>i. live (proc_arr s) i \<longleftrightarrow> i = 0"
    by (rule demo_main_ready)
  let ?es = "[(False, 0xFF1006, 5), (True, 0xFF1006, 6)] :: (bool \<times> u32 \<times> u8) list"
  obtain t d2 d3 where t: "lol 0x22000 0x23000 (last_state_regs (proc2 demo_main)) s = Some (Halt t)"
    "\<forall>es. (\<forall>e \<in> set es. KERNEL_MEM_END \<le> fst (snd e) \<and> fst (snd e) < KERNEL_MEM_END + 0x2000) \<longrightarrow>
      (\<exists>m. interleaved d2 d3 es (mem t) = Some m \<and>
        (\<forall>va. KERNEL_MEM_END \<le> va \<and> va < KERNEL_MEM_END + 0x2000 \<longrightarrow>
           vload d2 m va = (case map_of (rev (map snd (filter (\<lambda>e. \<not> fst e) es))) va of None \<Rightarrow> vload d2 (mem t) va | v \<Rightarrow> v) \<and>
           vload d3 m va = (case map_of (rev (map snd (filter fst es))) va of None \<Rightarrow> vload d3 (mem t) va | v \<Rightarrow> v)) \<and>
        (\<forall>x. x < KERNEL_MEM_END \<longrightarrow> m x = mem t x))"
    using processes_noninterfering [OF st, of "0x22000" "0x23000" "last_state_regs (proc2 demo_main)"]
    by (elim exE conjE) (rule that)
  have "\<forall>e \<in> set ?es. KERNEL_MEM_END \<le> fst (snd e) \<and> fst (snd e) < KERNEL_MEM_END + 0x2000"
    by (simp add: KERNEL_MEM_END_def)
  from t(2) [THEN spec, THEN mp, OF this] obtain m where m: "interleaved d2 d3 ?es (mem t) = Some m"
    "\<forall>va. KERNEL_MEM_END \<le> va \<and> va < KERNEL_MEM_END + 0x2000 \<longrightarrow>
       vload d2 m va = (case map_of (rev (map snd (filter (\<lambda>e. \<not> fst e) ?es))) va of None \<Rightarrow> vload d2 (mem t) va | v \<Rightarrow> v) \<and>
       vload d3 m va = (case map_of (rev (map snd (filter fst ?es))) va of None \<Rightarrow> vload d3 (mem t) va | v \<Rightarrow> v)"
    by (elim exE conjE) (rule that)
  have "vload d2 m 0xFF1006 = Some 5 \<and> vload d3 m 0xFF1006 = Some 6"
    using m(2) [rule_format, of "0xFF1006"] by (simp add: KERNEL_MEM_END_def)
  then show ?thesis using s t(1) m(1) by blast
qed

lemma programs_share_memory_witness:
  "\<exists>s t m m'. main demo_addresses 0x7C00 0x25000 0x21000 demo_main = Some (Ret () s) \<and>
    lol 0x22000 0x23000 (last_state_regs (proc2 demo_main)) s = Some (Halt t) \<and>
    run_in (proc2 t) lol2 t = Some (Ret 0xFF1006 (t\<lparr>mem := m\<rparr>)) \<and>
    run_in (proc3 t) lol3 (t\<lparr>mem := m\<rparr>) = Some (Ret 0xFF1006 (t\<lparr>mem := m'\<rparr>)) \<and>
    ld32 (view (page_directory (proc2 t)) m') 0xFF1006 = 5"
proof -
  obtain s where s: "main demo_addresses 0x7C00 0x25000 0x21000 demo_main = Some (Ret () s)"
    and st: "kmap 0x101000 4080 s" "two_rooms 0x101000 s" "sched_ok s" "\<forall>i. live (proc_arr s) i \<longleftrightarrow> i = 0"
    by (rule demo_main_ready)
  from programs_share_memory [OF st, of "0x22000" "0x23000" "last_state_regs (proc2 demo_main)"] s show ?thesis by blast
qed

end
