(* ===== verification/HeapClient.thy ===== *)
theory HeapClient
  imports HeapSpec
begin

text \<open>
  The heap of a process over its whole life: any sequence of \<open>malloc\<close>, \<open>free\<close> and stores into blocks the
  client owns. A configuration pairs the state of the kernel with what the client knows: the blocks it
  owns, with the sizes it asked for, and what it last stored where. \<open>heap_step\<close> is the step relation;
  the client frees only what it owns and does not ask for more than the address space set aside for the
  heap can still hold.
\<close>

section \<open>Sessions\<close>

text \<open>\<open>L\<close> is the size to which the heap may grow.\<close>

definition quota :: "nat \<Rightarrow> process \<Rightarrow> 'a paging_scheme \<Rightarrow> bool" where
  "quota L p s \<longleftrightarrow> (\<exists>N. ready N p s \<and> unat (heap_size p) + 4096 * N = L)"

type_synonym knowledge = "(u32 \<Rightarrow> nat option) \<times> (u32 \<Rightarrow> u8 option)"

inductive heap_step ::
  "nat \<Rightarrow> process \<times> 'a paging_scheme \<times> knowledge \<Rightarrow> process \<times> 'a paging_scheme \<times> knowledge \<Rightarrow> bool"
  for L :: nat where
  Malloc: "6 \<le> n \<Longrightarrow> unat (heap_size p) + n + 6 \<le> L \<Longrightarrow> malloc (of_nat n) p 0 s = Some (Ret (q, p') t) \<Longrightarrow>
    heap_step L (p, s, own, val) (p', t, own(q \<mapsto> n), val)"
| Free: "own q = Some n \<Longrightarrow> free_block p q (mem s) = Some m \<Longrightarrow>
    heap_step L (p, s, own, val) (p, s\<lparr>mem := m\<rparr>, own(q := None), val |` (- region q n))"
| Store: "own q = Some n \<Longrightarrow> i < n \<Longrightarrow>
    heap_step L (p, s, own, val)
      (p, s\<lparr>mem := (mem s)(q + of_nat i := b)\<rparr>, own, val(q + of_nat i \<mapsto> b))"

inductive_cases heap_stepE: "heap_step L (p, s, own, val) c"

section \<open>Payloads do not overlap\<close>

lemma sorted_wrt_two:
  "sorted_wrt P xs \<Longrightarrow> x \<in> set xs \<Longrightarrow> y \<in> set xs \<Longrightarrow> x = y \<or> P x y \<or> P y x"
  by (induction xs) auto

lemma allocs_apart:
  assumes "(q, k) \<in> set (allocs a bs)" "(q', k') \<in> set (allocs a bs)" "(q, k) \<noteq> (q', k')"
  shows "q + k + 6 \<le> q' \<or> q' + k' + 6 \<le> q"
  using sorted_wrt_two [OF allocs_disjoint assms(1,2)] assms(3) by auto

section \<open>The invariant\<close>

text \<open>Every block of the client is inside a payload in use, what it stored is still there, and it knows values
  only in blocks it owns.\<close>

definition session_ok :: "nat \<Rightarrow> blk list \<Rightarrow> process \<times> 'a paging_scheme \<times> knowledge \<Rightarrow> bool" where
  "session_ok L bs = (\<lambda>(p, s, own, val).
     quota L p s \<and> heap_ok p bs (mem s) \<and>
     (\<forall>q n. own q = Some n \<longrightarrow> 0 < n \<and> (\<exists>k\<ge>n. (unat q, k) \<in> set (allocs (unat (heap_stack_boundary p)) bs))) \<and>
     (\<forall>x b. val x = Some b \<longrightarrow> mem s x = b \<and> (\<exists>q n. own q = Some n \<and> x \<in> region q n)))"

lemma owned_region:
  assumes "heap_ok p bs m" "(unat q, k) \<in> set (allocs (unat (heap_stack_boundary p)) bs)" "n \<le> k"
  shows "x \<in> region q n \<longleftrightarrow> unat q \<le> unat x \<and> unat x < unat q + n"
proof -
  have "unat q + k \<le> unat (heap_stack_boundary p) + span bs" using allocs_bounds [OF assms(2)] by simp
  then have "unat q + n \<le> 4294967296" using assms(1,3) by (simp add: heap_ok_def)
  then show ?thesis by (rule region_iff)
qed

lemma session_owned:
  assumes "session_ok L bs (p, s, own, val)" "own q = Some n"
  obtains k where "0 < n" "n \<le> k" "(unat q, k) \<in> set (allocs (unat (heap_stack_boundary p)) bs)"
proof -
  have "0 < n \<and> (\<exists>k\<ge>n. (unat q, k) \<in> set (allocs (unat (heap_stack_boundary p)) bs))"
    using assms unfolding session_ok_def by blast
  then show ?thesis using that by blast
qed

lemma session_known:
  assumes "session_ok L bs (p, s, own, val)" "val x = Some b"
  obtains q n where "own q = Some n" "x \<in> region q n"
proof -
  have "\<exists>q n. own q = Some n \<and> x \<in> region q n"
    using assms unfolding session_ok_def by blast
  then show ?thesis using that by blast
qed

lemma session_disjoint:
  assumes "session_ok L bs (p, s, own, val)" "own q = Some n" "own q' = Some n'" "q \<noteq> q'"
  shows "region q n \<inter> region q' n' = {}"
proof -
  have ok: "heap_ok p bs (mem s)" using assms(1) by (simp add: session_ok_def)
  obtain k k' where k: "n \<le> k" "(unat q, k) \<in> set (allocs (unat (heap_stack_boundary p)) bs)"
    and k': "n' \<le> k'" "(unat q', k') \<in> set (allocs (unat (heap_stack_boundary p)) bs)"
    using session_owned [OF assms(1,2)] session_owned [OF assms(1,3)] by metis
  have "unat q \<noteq> unat q'" using assms(4) by (simp add: word_unat_eq_iff)
  then have "unat q + k + 6 \<le> unat q' \<or> unat q' + k' + 6 \<le> unat q" using allocs_apart [OF k(2) k'(2)] by simp
  then show ?thesis using k(1) k'(1) by (auto simp: owned_region [OF ok k(2,1)] owned_region [OF ok k'(2,1)])
qed

lemma quota_keep: "quota L p s \<Longrightarrow> (\<And>x. \<not> in_heap p x \<Longrightarrow> m x = mem s x) \<Longrightarrow> quota L p (s\<lparr>mem := m\<rparr>)"
  unfolding quota_def using pages.keep by blast

text \<open>\<open>malloc\<close> within the quota.\<close>

lemma malloc_within_quota:
  assumes "quota L p s" "heap_ok p bs (mem s)" "6 \<le> n" "unat (heap_size p) + n + 6 \<le> L"
  shows "\<exists>q p' t cs. malloc (of_nat n) p 0 s = Some (Ret (of_nat q, p') t) \<and>
    heap_stack_boundary p' = heap_stack_boundary p \<and> quota L p' t \<and> heap_ok p' cs (mem t) \<and>
    one_more (unat (heap_stack_boundary p)) bs cs q n \<and>
    payloads_kept (unat (heap_stack_boundary p)) bs (mem s) (mem t)"
proof -
  obtain N where N: "ready N p s" "unat (heap_size p) + 4096 * N = L" using assms(1) by (auto simp: quota_def)
  then have le: "n \<le> 4294967295" using assms(4) pages.room [OF N(1)] by simp
  have "n + 6 \<le> tail_room bs + 4096 * N" using N(2) assms(4) by simp
  from pages.malloc_loop_allocates [OF N(1) assms(2,3) this] show ?thesis
    using le assms(3) N(2) by (simp add: malloc_loop_nonzero quota_def) blast
qed

text \<open>A change that keeps the payloads in use keeps what the client knows.\<close>

lemma payload_kept:
  assumes "session_ok L bs (p, s, own, val)" "val x = Some b" "own q = Some n" "x \<in> region q n"
    and "payloads_kept (unat (heap_stack_boundary p)) cs (mem s) m"
    and "\<And>k. (unat q, k) \<in> set (allocs (unat (heap_stack_boundary p)) bs) \<Longrightarrow> (unat q, k) \<in> set (allocs (unat (heap_stack_boundary p)) cs)"
  shows "m x = b"
proof -
  have ok: "heap_ok p bs (mem s)" using assms(1) by (simp add: session_ok_def)
  obtain k where k: "n \<le> k" "(unat q, k) \<in> set (allocs (unat (heap_stack_boundary p)) bs)"
    by (rule session_owned [OF assms(1,3)])
  have "unat q \<le> unat x" "unat x < unat q + k" using assms(4) k(1) by (auto simp: owned_region [OF ok k(2,1)])
  then have "m x = mem s x" using assms(5) assms(6) [OF k(2)] unfolding payloads_kept_def by blast
  then show ?thesis using assms(1,2) by (simp add: session_ok_def)
qed

lemma session_malloc:
  assumes ok: "session_ok L bs (p, s, own, val)" and n: "6 \<le> n" "unat (heap_size p) + n + 6 \<le> L"
    and r: "malloc (of_nat n) p 0 s = Some (Ret (q, p') t)"
  shows "\<exists>cs. session_ok L cs (p', t, own(q \<mapsto> n), val)"
proof -
  let ?a = "unat (heap_stack_boundary p)"
  have h: "quota L p s" "heap_ok p bs (mem s)" using ok by (simp_all add: session_ok_def)
  from malloc_within_quota [OF h n] r obtain q' cs where q: "q = of_nat q'"
    and t: "heap_stack_boundary p' = heap_stack_boundary p" "quota L p' t" "heap_ok p' cs (mem t)"
      "one_more ?a bs cs q' n" "payloads_kept ?a bs (mem s) (mem t)" by auto
  obtain xs ys k where al: "allocs ?a bs = xs @ ys" "allocs ?a cs = xs @ (q', k) # ys" "n \<le> k"
    using t(4) by (auto simp: one_more_def)
  have "q' + k \<le> ?a + span cs" using allocs_bounds [of q' k ?a cs] al(2) by simp
  then have u: "unat q = q'" using t(1,3) n al(3) by (simp add: q heap_ok_def unat_of_nat_32)
  have new: "own q = None"
  proof (rule ccontr)
    assume "own q \<noteq> None"
    then obtain j where "own q = Some j" by auto
    then obtain l where "(q', l) \<in> set (allocs ?a bs)" using session_owned [OF ok] u by metis
    then have "(q', l) \<in> set xs \<or> (q', l) \<in> set ys" by (simp add: al(1))
    then have "sorted_wrt (\<lambda>(p, k) (q, l). p + k + 6 \<le> q) (xs @ (q', k) # ys) \<Longrightarrow> False"
      by (auto simp: sorted_wrt_append)
    then show False using allocs_disjoint [of ?a cs] unfolding al(2) by blast
  qed
  have "0 < j \<and> (\<exists>k\<ge>j. (unat x, k) \<in> set (allocs ?a cs))" if x: "(own(q \<mapsto> n)) x = Some j" for x j
  proof (cases "x = q")
    case True
    with x n(1) al(2,3) u show ?thesis by auto
  next
    case False
    with x obtain l where "0 < j" "j \<le> l" "(unat x, l) \<in> set (allocs ?a bs)" using session_owned [OF ok] by (metis fun_upd_other)
    then show ?thesis by (auto simp: al(1,2))
  qed
  moreover have "mem t x = b \<and> (\<exists>y j. (own(q \<mapsto> n)) y = Some j \<and> x \<in> region y j)" if v: "val x = Some b" for x b
  proof -
    obtain y j where y: "own y = Some j" "x \<in> region y j" by (rule session_known [OF ok v])
    then have "mem t x = b" by (intro payload_kept [OF ok v _ _ t(5)]) auto
    moreover have "y \<noteq> q" using y(1) new by auto
    ultimately show ?thesis using y by auto
  qed
  ultimately show ?thesis using t(1-3) by (auto simp: session_ok_def)
qed

lemma session_free:
  assumes ok: "session_ok L bs (p, s, own, val)" and q: "own q = Some n"
  shows "\<exists>m cs. free_block p q (mem s) = Some m \<and> session_ok L cs (p, s\<lparr>mem := m\<rparr>, own(q := None), val |` (- region q n))"
proof -
  let ?a = "unat (heap_stack_boundary p)"
  have h: "quota L p s" "heap_ok p bs (mem s)" using ok by (simp_all add: session_ok_def)
  obtain k where k: "n \<le> k" "(unat q, k) \<in> set (allocs ?a bs)" by (rule session_owned [OF ok q])
  obtain bs1 bs2 where d: "bs = bs1 @ (False, k) # bs2" "unat q = ?a + span bs1 + 6" using allocs_split [OF k(2)] by blast
  let ?bs = "bs1 @ (True, k) # bs2" and ?cs = "coalesce (bs1 @ (True, k) # bs2)"
  have "of_nat (?a + span bs1 + 6) = q" unfolding d(2) [symmetric] by simp
  then obtain m where m: "free_block p q (mem s) = Some m" "heap_ok p ?cs m" "payloads_kept ?a ?bs (mem s) m"
    "\<forall>x. \<not> in_heap p x \<longrightarrow> m x = mem s x"
    using free_block_releases [of p bs1 k bs2 "mem s"] h(2) by (auto simp: d(1))
  have rest: "(x, j) \<in> set (allocs ?a ?bs)" if "(x, j) \<in> set (allocs ?a bs)" "x \<noteq> unat q" for x j
    using that d by (auto simp: allocs_append)
  have al: "allocs ?a ?cs = allocs ?a ?bs" by simp
  have "quota L p (s\<lparr>mem := m\<rparr>)" by (rule quota_keep [OF h(1)]) (use m(4) in blast)
  moreover have "0 < j \<and> (\<exists>l\<ge>j. (unat x, l) \<in> set (allocs ?a ?cs))" if x: "(own(q := None)) x = Some j" for x j
  proof -
    have "own x = Some j" "unat x \<noteq> unat q" using x by (auto split: if_splits simp: word_unat_eq_iff)
    then show ?thesis using session_owned [OF ok] rest unfolding al by metis
  qed
  moreover have "m x = b \<and> (\<exists>y j. (own(q := None)) y = Some j \<and> x \<in> region y j)" if "(val |` (- region q n)) x = Some b" for x b
  proof -
    have v: "val x = Some b" "x \<notin> region q n" using that by (auto simp: restrict_map_def split: if_splits)
    obtain y j where y: "own y = Some j" "x \<in> region y j" by (rule session_known [OF ok v(1)])
    then have ne: "y \<noteq> q" using q v(2) by auto
    then have "unat y \<noteq> unat q" by (simp add: word_unat_eq_iff)
    then have "m x = b" using rest by (intro payload_kept [OF ok v(1) y m(3)]) auto
    with y ne show ?thesis by auto
  qed
  ultimately show ?thesis using m(1,2) by (auto simp: session_ok_def)
qed

lemma session_store:
  assumes ok: "session_ok L bs (p, s, own, val)" and q: "own q = Some n" and i: "i < n"
  shows "session_ok L bs (p, s\<lparr>mem := (mem s)(q + of_nat i := b)\<rparr>, own, val(q + of_nat i \<mapsto> b))"
proof -
  let ?a = "unat (heap_stack_boundary p)" and ?x = "q + of_nat i"
  let ?m = "(mem s)(?x := b)"
  have h: "quota L p s" "heap_ok p bs (mem s)" using ok by (simp_all add: session_ok_def)
  obtain k where k: "n \<le> k" "(unat q, k) \<in> set (allocs ?a bs)" by (rule session_owned [OF ok q])
  have bd: "?a + 6 \<le> unat q" "unat q + k \<le> ?a + span bs" using allocs_bounds [OF k(2)] by simp_all
  then have "unat q + i < 4294967296" using h(2) i k(1) by (simp add: heap_ok_def)
  then have u: "unat ?x = unat q + i" by (simp add: unat_add_of_nat)
  then have "\<not> in_header ?a bs (unat ?x)" using allocs_not_header [OF k(2), of "unat ?x"] i k(1) by simp
  then have "blocks ?m ?a bs \<longleftrightarrow> blocks (mem s) ?a bs" using h(2) by (intro blocks_cong) (auto simp: heap_ok_def)
  then have "heap_ok p bs ?m" using h(2) by (simp add: heap_ok_def)
  moreover have "quota L p (s\<lparr>mem := ?m\<rparr>)"
  proof (rule quota_keep [OF h(1)])
    have "in_heap p ?x" using u bd i k(1) h(2) by (simp add: in_heap_def heap_ok_def)
    then show "\<not> in_heap p x \<Longrightarrow> ?m x = mem s x" for x by auto
  qed
  moreover have "?x \<in> region q n" using i by (intro region_offset) (use u bd k(1) h(2) in \<open>simp_all add: heap_ok_def\<close>)
  ultimately show ?thesis using ok q unfolding session_ok_def by (auto split: if_splits)
qed

lemma heap_step_ok:
  assumes "heap_step L c d" "session_ok L bs c"
  shows "\<exists>cs. session_ok L cs d"
  using assms
proof (induction c d rule: heap_step.induct)
  case (Malloc n p s q p' t own val)
  then show ?case using session_malloc by blast
next
  case (Free own q n p s m val)
  then show ?case using session_free [of L bs p s own val q n] by auto
next
  case (Store own q n i p s val b)
  then show ?case using session_store by blast
qed

lemma heap_steps_ok: "(heap_step L)\<^sup>*\<^sup>* c d \<Longrightarrow> session_ok L bs c \<Longrightarrow> \<exists>cs. session_ok L cs d"
  by (induction rule: rtranclp_induct) (auto dest: heap_step_ok)

section \<open>Properties\<close>

text \<open>C2. The heap over its whole life. After any sequence of \<open>malloc\<close>, \<open>free\<close> and stores by the owner, from a
  heap in order with nothing owned: the blocks of the client are apart, every byte it has stored in a
  block it still owns is there, \<open>free\<close> of any of them returns, and so does \<open>malloc\<close> of any size that the
  address space set aside for the heap still holds.\<close>

theorem heap_sessions:
  assumes "(heap_step L)\<^sup>*\<^sup>* (p, s, Map.empty, Map.empty) (p', t, own, val)"
    and "heap_ok p bs (mem s)" and "quota L p s"
  shows "(\<forall>x b. val x = Some b \<longrightarrow> mem t x = b) \<and>
    (\<forall>q n q' n'. own q = Some n \<and> own q' = Some n' \<and> q \<noteq> q' \<longrightarrow> region q n \<inter> region q' n' = {}) \<and>
    (\<forall>q \<in> dom own. \<exists>m. free_block p' q (mem t) = Some m) \<and>
    (\<forall>n. 6 \<le> n \<and> unat (heap_size p') + n + 6 \<le> L \<longrightarrow> (\<exists>q p'' u. malloc (of_nat n) p' 0 t = Some (Ret (q, p'') u)))"
proof -
  have "session_ok L bs (p, s, Map.empty, Map.empty)" using assms(2,3) by (simp add: session_ok_def)
  then obtain cs where ok: "session_ok L cs (p', t, own, val)" using heap_steps_ok [OF assms(1)] by blast
  then have h: "quota L p' t" "heap_ok p' cs (mem t)" and v: "\<forall>x b. val x = Some b \<longrightarrow> mem t x = b"
    by (simp_all add: session_ok_def)
  show ?thesis
    using v session_disjoint [OF ok] session_free [OF ok] malloc_within_quota [OF h] by blast
qed

section \<open>Witness\<close>

text \<open>One block, one store.\<close>

lemma heap_sessions_witness:
  "\<exists>q p' t. malloc 50 demo_process 0 (demo_state demo_heap) = Some (Ret (q, p') t) \<and>
    (\<exists>m. free_block p' q ((mem t)(q + 3 := 7)) = Some m)"
proof -
  have h: "heap_ok demo_process [(True, 4090)] (mem (demo_state demo_heap))" using demo_heap_ok by simp
  have quota: "quota 8192 demo_process (demo_state demo_heap)"
    unfolding quota_def using demo_ready by (intro exI [of _ 1]) simp
  from malloc_within_quota [OF quota h, of 50] obtain q p' t where
    m: "malloc (of_nat 50) demo_process 0 (demo_state demo_heap) = Some (Ret (q, p') t)" by auto
  have "heap_step 8192 (demo_process, demo_state demo_heap, Map.empty, Map.empty) (p', t, [q \<mapsto> 50], Map.empty)"
    by (rule Malloc [OF _ _ m]) simp_all
  moreover have "heap_step 8192 (p', t, [q \<mapsto> 50], Map.empty) (p', t\<lparr>mem := (mem t)(q + of_nat 3 := 7)\<rparr>, [q \<mapsto> 50], [q + of_nat 3 \<mapsto> 7])"
    by (rule Store [where n = 50 and i = 3]) simp_all
  ultimately have "(heap_step 8192)\<^sup>*\<^sup>* (demo_process, demo_state demo_heap, Map.empty, Map.empty)
      (p', t\<lparr>mem := (mem t)(q + of_nat 3 := 7)\<rparr>, [q \<mapsto> 50], [q + of_nat 3 \<mapsto> 7])" by (blast intro: rtranclp.intros)
  from heap_sessions [OF this h quota] m show ?thesis by auto
qed

end
