(* ===== verification/Terminal.thy ===== *)
theory Terminal
  imports Boot
begin

text \<open>
  Keyboard, interrupt dispatch and console together: a terminal with a display, the set of keys that are
  down and the caps lock. \<open>type_key\<close> is what a scan code does to it. Whatever hardware interrupts arrive,
  in any order, the display is that of the scan codes read so far.
\<close>

section \<open>The abstract terminal\<close>

record terminal =
  display :: console
  down :: "nat set"
  caps :: bool

text \<open>What a key shows: \<open>shift\<close> is that a shift key is down, \<open>right\<close> that the right one is.\<close>

definition shifted :: "u8 \<Rightarrow> u8" where
  "shifted ch = (case map_of (zip (str ''/.,'' @ [96] @ str ''1234567890-=[];'' @ [39])
     (str ''?><~!@#$%^&*()_+{}:'' @ [34])) ch of Some v \<Rightarrow> v | None \<Rightarrow> 0)"

definition shown :: "u8 \<Rightarrow> nat set \<Rightarrow> bool \<Rightarrow> u8" where
  "shown ch H locked =
     (if 97 \<le> ch \<and> ch \<le> 122 then (if 54 \<in> H \<or> (42 \<in> H) \<noteq> locked then ch - 32 else ch)
      else if 42 \<in> H \<or> 54 \<in> H then shifted ch else ch)"

text \<open>The arrow keys move the cursor and stop at the border; the delete key blanks the cell.\<close>

definition move_key :: "nat \<Rightarrow> console \<Rightarrow> console" where
  "move_key i con =
     (let p = cursor con in
      if i = 72 then con\<lparr>cursor := if 80 \<le> p then p - 80 else p\<rparr>
      else if i = 80 then con\<lparr>cursor := if p < 1920 then p + 80 else p\<rparr>
      else if i = 75 then con\<lparr>cursor := if p mod 80 \<noteq> 0 then p - 1 else p\<rparr>
      else if i = 77 then con\<lparr>cursor := if p mod 80 \<noteq> 79 then p + 1 else p\<rparr>
      else if i = 83 then console_putc 127 con
      else con)"

text \<open>Switching caps lock off also forgets the insert key, 82.\<close>

definition type_key :: "u8 \<Rightarrow> terminal \<Rightarrow> terminal" where
  "type_key c t =
     (let i = unat (c AND 0x7F) in
      if c AND 0x80 \<noteq> 0 then t\<lparr>down := down t - {i}\<rparr>
      else if i = 58 then (if caps t then t\<lparr>caps := False, down := down t - {82}\<rparr> else t\<lparr>caps := True\<rparr>)
      else if i \<in> set key_bits then t\<lparr>down := insert i (down t), display := move_key i (display t)\<rparr>
      else t\<lparr>display := console_putc (shown (kbdus ! i) (down t) (caps t)) (display t)\<rparr>)"

definition keys_of :: "u32 \<Rightarrow> nat set" where
  "keys_of ks = {key_bits ! j | j. j < 28 \<and> bit ks j}"

definition terminal_of :: "'a keyboard_scheme \<Rightarrow> terminal" where
  "terminal_of s = \<lparr>display = console_of s, down = keys_of (keyStatus s), caps = bit (keyStatus s) 28\<rparr>"

section \<open>The status word\<close>

lemma keys_of_shows: "status_shows H ks \<longleftrightarrow> keys_of ks = H \<inter> set key_bits"
proof -
  have "keys_of ks = H \<inter> set key_bits \<longleftrightarrow> (\<forall>i \<in> set key_bits. i \<in> keys_of ks \<longleftrightarrow> i \<in> H)"
    by (auto simp: keys_of_def length_key_bits)
  also have "\<dots> \<longleftrightarrow> (\<forall>j<28. key_bits ! j \<in> keys_of ks \<longleftrightarrow> key_bits ! j \<in> H)"
    by (simp add: all_set_conv_all_nth length_key_bits)
  also have "\<dots> \<longleftrightarrow> status_shows H ks"
    by (auto simp: status_shows_def keys_of_def bit_nth_eq)
  finally show ?thesis by simp
qed

lemma keys_of_subset: "keys_of ks \<subseteq> set key_bits"
  by (auto simp: keys_of_def length_key_bits)

lemma keys_of_bit: "j < 28 \<Longrightarrow> key_bits ! j \<in> keys_of ks \<longleftrightarrow> bit ks j"
  by (auto simp: keys_of_def bit_nth_eq)

lemma shift_keys: "42 \<in> keys_of ks \<longleftrightarrow> bit ks 1" "54 \<in> keys_of ks \<longleftrightarrow> bit ks 2"
  using keys_of_bit [of 1 ks] keys_of_bit [of 2 ks] by (simp_all add: key_bits_def)

lemma keys_of_next: "keys_of (next_status sc ks) = held [sc] (keys_of ks) \<inter> set key_bits"
proof -
  have "status_shows (keys_of ks) ks" unfolding keys_of_shows using keys_of_subset by blast
  from next_status_shows [OF this] show ?thesis unfolding keys_of_shows .
qed

lemma next_status_caps: "bit (next_status sc ks) 28 = bit ks 28"
proof -
  have "\<not> bit k 28" if m: "map_of press_masks (kbdus ! i) = Some k" and i: "i < 128" for i k
  proof -
    obtain j where "j < 28" "k = 2 ^ j" using press_key [OF i m] by blast
    then show ?thesis by (simp add: bit_power)
  qed
  then show ?thesis
    using code_less by (auto simp: next_status_def bit_and_iff bit_or_iff bit_not_iff split: option.split)
qed

text \<open>The two masks of the caps lock.\<close>

lemma caps_off: "keys_of (ks AND 0xEFFFFFF) = keys_of ks - {82}" "\<not> bit (ks AND 0xEFFFFFF :: u32) 28"
proof -
  have e: "(0xEFFFFFF :: u32) = mask 28 AND NOT (2 ^ 24)" by (simp add: mask_eq_exp_minus_1)
  have b: "bit (ks AND 0xEFFFFFF) j \<longleftrightarrow> bit ks j \<and> j < 28 \<and> j \<noteq> 24" for j
    unfolding e by (simp only: bit_and_iff bit_not_iff bit_power bit_mask_iff possible_bit_word) auto
  have k: "key_bits ! j = 82 \<longleftrightarrow> j = 24" if "j < 28" for j
    using bit_nth_eq [OF that, of 24] by (simp add: key_bits_def)
  show "keys_of (ks AND 0xEFFFFFF) = keys_of ks - {82}"
    unfolding keys_of_def b using k by auto
  show "\<not> bit (ks AND 0xEFFFFFF :: u32) 28" by (simp add: b)
qed

lemma caps_on: "keys_of (ks OR 0x10000000) = keys_of ks" "bit (ks OR 0x10000000 :: u32) 28"
proof -
  have e: "(0x10000000 :: u32) = 2 ^ 28" by simp
  have b: "bit (ks OR 0x10000000) j \<longleftrightarrow> bit ks j \<or> j = 28" for j
    unfolding e by (simp only: bit_or_iff bit_power) simp
  show "keys_of (ks OR 0x10000000) = keys_of ks" unfolding keys_of_def b by auto
  show "bit (ks OR 0x10000000 :: u32) 28" by (simp add: b)
qed

lemma pressed_code: "c AND 0x80 = 0 \<Longrightarrow> c AND 0x7F = (c :: u8)" "unat (c :: u8) = 58 \<longleftrightarrow> c = 58"
proof -
  show "unat c = 58 \<longleftrightarrow> c = 58" by (simp add: word_unat_eq_iff)
  assume "c AND 0x80 = 0"
  then have "unat c < 128" using code_less(2) by simp
  then have "unat (take_bit 7 c) = unat c" by (simp add: unsigned_take_bit_eq take_bit_eq_mod unat_mod)
  then have "take_bit 7 c = c" by (simp add: word_unat_eq_iff)
  then show "c AND 0x7F = c" by (simp add: take_bit_eq_mask mask_eq_exp_minus_1)
qed

section \<open>Codes read from the keyboard\<close>

text \<open>How many scan codes the kernel has read.\<close>

definition codes_read :: "'a machine_scheme \<Rightarrow> nat" where
  "codes_read s = count_list (trace s) (In8 0x60)"

text \<open>The keyboard delivers the codes \<open>code\<close>, one for each reading of its port.\<close>

definition types :: "(nat \<Rightarrow> u8) \<Rightarrow> 'a machine_scheme \<Rightarrow> bool" where
  "types code s \<longleftrightarrow> (\<forall>tr. ucast (dev s tr (In8 0x60)) = code (count_list tr (In8 0x60)))"

lemma codes_read_outb [simp]: "codes_read (outb p b s) = codes_read s"
  by (simp add: codes_read_def outb_def)

lemma codes_read_mem [simp]: "codes_read (s\<lparr>mem := m\<rparr>) = codes_read s"
  by (simp add: codes_read_def)

lemma codes_read_cursor [simp]: "codes_read (s\<lparr>cx := x\<rparr>) = codes_read s" "codes_read (s\<lparr>cy := y\<rparr>) = codes_read s"
  by (simp_all add: codes_read_def)

lemma codes_read_keyStatus [simp]: "codes_read (s\<lparr>keyStatus := k\<rparr>) = codes_read s"
  by (simp add: codes_read_def)

lemma codes_read_store16 [simp]: "codes_read (store16 a v s) = codes_read s"
  by (simp add: store16_def)

lemma codes_read_update_cursor [simp]: "codes_read (update_cursor s) = codes_read s"
  by (simp add: update_cursor_def move_cursor_def Let_def)

lemma codes_read_scroll_once: "codes_read (scroll_once s) = codes_read s"
proof -
  have "codes_read (fold scroll_row is s) = codes_read s" for "is" and s :: "'a screen_scheme"
    by (induction "is" arbitrary: s) (simp_all add: scroll_row_def memcpy_def)
  moreover have "codes_read (fold blank_cell is s) = codes_read s" for "is" and s :: "'a screen_scheme"
    by (induction "is" arbitrary: s) (simp_all add: blank_cell_def)
  ultimately show ?thesis by (simp add: scroll_once_def Let_def)
qed

lemma codes_read_scroll [simp]: "codes_read (scroll_if_needed s) = codes_read s"
  by (induction s rule: scroll_if_needed.induct)
    (subst scroll_if_needed.simps, simp add: codes_read_scroll_once)

lemma codes_read_putc [simp]: "codes_read (putc ch s) = codes_read s"
  by (simp add: putc_def Let_def)

lemma codes_read_cursor_keys [simp]:
  "codes_read (moveCursorUp s) = codes_read s" "codes_read (moveCursorDown s) = codes_read s"
  "codes_read (moveCursorLeft s) = codes_read s" "codes_read (moveCursorRight s) = codes_read s"
  by (simp_all add: moveCursorUp_def moveCursorDown_def moveCursorLeft_def moveCursorRight_def)

lemma sendByte_codes:
  assumes "sendByte p b s = Some t"
  shows "codes_read t = codes_read s"
proof -
  have "count_list (replicate n (In8 0x64)) (In8 0x60) = 0" for n by (induction n) simp_all
  then show ?thesis
    using assms by (auto simp: sendByte_eq codes_read_def count_list_append simp del: replicate_Suc split: if_splits)
qed

section \<open>The cursor keys\<close>

lemma cursor_keys_move:
  assumes "cursor_ok s"
  shows "console_of (moveCursorUp s) = move_key 72 (console_of s)"
    "console_of (moveCursorDown s) = move_key 80 (console_of s)"
    "console_of (moveCursorLeft s) = move_key 75 (console_of s)"
    "console_of (moveCursorRight s) = move_key 77 (console_of s)"
proof -
  obtain r c where rc: "cx s = int c" "cy s = int r" "c < 80" "r < 25"
    using assms that [of "nat (cx s)" "nat (cy s)"] by (simp add: cursor_ok_def nat_less_iff)
  have e: "nat (int r * 80 + int c) = r * 80 + c" by simp
  note move = moveCursorUp_def moveCursorDown_def moveCursorLeft_def moveCursorRight_def move_key_def
    console_of_def ROWS_def COLUMNS_def Let_def
  show "console_of (moveCursorUp s) = move_key 72 (console_of s)"
    using rc by (cases r) (auto simp: move update_cursor_frame)
  show "console_of (moveCursorDown s) = move_key 80 (console_of s)"
    using rc by (auto simp: move update_cursor_frame)
  show "console_of (moveCursorLeft s) = move_key 75 (console_of s)"
  proof (cases c)
    case (Suc d)
    have "nat (int r * 80 + (int c - 1)) = r * 80 + d" using Suc by simp
    moreover have "(r * 80 + c) mod 80 \<noteq> 0" using rc(3) Suc by simp
    ultimately show ?thesis using rc Suc e by (simp add: move update_cursor_frame)
  qed (use rc e in \<open>simp add: move update_cursor_frame\<close>)
  have "nat (int r * 80 + (int c + 1)) = r * 80 + c + 1" "(r * 80 + c) mod 80 = c" using rc(3) by simp_all
  then show "console_of (moveCursorRight s) = move_key 77 (console_of s)"
    using rc e by (cases "c = 79") (simp_all add: move update_cursor_frame)
qed

section \<open>One scan code\<close>

text \<open>What a scan code leaves alone, and what the timer does.\<close>

definition terminal_frame :: "'a keyboard_scheme \<Rightarrow> 'a keyboard_scheme \<Rightarrow> bool" where
  "terminal_frame s t \<longleftrightarrow> dev t = dev s \<and> irq_routines t = irq_routines s \<and> shiftLookup t = shiftLookup s \<and>
     codes_read t = codes_read s"

lemma terminal_frame_trans [trans]: "terminal_frame s t \<Longrightarrow> terminal_frame t u \<Longrightarrow> terminal_frame s u"
  by (simp add: terminal_frame_def)

lemma console_step_terminal:
  assumes "console_step s t"
  shows "dev t = dev s" "irq_routines t = irq_routines s" "shiftLookup t = shiftLookup s" "keyStatus t = keyStatus s"
proof -
  have e: "t = s\<lparr>mem := mem t, trace := trace t, cx := cx t, cy := cy t\<rparr>"
    using assms by (simp add: console_step_def console_frame_def)
  show "dev t = dev s" "irq_routines t = irq_routines s" "shiftLookup t = shiftLookup s" "keyStatus t = keyStatus s"
    by (subst e, simp)+
qed

definition shift_ready :: "'a keyboard_scheme \<Rightarrow> bool" where
  "shift_ready s \<longleftrightarrow> shiftLookup s = shiftLookup (initShiftLookup (s\<lparr>shiftLookup := replicate 128 0\<rparr>))"

lemma shift_ready_cong: "shiftLookup t = shiftLookup s \<Longrightarrow> shift_ready t = shift_ready s"
  by (simp add: shift_ready_def initShiftLookup_def)

lemma caps_event:
  assumes "controller_ok s"
  shows "\<exists>t. key_event 58 s = Some t \<and> terminal_frame s t \<and> terminal_of t = type_key 58 (terminal_of s)"
proof -
  define k where "k = (if isCapsOn s \<noteq> 0 then keyStatus s AND 0xEFFFFFF else keyStatus s OR 0x10000000)"
  define b :: u8 where "b = (if isCapsOn s \<noteq> 0 then 0 else 4)"
  let ?s = "s\<lparr>keyStatus := k\<rparr>"
  have "controller_ok ?s" using assms by (simp add: controller_ok_def)
  then obtain tr where tr: "sendByte 0x60 0xED ?s = Some (?s\<lparr>trace := tr\<rparr>)" using sendByte_returns by blast
  have "controller_ok (?s\<lparr>trace := tr\<rparr>)" using assms by (simp add: controller_ok_def)
  then obtain tr' where tr': "sendByte 0x60 b (?s\<lparr>trace := tr\<rparr>) = Some (?s\<lparr>trace := tr\<rparr>\<lparr>trace := tr'\<rparr>)"
    using sendByte_returns by blast
  let ?t = "?s\<lparr>trace := tr'\<rparr>"
  have "key_event 58 s = Some ?t"
    using tr tr' by (simp add: key_event_def key_pressed_def kbdus_numerals press_masks_numerals chr_def
        switchCapsLightOff_def switchCapsLightOn_def k_def b_def split: if_splits)
  moreover have "codes_read ?t = codes_read s" using sendByte_codes [OF tr] sendByte_codes [OF tr'] by simp
  moreover have "terminal_of ?t = type_key 58 (terminal_of s)"
    by (auto simp: terminal_of_def type_key_def k_def shift_bits caps_on caps_off console_of_def)
  ultimately show ?thesis by (simp add: terminal_frame_def)
qed

lemma arrow_codes:
  "list_all (\<lambda>i. (kbdus ! i = 85 \<longleftrightarrow> i = 72) \<and> (kbdus ! i = 90 \<longleftrightarrow> i = 75) \<and>
    (kbdus ! i = 86 \<longleftrightarrow> i = 77) \<and> (kbdus ! i = 88 \<longleftrightarrow> i = 80) \<and> (kbdus ! i = 37 \<longleftrightarrow> i = 83)) key_bits"
  by (simp add: key_bits_def kbdus_numerals)

lemma pressed_special:
  assumes "c AND 0x80 = 0" "unat c \<in> set key_bits" "cursor_ok s"
  shows "\<exists>t. key_event c s = Some t \<and> codes_read t = codes_read s \<and> console_of t = move_key (unat c) (console_of s)"
proof -
  have c: "unat c < 128" by (rule code_less(2) [OF assms(1)])
  obtain j where "j < 28" "unat c = key_bits ! j" using assms(2) by (auto simp: in_set_conv_nth length_key_bits)
  then have k: "map_of press_masks (kbdus ! unat c) = Some (2 ^ j)" using press_bit by simp
  let ?s = "s\<lparr>keyStatus := keyStatus s OR 2 ^ j\<rparr>"
  have s: "cursor_ok ?s" "console_of ?s = console_of s" using assms(3) by (simp_all add: cursor_ok_def console_of_def)
  have a: "(kbdus ! unat c = chr ''U'') = (unat c = 72)" "(kbdus ! unat c = chr ''Z'') = (unat c = 75)"
    "(kbdus ! unat c = chr ''V'') = (unat c = 77)" "(kbdus ! unat c = chr ''X'') = (unat c = 80)"
    "(kbdus ! unat c = chr ''%'') = (unat c = 83)"
    using arrow_codes assms(2) by (simp_all add: list_all_iff chr_def)
  note move = cursor_keys_move [OF s(1), unfolded s(2)]
  have "console_of (putc 127 ?s) = move_key 83 (console_of s)"
    using console_of_putc [OF s(1), of 127] s(2) by (simp add: move_key_def)
  moreover have "move_key (unat c) (console_of s) = console_of s" if "unat c \<notin> {72, 75, 77, 80, 83}"
    using that by (simp add: move_key_def Let_def)
  ultimately show ?thesis
    using assms(1) k c move s(2) by (auto simp: key_event_def key_pressed_def a Let_def)
qed

lemma terminal_eqI: "display t = display u \<Longrightarrow> down t = down u \<Longrightarrow> caps t = caps u \<Longrightarrow> t = (u :: terminal)"
  by (cases t; cases u) simp

lemma key_event_types:
  assumes "cursor_ok s" "controller_ok s" "shift_ready s"
  shows "\<exists>t. key_event c s = Some t \<and> terminal_frame s t \<and> terminal_of t = type_key c (terminal_of s)"
proof (cases "c = 58")
  case True
  then show ?thesis using caps_event [OF assms(2)] by simp
next
  case c58: False
  have "length (shiftLookup s) = 128" unfolding assms(3) [unfolded shift_ready_def] by simp
  then obtain t where t1: "key_event c s = Some t" using key_event_total [OF _ c58] by blast
  note t = t1 key_event_step [OF assms(1) c58 t1]
  have f: "dev t = dev s" "irq_routines t = irq_routines s" "shiftLookup t = shiftLookup s"
    "keyStatus t = next_status c (keyStatus s)" using console_step_terminal [OF t(2)] by simp_all
  have keys: "down (terminal_of t) = held [c] (down (terminal_of s)) \<inter> set key_bits"
    "caps (terminal_of t) = caps (terminal_of s)"
    by (simp_all add: terminal_of_def f(4) keys_of_next next_status_caps)
  have sub: "down (terminal_of s) \<subseteq> set key_bits" by (simp add: terminal_of_def keys_of_subset)
  have "codes_read t = codes_read s \<and> terminal_of t = type_key c (terminal_of s)"
  proof (cases "c AND 0x80 = 0")
    case False
    then have "codes_read t = codes_read s" "display (terminal_of t) = display (terminal_of s)"
      using t(1) by (auto simp: key_event_item terminal_of_def console_of_def split: option.splits)
    then show ?thesis using keys sub False by (auto intro!: terminal_eqI simp: type_key_def Let_def)
  next
    case True
    then have i: "c AND 0x7F = c" "unat c < 128" "unat c \<noteq> 58"
      using c58 code_less(2) by (simp_all add: pressed_code)
    show ?thesis
    proof (cases "unat c \<in> set key_bits")
      case special: True
      from pressed_special [OF True this assms(1)] t(1) have "codes_read t = codes_read s"
        "display (terminal_of t) = move_key (unat c) (display (terminal_of s))" by (auto simp: terminal_of_def)
      then show ?thesis using keys sub True special i by (auto intro!: terminal_eqI simp: type_key_def Let_def)
    next
      case False
      have "key_event c s = Some (putc (shown (kbdus ! unat c) (down (terminal_of s)) (caps (terminal_of s))) s)"
        using key_prints [OF True c58 False assms(3) [unfolded shift_ready_def]]
        by (simp add: shown_def shifted_def terminal_of_def shift_keys Let_def)
      with t(1) have "codes_read t = codes_read s"
        "display (terminal_of t) = console_putc (shown (kbdus ! unat c) (down (terminal_of s)) (caps (terminal_of s))) (display (terminal_of s))"
        using console_of_putc [OF assms(1)] by (auto simp: terminal_of_def)
      then show ?thesis using keys sub True False i by (auto intro!: terminal_eqI simp: type_key_def Let_def)
    qed
  qed
  with t(1) f show ?thesis by (auto simp: terminal_frame_def)
qed

section \<open>Hardware interrupts\<close>

fun hardware_interrupts :: "symbols \<Rightarrow> regs list \<Rightarrow> 'a keyboard_scheme \<Rightarrow> 'a keyboard_scheme option" where
  "hardware_interrupts syms [] s = Some s"
| "hardware_interrupts syms (r # rs) s =
     Option.bind (irq_handler syms r s) (\<lambda>(r', s). hardware_interrupts syms rs s)"

definition terminal_ok :: "symbols \<Rightarrow> (nat \<Rightarrow> u8) \<Rightarrow> 'a keyboard_scheme \<Rightarrow> bool" where
  "terminal_ok syms code s \<longleftrightarrow> kernel_ok s \<and> controller_ok s \<and> shift_ready s \<and> types code s \<and>
     irq_routines s = [sym_timer_handler syms, sym_keyboard_handler syms] @ replicate 14 0 \<and>
     sym_timer_handler syms \<noteq> 0 \<and> sym_keyboard_handler syms \<notin> {0, sym_timer_handler syms}"

lemma terminal_ok_frame:
  "terminal_ok syms code s \<Longrightarrow> terminal_frame s t \<Longrightarrow> kernel_ok t \<Longrightarrow> terminal_ok syms code t"
  using shift_ready_cong [of t s]
  by (simp add: terminal_ok_def terminal_frame_def controller_ok_def types_def)

text \<open>The scheduler changes nothing that the terminal shows.\<close>

lemma start_next_process_terminal:
  assumes "kernel_ok s" "start_next_process r s = Some (w, r', t)"
  shows "terminal_frame s t \<and> terminal_of t = terminal_of s"
proof (cases "scheduler_active s = 0")
  case True
  with assms(2) show ?thesis by (simp add: start_next_process_def terminal_frame_def)
next
  case False
  have f: "terminal_frame s (switched i q s) \<and> terminal_of (switched i q s) = terminal_of s" for i q
    by (simp add: terminal_frame_def terminal_of_def console_of_def switched_def codes_read_def Let_def)
  have "procs_ok (proc_arr s)" "0 \<le> cur_proc_index s" "cur_proc_index s < int MAX_PROC"
    using assms(1) by (simp_all add: kernel_ok_def)
  from start_next_process_eq [OF this False, of r] assms(2) f show ?thesis
    by (auto simp: Let_def terminal_frame_def split: if_splits)
qed

lemma timer_handler_terminal:
  assumes "kernel_ok s" "timer_handler r s = Some (r', t)"
  shows "terminal_frame s t \<and> terminal_of t = terminal_of s"
proof (cases "timer_ticks s + 1 = slice_ticks s")
  case False
  with assms(2) show ?thesis
    by (auto simp: timer_handler_quiet terminal_frame_def terminal_of_def console_of_def codes_read_def)
next
  case True
  let ?s = "s\<lparr>timer_ticks := timer_ticks s + 1\<rparr>"
  obtain w q u where u: "start_next_process r ?s = Some (w, q, u)" "t = u\<lparr>time_slice_millis := w, timer_ticks := 0\<rparr>"
    using assms(2) True by (auto simp: timer_handler_def set_time_slice_def split: option.splits prod.splits)
  have "kernel_ok ?s" using assms(1) by simp
  from start_next_process_terminal [OF this u(1)] show ?thesis
    by (simp add: u(2) terminal_frame_def terminal_of_def console_of_def codes_read_def)
qed

lemma irq_handler_line:
  assumes "irq_routines s ! unat (r_int_no r - 32) = h" "unat (r_int_no r - 32) < length (irq_routines s)"
    and "(if h \<noteq> 0 then call_irq syms h r s else Some (r, s)) = Some (r', t)"
  shows "\<exists>u. irq_handler syms r s = Some (r', u) \<and> (\<exists>tr. u = t\<lparr>trace := tr\<rparr>) \<and> codes_read u = codes_read t"
proof -
  let ?u = "outb 0x20 0x20 (if 40 \<le> r_int_no r' then outb 0xA0 0x20 t else t)"
  have "irq_handler syms r s = Some (r', ?u)" using assms by (simp add: irq_handler_def Let_def)
  then show ?thesis by (intro exI [of _ ?u]) (auto simp: outb_def codes_read_def)
qed

text \<open>One interrupt: on line 1 the next code is typed, on the others nothing is.\<close>

lemma irq_types:
  assumes ok: "terminal_ok syms code s" and r: "32 \<le> r_int_no r" "r_int_no r < 48"
  shows "\<exists>r' t. irq_handler syms r s = Some (r', t) \<and> terminal_ok syms code t \<and>
    (if r_int_no r = 33 then codes_read t = codes_read s + 1 \<and> terminal_of t = type_key (code (codes_read s)) (terminal_of s)
     else codes_read t = codes_read s \<and> terminal_of t = terminal_of s)"
proof -
  have k: "kernel_ok s" "irq_routines s = [sym_timer_handler syms, sym_keyboard_handler syms] @ replicate 14 0"
    using ok by (simp_all add: terminal_ok_def)
  define i where "i = unat (r_int_no r - 32)"
  have ri: "unat (r_int_no r) = i + 32" "i < 16" using r by (simp_all add: i_def unat_diff_ge word_le_nat_alt word_less_nat_alt)
  have i33: "r_int_no r = 33 \<longleftrightarrow> i = 1" using ri(1) by (simp add: word_unat_eq_iff)
  let ?h = "irq_routines s ! i"
  have "\<exists>r' t. (if ?h \<noteq> 0 then call_irq syms ?h r s else Some (r, s)) = Some (r', t) \<and> terminal_ok syms code (t\<lparr>trace := trace t\<rparr>) \<and>
    (if i = 1 then codes_read t = codes_read s + 1 \<and> terminal_of t = type_key (code (codes_read s)) (terminal_of s)
     else codes_read t = codes_read s \<and> terminal_of t = terminal_of s)"
  proof -
    consider "i = 0" | "i = 1" | "1 < i" by linarith
    then show ?thesis
    proof cases
      case 1
      obtain r' t where t: "timer_handler r s = Some (r', t)" "kernel_ok t" using timer_handler_kernel_ok [OF k(1)] by blast
      note f = timer_handler_terminal [OF k(1) t(1)]
      have "terminal_ok syms code t" using terminal_ok_frame [OF ok _ t(2)] f by blast
      with 1 f t ok show ?thesis by (simp add: k(2) call_irq_def terminal_ok_def terminal_frame_def)
    next
      case 2
      let ?s = "s\<lparr>trace := In8 0x60 # trace s\<rparr>" and ?c = "code (codes_read s)"
      have s': "cursor_ok ?s" "controller_ok ?s" "shift_ready ?s" "terminal_of ?s = terminal_of s"
        using ok shift_ready_cong [of ?s s]
        by (simp_all add: terminal_ok_def kernel_ok_def cursor_ok_def controller_ok_def terminal_of_def console_of_def)
      obtain t where t: "key_event ?c ?s = Some t" "terminal_frame ?s t" "terminal_of t = type_key ?c (terminal_of s)"
        using key_event_types [OF s'(1-3), of ?c] s'(4) by auto
      have "keyboard_handler s = Some t"
        using ok t(1) by (simp add: keyboard_handler_def inb_def terminal_ok_def types_def codes_read_def)
      moreover have "terminal_ok syms code t"
      proof (rule terminal_ok_frame [OF _ t(2)])
        show "terminal_ok syms code ?s"
          using ok s'(2,3) by (simp add: terminal_ok_def types_def)
        show "kernel_ok t" by (rule key_event_kernel_ok [OF _ t(1)]) (use k(1) in simp)
      qed
      moreover have "codes_read t = codes_read s + 1" using t(2) by (simp add: terminal_frame_def codes_read_def)
      ultimately show ?thesis using 2 t(3) ok by (simp add: k(2) call_irq_def terminal_ok_def)
    next
      case 3
      then have "?h = 0" using ri(2) by (simp add: k(2) nth_append)
      with 3 ok show ?thesis by simp
    qed
  qed
  then obtain r' t where t: "(if ?h \<noteq> 0 then call_irq syms ?h r s else Some (r, s)) = Some (r', t)" "terminal_ok syms code t"
    "if i = 1 then codes_read t = codes_read s + 1 \<and> terminal_of t = type_key (code (codes_read s)) (terminal_of s)
     else codes_read t = codes_read s \<and> terminal_of t = terminal_of s" by auto
  have "i < length (irq_routines s)" using ri(2) by (simp add: k(2))
  from irq_handler_line [OF i_def [symmetric, THEN arg_cong [of _ _ "nth (irq_routines s)"]] this [unfolded i_def] t(1)]
  obtain u tr where u: "irq_handler syms r s = Some (r', u)" "u = t\<lparr>trace := tr\<rparr>" "codes_read u = codes_read t" by auto
  have "terminal_of u = terminal_of t" by (simp add: u(2) terminal_of_def console_of_def)
  moreover have "terminal_ok syms code u"
    using t(2) shift_ready_cong [of u t] by (simp add: u(2) terminal_ok_def types_def controller_ok_def)
  ultimately show ?thesis using u(1,3) t(3) unfolding i33 by auto
qed

lemma interrupts_type:
  assumes "terminal_ok syms code s" "\<forall>r \<in> set rs. 32 \<le> r_int_no r \<and> r_int_no r < 48"
  defines "n \<equiv> length (filter (\<lambda>r. r_int_no r = 33) rs)"
  shows "\<exists>t. hardware_interrupts syms rs s = Some t \<and> terminal_ok syms code t \<and> codes_read t = codes_read s + n \<and>
    terminal_of t = fold type_key (map code [codes_read s ..< codes_read s + n]) (terminal_of s)"
  using assms(1,2) unfolding n_def
proof (induction rs arbitrary: s)
  case (Cons r rs)
  let ?n = "length (filter (\<lambda>r. r_int_no r = 33) rs)"
  obtain r' t where t: "irq_handler syms r s = Some (r', t)" "terminal_ok syms code t"
    "if r_int_no r = 33 then codes_read t = codes_read s + 1 \<and> terminal_of t = type_key (code (codes_read s)) (terminal_of s)
     else codes_read t = codes_read s \<and> terminal_of t = terminal_of s"
    using irq_types [OF Cons.prems(1), of r] Cons.prems(2) by auto
  obtain u where u: "hardware_interrupts syms rs t = Some u" "terminal_ok syms code u" "codes_read u = codes_read t + ?n"
    "terminal_of u = fold type_key (map code [codes_read t ..< codes_read t + ?n]) (terminal_of t)"
    using Cons.IH [OF t(2)] Cons.prems(2) by auto
  show ?case
  proof (cases "r_int_no r = 33")
    case True
    have "[codes_read s ..< codes_read s + Suc ?n] = codes_read s # [codes_read t ..< codes_read t + ?n]"
      using t(3) True by (simp add: upt_conv_Cons del: upt_Suc)
    with True t(1,3) u show ?thesis by simp
  next
    case False
    with t(1,3) u show ?thesis by simp
  qed
qed simp

section \<open>The display when main returns\<close>

lemma init_video_blank: "console_of (init_video s) = \<lparr>cells = replicate 2000 0x9020, cursor = 0\<rparr>"
proof -
  define wr :: "nat \<Rightarrow> nat \<Rightarrow> 'a screen_scheme \<Rightarrow> 'a screen_scheme"
    where "wr = (\<lambda>i j. store16 (VIDEO_MEMORY + of_nat (2 * (i * COLUMNS + j))) (GRAY_ON_CYAN OR 0x20))"
  have g: "cell (mem (wr i j u)) k = (if k = i * 80 + j then 0x9020 else cell (mem u) k)"
    if "i * 80 + j < 2000" "k < 2000" for i j k and u :: "'a screen_scheme"
    using cell_store [OF that(1,2), of "mem u"] that
    by (simp add: wr_def store16_def cell_addr_def COLUMNS_def GRAY_ON_CYAN_def)
  have row: "cell (mem (fold (wr i) [0..<n] u)) k = (if i * 80 \<le> k \<and> k < i * 80 + n then 0x9020 else cell (mem u) k)"
    if "i < 25" "n \<le> 80" "k < 2000" for i n k and u :: "'a screen_scheme"
    using that
  proof (induction n)
    case (Suc n)
    then have "i * 80 + n < 2000" by linarith
    then show ?case using Suc by (simp add: g less_Suc_eq)
  qed auto
  have "cell (mem (fold (\<lambda>i. fold (wr i) [0..<COLUMNS]) [0..<n] s)) k = (if k < n * 80 then 0x9020 else cell (mem s) k)"
    if "n \<le> 25" "k < 2000" for n k
    using that
  proof (induction n)
    case (Suc n)
    then show ?case using row [of n 80 k] by (auto simp: COLUMNS_def)
  qed simp
  from this [of 25] have "cell (mem (init_video s)) k = 0x9020" if "k < 2000" for k
    using that by (simp add: init_video_def wr_def ROWS_def update_cursor_frame Let_def)
  then have "map (cell (mem (init_video s))) [0..<2000] = replicate 2000 0x9020"
    by (simp add: list_eq_iff_nth_eq)
  moreover have "cx (init_video s) = 0" "cy (init_video s) = 0"
    by (simp_all add: init_video_def update_cursor_frame Let_def)
  ultimately show ?thesis by (simp add: console_of_def)
qed

text \<open>The task state segment and its descriptor are not in video memory.\<close>

lemma init_tss_display:
  assumes "region (g + 40) 8 \<inter> video = {}" "region a 104 \<inter> video = {}"
  shows "console_of (init_tss g a s) = console_of s"
proof (rule console_of_cong)
  show "mem (init_tss g a s) x = mem s x" if "x \<in> video" for x
    using that assms by (subst init_tss_state) (simp, subst tss_bytes_outside, blast, rule descriptor_outside, blast)
qed (simp_all add: init_tss_state)

lemma shift_ready_init: "shiftLookup s = replicate 128 0 \<Longrightarrow> shiftLookup t = shiftLookup (initShiftLookup s) \<Longrightarrow> shift_ready t"
  by (simp add: shift_ready_def initShiftLookup_def)

lemma main_terminal:
  fixes s :: "'a tss_scheme"
  assumes "boot_room s" "controller_ok s" "types code s"
    and "irq_routines s = replicate 16 0" "shiftLookup s = replicate 128 0" "keyStatus s = 0"
    and "region (g + 40) 8 \<inter> video = {}" "region a 104 \<inter> video = {}"
    and "sym_timer_handler syms \<noteq> 0" "sym_keyboard_handler syms \<notin> {0, sym_timer_handler syms}"
  shows "\<exists>t. main syms g a f s = Some (Ret () t) \<and> terminal_ok syms code t \<and> terminal_of t =
    \<lparr>display = fold console_putc banner \<lparr>cells = replicate 2000 0x9020, cursor = 0\<rparr>, down = {}, caps = False\<rparr>"
proof -
  have len: "length (irq_routines s) = 16" by (simp add: assms(4))
  obtain t where t: "main syms g a f s = Some (Ret () t)" "started syms (idt_page s) f t" "dev t = dev s"
    "irq_routines t = (irq_routines s)[0 := sym_timer_handler syms, 1 := sym_keyboard_handler syms]"
    "keyStatus t = keyStatus s" "shiftLookup t = shiftLookup (initShiftLookup s)"
    "console_of t = fold console_putc banner (console_of (init_tss g a (init_video s)))"
    using main_starts [OF assms(1) len assms(2)] by blast
  have "replicate 16 (0 :: u32) = 0 # 0 # replicate 14 0" by (simp add: eval_nat_numeral)
  then have "irq_routines t = [sym_timer_handler syms, sym_keyboard_handler syms] @ replicate 14 0"
    by (simp add: t(4) assms(4))
  then have "terminal_ok syms code t"
    using t(2,3) assms(2,3,9,10) shift_ready_init [OF assms(5) t(6)]
    by (simp add: terminal_ok_def started_def controller_ok_def types_def)
  moreover have "terminal_of t = \<lparr>display = fold console_putc banner \<lparr>cells = replicate 2000 0x9020, cursor = 0\<rparr>, down = {}, caps = False\<rparr>"
    unfolding terminal_of_def t(5,7) assms(6) init_tss_display [OF assms(7,8)] init_video_blank by (simp add: keys_of_def)
  ultimately show ?thesis using t(1) by blast
qed

section \<open>Properties\<close>

text \<open>C10. Keyboard, interrupt dispatch, scheduler and console together implement the terminal: whatever
  hardware interrupts arrive, on any lines and in any order, the kernel returns from each, has read one
  scan code for each interrupt of line 1, and display, keys held down and caps lock are those that
  \<open>type_key\<close> makes of these codes.\<close>

theorem typing_refines:
  assumes "terminal_ok syms code s" and "\<forall>r \<in> set rs. 32 \<le> r_int_no r \<and> r_int_no r < 48"
  shows "\<exists>t. hardware_interrupts syms rs s = Some t \<and> kernel_ok t \<and>
    terminal_of t = fold type_key
      (map code [codes_read s ..< codes_read s + length (filter (\<lambda>r. r_int_no r = 33) rs)]) (terminal_of s)"
  using interrupts_type [OF assms] by (auto simp: terminal_ok_def)

section \<open>Witnesses\<close>

text \<open>A keyboard on which someone types left shift, g, left shift up, o.\<close>

definition demo_codes :: "nat \<Rightarrow> u8" where
  "demo_codes n = (if n < 4 then [42, 34, 0xAA, 24] ! n else 0xFF)"

definition typist :: "port_op list \<Rightarrow> port_op \<Rightarrow> u32" where
  "typist tr e = (if e = In8 0x60 then ucast (demo_codes (count_list tr (In8 0x60))) else 0)"

definition demo_lines :: "regs list" where
  "demo_lines = map (\<lambda>n. (read_regs (\<lambda>_. 0) 0)\<lparr>r_int_no := n\<rparr>) [33, 32, 33, 47, 33, 33]"

lemma ucast_up_down: "ucast (ucast x :: u32) = (x :: u8)"
  by (rule bit_word_eqI) (simp add: bit_simps)

lemma typist_types: "dev s = typist \<Longrightarrow> types demo_codes s" "dev s = typist \<Longrightarrow> controller_ok s"
  by (simp_all add: types_def controller_ok_def typist_def ucast_up_down)

lemma demo_lines_ok: "\<forall>r \<in> set demo_lines. 32 \<le> r_int_no r \<and> r_int_no r < 48"
  by (simp add: demo_lines_def)

lemma demo_lines_keys: "length (filter (\<lambda>r. r_int_no r = 33) demo_lines) = 4"
  by (simp add: demo_lines_def)

lemma demo_typed: "map demo_codes [0..<4] = [42, 34, 0xAA, 24]"
  by (simp add: demo_codes_def upt_rec)

definition demo_terminal :: keyboard where
  "demo_terminal = initShiftLookup (demo_kernel\<lparr>keyStatus := 0, dev := typist\<rparr>)"

lemma typing_refines_witness:
  "\<exists>t. hardware_interrupts demo_addresses demo_lines demo_terminal = Some t \<and> down (terminal_of t) = {}"
proof -
  let ?s = "demo_kernel\<lparr>keyStatus := 0, dev := typist\<rparr>"
  have "shift_ready demo_terminal"
    by (rule shift_ready_init [of ?s]) (simp_all add: demo_terminal_def demo_kernel_def demo_keyboard_def)
  moreover have "kernel_ok demo_terminal"
    using demo_kernel_ok by (simp add: demo_terminal_def initShiftLookup_def kernel_ok_def cursor_ok_def)
  moreover have f: "dev demo_terminal = typist" "irq_routines demo_terminal = [0x2200, 0x2300] @ replicate 14 0"
    "keyStatus demo_terminal = 0" "trace demo_terminal = []"
    by (simp_all add: demo_terminal_def initShiftLookup_def demo_kernel_def demo_keyboard_def)
  ultimately have ok: "terminal_ok demo_addresses demo_codes demo_terminal"
    using typist_types [OF f(1)] by (simp add: terminal_ok_def demo_addresses_def)
  have c: "codes_read demo_terminal = 0" by (simp add: codes_read_def f)
  have d: "down (terminal_of demo_terminal) = {}" by (simp add: terminal_of_def f keys_of_def)
  from typing_refines [OF ok demo_lines_ok, unfolded c demo_lines_keys add_0 demo_typed] d show ?thesis
    by (auto simp: type_key_def key_bits_def Let_def)
qed

end
