(* ===== verification/Session.thy ===== *)
theory Session
  imports Terminal UserPrograms
begin

text \<open>
  The machine at work after \<open>main\<close>: hardware interrupts, characters that the programs print, and all other work of
  the programs and the kernel, in any order. A session is such a sequence; the abstract counterpart is a
  terminal on which keys are typed and programs print. That \<open>lol\<close> and the beginnings of \<open>lol2\<close> and \<open>lol3\<close> are
  work of the third kind, and their reports of the second, is shown for the code of \<open>main.c\<close>.
\<close>

section \<open>Events\<close>

datatype event = Interrupt regs | Print u8 | Work

text \<open>Work that concerns neither the screen nor the keyboard: it may change everything but the display, the state of the
  keyboard and the table of the handlers, and keeps the invariant of the kernel.\<close>

definition background :: "'a keyboard_scheme \<Rightarrow> 'a keyboard_scheme \<Rightarrow> bool" where
  "background s t \<longleftrightarrow> terminal_frame s t \<and> terminal_of t = terminal_of s \<and> (kernel_ok s \<longrightarrow> kernel_ok t)"

text \<open>Every interrupt is one of the 16 hardware lines. An interrupt comes before or after a character is printed, not
  while \<open>putc\<close> runs.\<close>

inductive session :: "symbols \<Rightarrow> event list \<Rightarrow> 'a keyboard_scheme \<Rightarrow> 'a keyboard_scheme \<Rightarrow> bool"
  for syms :: symbols where
  Done: "session syms [] s s"
| Irq: "irq_handler syms r s = Some (r', t) \<Longrightarrow> 32 \<le> r_int_no r \<Longrightarrow> r_int_no r < 48 \<Longrightarrow> session syms es t u \<Longrightarrow>
    session syms (Interrupt r # es) s u"
| Char: "session syms es (putc c s) u \<Longrightarrow> session syms (Print c # es) s u"
| Back: "background s t \<Longrightarrow> session syms es t u \<Longrightarrow> session syms (Work # es) s u"

inductive_cases session_NilE [elim!]: "session syms [] s u"
inductive_cases session_ConsE: "session syms (e # es) s u"

text \<open>What the events do to the terminal, when \<open>n\<close> codes have been read before.\<close>

fun seen :: "(nat \<Rightarrow> u8) \<Rightarrow> nat \<Rightarrow> event list \<Rightarrow> terminal \<Rightarrow> terminal" where
  "seen code n [] T = T"
| "seen code n (Interrupt r # es) T =
     (if r_int_no r = 33 then seen code (Suc n) es (type_key (code n) T) else seen code n es T)"
| "seen code n (Print c # es) T = seen code n es (T\<lparr>display := console_putc c (display T)\<rparr>)"
| "seen code n (Work # es) T = seen code n es T"

lemma session_append: "session syms es s t \<Longrightarrow> session syms es' t u \<Longrightarrow> session syms (es @ es') s u"
  by (induction rule: session.induct) (auto intro: session.intros)

section \<open>Sessions are typed and printed on the terminal\<close>

lemma putc_terminal:
  assumes "terminal_ok syms code s"
  shows "terminal_ok syms code (putc c s)" "codes_read (putc c s) = codes_read s"
    "terminal_of (putc c s) = (terminal_of s)\<lparr>display := console_putc c (display (terminal_of s))\<rparr>"
proof -
  have k: "kernel_ok s" "cursor_ok s" using assms by (simp_all add: terminal_ok_def kernel_ok_def)
  note st = putc_step [OF k(2), of c]
  note f = console_step_terminal [OF st]
  show c: "codes_read (putc c s) = codes_read s" by simp
  have "terminal_frame s (putc c s)" using f c by (simp add: terminal_frame_def)
  from terminal_ok_frame [OF assms this kernel_ok_console [OF st k(1)]] show "terminal_ok syms code (putc c s)" .
  show "terminal_of (putc c s) = (terminal_of s)\<lparr>display := console_putc c (display (terminal_of s))\<rparr>"
    using f(4) console_of_putc [OF k(2)] by (simp add: terminal_of_def)
qed

lemma session_seen:
  "session syms es s u \<Longrightarrow> terminal_ok syms code s \<Longrightarrow>
     terminal_ok syms code u \<and> terminal_of u = seen code (codes_read s) es (terminal_of s)"
proof (induction rule: session.induct)
  case (Irq r s r' t es u)
  obtain q v where "irq_handler syms r s = Some (q, v)" "terminal_ok syms code v"
    "if r_int_no r = 33 then codes_read v = codes_read s + 1 \<and> terminal_of v = type_key (code (codes_read s)) (terminal_of s)
     else codes_read v = codes_read s \<and> terminal_of v = terminal_of s"
    using irq_types [OF Irq.prems Irq.hyps(2,3)] by blast
  with Irq.hyps(1) Irq.IH show ?case by (auto split: if_splits)
next
  case (Char es c s u)
  from Char.IH [OF putc_terminal(1) [OF Char.prems]] putc_terminal(2,3) [OF Char.prems, of c] show ?case by simp
next
  case (Back s t es u)
  have "kernel_ok s" using Back.prems by (simp add: terminal_ok_def)
  then have "terminal_ok syms code t" "codes_read t = codes_read s" "terminal_of t = terminal_of s"
    using Back.hyps(1) terminal_ok_frame [OF Back.prems, of t] by (simp_all add: background_def terminal_frame_def)
  with Back.IH show ?case by simp
qed simp

section \<open>The programs of main.c\<close>

lemma memory_background:
  assumes "\<And>x. x \<in> video \<Longrightarrow> m x = mem s x"
  shows "background s (s\<lparr>mem := m\<rparr>)"
proof -
  have "console_of (s\<lparr>mem := m\<rparr>) = console_of s" by (rule console_of_cong) (simp_all add: assms)
  then show ?thesis
    by (simp add: background_def terminal_frame_def terminal_of_def kernel_ok_def cursor_ok_def)
qed

text \<open>\<open>lol\<close> makes the two processes without a trace on the terminal.\<close>

lemma lol_background:
  fixes s :: "'a boot_scheme"
  assumes "kmap KD 4080 s" "two_rooms KD s" "sched_ok s" "\<forall>i. live (proc_arr s) i \<longleftrightarrow> i = 0" "0xB9000 \<le> KD"
  shows "\<exists>t. lol a2 a3 regis s = Some (Halt t) \<and> background s t"
proof -
  let ?N = "page_up (unat (place_addr s))"
  have ps: "procs_ok (proc_arr s)" "\<forall>i. live (proc_arr s) i \<longleftrightarrow> i < 1" using assms(3,4) by (simp_all add: sched_ok_def)
  obtain m r where m: "lol a2 a3 regis s = Some (Halt
      (s\<lparr>mem := m, place_addr := of_nat (?N + 40960),
         proc2 := ready_process a2 regis ?N (proc2 s), proc3 := ready_process a3 r (?N + 20480) (proc3 s),
         proc_arr := (proc_arr s)[1 := (ready_process a2 regis ?N (proc2 s))\<lparr>pid := of_nat 1\<rparr>,
           2 := (ready_process a3 r (?N + 20480) (proc3 s))\<lparr>pid := of_nat 2\<rparr>]\<rparr>))" (is "_ = Some (Halt ?t)")
    "\<forall>x. unat x < KD \<longrightarrow> m x = mem s x"
    using lol_runs [OF assms(1,2) ps] by blast
  have "m x = mem s x" if "x \<in> video" for x
    using above_video [of x] that assms(5) m(2) by (cases "unat x < KD") auto
  then have c: "console_of ?t = console_of s" by (intro console_of_cong) simp_all
  note fl = fill_slot [OF ps, of "ready_process a2 regis ?N (proc2 s)"]
  have "procs_ok (proc_arr ?t)"
    using fill_slot(1) [of _ 2 "ready_process a3 r (?N + 20480) (proc3 s)", OF fl(1)] fl(2) by (simp add: numeral_2_eq_2)
  then have "background s ?t" using c
    by (simp add: background_def terminal_frame_def terminal_of_def codes_read_def kernel_ok_def cursor_ok_def)
  with m(1) show ?thesis by blast
qed

text \<open>\<open>lol2\<close> and \<open>lol3\<close> up to their loops.\<close>

lemma fresh_heap_background:
  assumes "fresh_heap p" "\<forall>x. \<not> in_heap p x \<longrightarrow> m x = mem s x"
  shows "background s (s\<lparr>mem := m\<rparr>)"
proof (rule memory_background)
  fix x assume "x \<in> video"
  then have "\<not> 0xB9000 \<le> unat x" using above_video by blast
  then have "\<not> in_heap p x" using fresh_heap_words(4) [OF assms(1), of x] by linarith
  then show "m x = mem s x" using assms(2) by blast
qed

lemma programs_background:
  fixes s :: "'a boot_scheme"
  assumes "fresh_heap (proc2 s)" "fresh_heap (proc3 s)"
  shows "\<exists>t. lol2 s = Some (Ret 0xFF1006 t) \<and> background s t" "\<exists>t. lol3 s = Some (Ret 0xFF1006 t) \<and> background s t"
proof -
  have same: "proc2_update (\<lambda>_. proc2 s) s = s" "proc3_update (\<lambda>_. proc3 s) s = s" by (cases s, simp)+
  show "\<exists>t. lol2 s = Some (Ret 0xFF1006 t) \<and> background s t"
    using p2.user_program_runs [OF assms(1), of 5] fresh_heap_background [OF assms(1)] by (auto simp: lol2_def same)
  show "\<exists>t. lol3 s = Some (Ret 0xFF1006 t) \<and> background s t"
    using p3.user_program_runs [OF assms(2), of 6] fresh_heap_background [OF assms(2)] by (auto simp: lol3_def same)
qed

text \<open>A report prints its text, character by character.\<close>

definition report_text :: "u32 \<Rightarrow> u32 \<Rightarrow> u8 list" where
  "report_text a v = format_text (tokens report_format) [VaWord a, VaWord v]"

lemma printed_session: "session syms (map Print cs) s (fold putc cs s)"
  by (induction cs arbitrary: s) (auto intro: session.intros)

lemma report_session:
  "\<exists>t. printf report_format [VaWord a, VaWord v] s = Some t \<and> session syms (map Print (report_text a v)) s t"
proof -
  have "args_fit (tokens report_format) [VaWord a, VaWord v]"
    by (simp add: args_fit_def report_format_def str_def nl_def)
  from print_tokens_fit [OF this, of s] show ?thesis
    using printed_session [of syms "report_text a v" s] by (simp add: printf_tokens report_text_def)
qed

section \<open>Properties\<close>

text \<open>C13. From \<open>main\<close> on the display is never anything else than a blank screen with the greeting on it, the text typed
  and the text printed since. \<open>main\<close> returns, and whatever happens then, in whatever order (hardware interrupts on
  any line, with the processes they switch to; characters that programs print, such as the reports of \<open>lol2\<close> and
  \<open>lol3\<close>; other work of programs and kernel, such as \<open>lol\<close>), display, keys held down and caps lock are those of a
  terminal on which the codes of the keyboard interrupts are typed and the characters are
  printed in the order of the events; and the next hardware interrupt returns. Interrupts within \<open>putc\<close> are
  not covered.\<close>

theorem display_after_main:
  fixes s :: "'a tss_scheme"
  assumes "boot_room s" and "controller_ok s" and "types code s"
    and "irq_routines s = replicate 16 0" and "shiftLookup s = replicate 128 0" and "keyStatus s = 0"
    and "region (g + 40) 8 \<inter> video = {}" and "region a 104 \<inter> video = {}"
    and "sym_timer_handler syms \<noteq> 0" and "sym_keyboard_handler syms \<notin> {0, sym_timer_handler syms}"
  shows "\<exists>t. main syms g a f s = Some (Ret () t) \<and> (\<forall>es u. session syms es t u \<longrightarrow>
    terminal_of u = seen code (codes_read t) es
      \<lparr>display = fold console_putc (str (''Thank you for choosing Garg-OS!'' @ [nl])) \<lparr>cells = replicate 2000 0x9020, cursor = 0\<rparr>,
       down = {}, caps = False\<rparr> \<and>
    (\<forall>r. 32 \<le> r_int_no r \<and> r_int_no r < 48 \<longrightarrow> (\<exists>r' v. irq_handler syms r u = Some (r', v))))"
proof -
  obtain t where t: "main syms g a f s = Some (Ret () t)" "terminal_ok syms code t" "terminal_of t =
      \<lparr>display = fold console_putc banner \<lparr>cells = replicate 2000 0x9020, cursor = 0\<rparr>, down = {}, caps = False\<rparr>"
    using main_terminal [OF assms] by blast
  have "terminal_of u = seen code (codes_read t) es (terminal_of t) \<and>
      (\<forall>r. 32 \<le> r_int_no r \<and> r_int_no r < 48 \<longrightarrow> (\<exists>r' v. irq_handler syms r u = Some (r', v)))"
    if "session syms es t u" for es u
  proof -
    from session_seen [OF that t(2)] have u: "terminal_ok syms code u" "terminal_of u = seen code (codes_read t) es (terminal_of t)"
      by blast+
    then show ?thesis using irq_types [OF u(1)] by blast
  qed
  then show ?thesis using t(1) unfolding t(3) banner_def by blast
qed

section \<open>Witness\<close>

text \<open>A keyboard on which left shift is pressed again and again.\<close>

definition demo_typing :: tss where
  "demo_typing = demo_boot\<lparr>keyStatus := 0, dev := \<lambda>tr e. if e = In8 0x60 then 42 else 0\<rparr>"

text \<open>A program prints \<open>V\<close>, and left shift is pressed.\<close>

lemma display_after_main_witness:
  "\<exists>t u. main demo_addresses 0x7C00 0x25000 0x21000 demo_typing = Some (Ret () t) \<and>
    session demo_addresses [Print 86, Interrupt ((read_regs (\<lambda>_. 0) 0)\<lparr>r_int_no := 33\<rparr>)] t u \<and>
    display (terminal_of u) = console_putc 86 (fold console_putc (str (''Thank you for choosing Garg-OS!'' @ [nl]))
      \<lparr>cells = replicate 2000 0x9020, cursor = 0\<rparr>)"
proof -
  let ?r = "(read_regs (\<lambda>_. 0) 0)\<lparr>r_int_no := 33\<rparr>"
  define T where "T = \<lparr>display = fold console_putc (str (''Thank you for choosing Garg-OS!'' @ [nl]))
      \<lparr>cells = replicate 2000 0x9020, cursor = 0\<rparr>, down = {}, caps = False\<rparr>"
  have room: "boot_room demo_typing"
    using demo_boot_ok(1) by (simp add: demo_typing_def boot_room_def idt_page_def)
  have dev: "types (\<lambda>_. 42) demo_typing" "controller_ok demo_typing"
    by (simp_all add: types_def controller_ok_def demo_typing_def)
  have f: "irq_routines demo_typing = replicate 16 0" "shiftLookup demo_typing = replicate 128 0" "keyStatus demo_typing = 0"
    by (simp_all add: demo_typing_def demo_boot_def demo_tss_def demo_keyboard_def keyboard.defs)
  have v: "region (0x7C00 + 40) 8 \<inter> video = {}" "region 0x25000 104 \<inter> video = {}"
    unfolding video_def VIDEO_MEMORY_def by (rule region_disjoint; simp)+
  have syms: "sym_timer_handler demo_addresses \<noteq> 0" "sym_keyboard_handler demo_addresses \<notin> {0, sym_timer_handler demo_addresses}"
    by (simp_all add: demo_addresses_def)
  obtain t where t: "main demo_addresses 0x7C00 0x25000 0x21000 demo_typing = Some (Ret () t)"
    "\<And>es u. session demo_addresses es t u \<Longrightarrow> terminal_of u = seen (\<lambda>_. 42) (codes_read t) es T \<and>
      (\<forall>r. 32 \<le> r_int_no r \<and> r_int_no r < 48 \<longrightarrow> (\<exists>r' v. irq_handler demo_addresses r u = Some (r', v)))"
    using display_after_main [OF room dev(2,1) f v syms, of "0x21000", folded T_def] by metis
  have "session demo_addresses [Print 86] t (putc 86 t)" by (intro session.intros)
  from t(2) [OF this] obtain r' u where u: "irq_handler demo_addresses ?r (putc 86 t) = Some (r', u)" by force
  have run: "session demo_addresses [Print 86, Interrupt ?r] t u"
    by (rule session.Char, rule session.Irq [OF u _ _ session.Done]) simp_all
  have "display (terminal_of u) = console_putc 86 (display T)"
    using t(2) [OF run] by (simp add: type_key_def key_bits_def move_key_def Let_def)
  with t(1) run show ?thesis by (auto simp: T_def)
qed

end
