(* ===== verification/Routines.thy ===== *)
theory Routines
  imports Gdt
begin

text \<open>
  The assembly routines that the C code calls: \<open>cr_util.asm\<close>, \<open>flush_tss.asm\<close>, \<open>registers.asm\<close>, \<open>idt_load\<close> of
  \<open>idt.asm\<close> and \<open>print_vendor_info\<close> of \<open>vendor_info.asm\<close>. They run on the processor of \<open>Stubs\<close>, called with
  their arguments on the stack; the operations of the other theories assume of them what is proved here.
\<close>

section \<open>Instructions\<close>

datatype creg = CR0 | CR2 | CR3

text \<open>\<open>MovEaxArg\<close> is \<open>mov eax, [ebp+8]\<close>, \<open>LoadAx\<close> a \<open>mov\<close> of a constant to \<open>ax\<close>, \<open>Lidt\<close> loads from \<open>idtp\<close>.\<close>

datatype routine_instr = MovEaxC creg | MovCEax creg | PushEbp | MovEbpEsp | MovEaxArg | PopEbp
  | PushFlags | PushEsp | PopToEax | LoadAx u16 | Ltr | Lidt | Sti | Return

fun read_creg :: "creg \<Rightarrow> 'a paging_scheme \<Rightarrow> u32" where
  "read_creg CR0 s = cr0 s"
| "read_creg CR2 s = cr2 s"
| "read_creg CR3 s = cr3 s"

fun write_creg :: "creg \<Rightarrow> u32 \<Rightarrow> 'a paging_scheme \<Rightarrow> 'a paging_scheme" where
  "write_creg CR0 v s = s\<lparr>cr0 := v\<rparr>"
| "write_creg CR2 v s = s\<lparr>cr2 := v\<rparr>"
| "write_creg CR3 v s = s\<lparr>cr3 := v\<rparr>"

definition push_word :: "u32 \<Rightarrow> cpu \<times> 'a machine_scheme \<Rightarrow> cpu \<times> 'a machine_scheme" where
  "push_word v = (\<lambda>(c, s). (c\<lparr>ESP := ESP c - 4\<rparr>, store32 (ESP c - 4) v s))"

text \<open>\<open>pushf\<close> pushes the flags without those of virtual mode and resume. \<open>push esp\<close> pushes the value that
  \<open>esp\<close> has before.\<close>

fun step :: "routine_instr \<Rightarrow> cpu \<times> 'a tss_scheme \<Rightarrow> cpu \<times> 'a tss_scheme" where
  "step (MovEaxC r) (c, s) = (c\<lparr>EAX := read_creg r s\<rparr>, s)"
| "step (MovCEax r) (c, s) = (c, write_creg r (EAX c) s)"
| "step PushEbp (c, s) = push_word (EBP c) (c, s)"
| "step MovEbpEsp (c, s) = (c\<lparr>EBP := ESP c\<rparr>, s)"
| "step MovEaxArg (c, s) = (c\<lparr>EAX := ld32 (mem s) (EBP c + 8)\<rparr>, s)"
| "step PopEbp (c, s) = (c\<lparr>EBP := ld32 (mem s) (ESP c), ESP := ESP c + 4\<rparr>, s)"
| "step PushFlags (c, s) = push_word (EFLAGS c AND 0xFCFFFF) (c, s)"
| "step PushEsp (c, s) = push_word (ESP c) (c, s)"
| "step PopToEax (c, s) = (c\<lparr>EAX := ld32 (mem s) (ESP c), ESP := ESP c + 4\<rparr>, s)"
| "step (LoadAx v) (c, s) = (c\<lparr>EAX := (EAX c AND 0xFFFF0000) OR ucast v\<rparr>, s)"
| "step Ltr (c, s) = (c, s\<lparr>task_register := ucast (EAX c)\<rparr>)"
| "step Lidt (c, s) = (c, s\<lparr>idtr := Some (idtp_limit s, idtp_base s)\<rparr>)"
| "step Sti (c, s) = (c\<lparr>EFLAGS := EFLAGS c OR 0x200\<rparr>, s\<lparr>interrupts_on := True\<rparr>)"
| "step Return (c, s) = (c\<lparr>EIP := ld32 (mem s) (ESP c), ESP := ESP c + 4\<rparr>, s)"

text \<open>A call by C: arguments from last to first, the address of the next instruction, the routine, and
  the arguments removed.\<close>

definition call_asm :: "routine_instr list \<Rightarrow> u32 list \<Rightarrow> cpu \<times> 'a tss_scheme \<Rightarrow> cpu \<times> 'a tss_scheme" where
  "call_asm code args =
     (\<lambda>(c, s). let (d, t) = fold step code (push_word (EIP c) (fold push_word (rev args) (c, s)))
       in (d\<lparr>ESP := ESP d + of_nat (4 * length args)\<rparr>, t))"

section \<open>The routines\<close>

definition read_cr0 :: "routine_instr list" where "read_cr0 = [MovEaxC CR0, Return]"
definition read_cr2 :: "routine_instr list" where "read_cr2 = [MovEaxC CR2, Return]"
definition read_cr3 :: "routine_instr list" where "read_cr3 = [MovEaxC CR3, Return]"

definition write_cr0 :: "routine_instr list" where
  "write_cr0 = [PushEbp, MovEbpEsp, MovEaxArg, MovCEax CR0, PopEbp, Return]"

definition write_cr3 :: "routine_instr list" where
  "write_cr3 = [PushEbp, MovEbpEsp, MovEaxArg, MovCEax CR3, PopEbp, Return]"

definition flush_tss :: "routine_instr list" where "flush_tss = [LoadAx 0x2B, Ltr, Return]"
definition idt_load :: "routine_instr list" where "idt_load = [Lidt, Sti, Return]"
definition get_eflags :: "routine_instr list" where "get_eflags = [PushFlags, PopToEax, Return]"
definition get_esp :: "routine_instr list" where "get_esp = [PushEsp, PopToEax, Return]"

text \<open>The label \<open>load_regs\<close> has no instructions before the next one.\<close>

definition load_regs :: "routine_instr list" where "load_regs = get_eflags"

text \<open>\<open>get_gdt_descriptor\<close> of \<open>system.c\<close>: \<open>sgdt\<close> writes limit and base of the table register.\<close>

definition get_gdt_descriptor :: "u32 \<Rightarrow> u16 \<times> u32 \<Rightarrow> 'a machine_scheme \<Rightarrow> 'a machine_scheme" where
  "get_gdt_descriptor p = (\<lambda>(limit, base) s. store32 (p + 2) base (store16 p limit s))"

lemma drop_8_less: "w \<noteq> 0 \<Longrightarrow> unat (drop_bit 8 w :: u32) < unat w"
  by (simp add: unsigned_drop_bit_eq drop_bit_eq_div unat_div unat_gt_0)

text \<open>\<open>print_vendor_info\<close>: \<open>cpuid\<close> gives the name in \<open>ebx\<close>, \<open>edx\<close>, \<open>ecx\<close>; of each register the lowest byte
  is printed and shifted out until the register is 0. The registers are saved around each call of \<open>putc\<close>.\<close>

function vendor_loop :: "u32 \<Rightarrow> 'a screen_scheme \<Rightarrow> 'a screen_scheme" where
  "vendor_loop w s = (if w OR w = 0 then s else vendor_loop (drop_bit 8 w) (putc (ucast w) s))"
  by pat_completeness auto

termination
  by (relation "measure (\<lambda>(w, s). unat w)") (auto simp: drop_8_less)

declare vendor_loop.simps [simp del]

definition print_vendor_info :: "u32 \<times> u32 \<times> u32 \<Rightarrow> 'a screen_scheme \<Rightarrow> 'a screen_scheme" where
  "print_vendor_info = (\<lambda>(ebx, edx, ecx) s. vendor_loop ecx (vendor_loop edx (vendor_loop ebx s)))"

section \<open>The stack of a call\<close>

lemma stored_words:
  "ld32 (st32 (st32 m (e - 4) v) (e - 8) w) (e - 4) = v"
  "ld32 (st32 (st32 (st32 m (e - 4) v) (e - 8) w) (e - 12) x) (e - 4) = v"
  "ld32 (st32 (st32 (st32 m (e - 4) v) (e - 8) w) (e - 12) x) (e - 8) = w"
proof -
  have d: "region (e - 8) 4 \<inter> region (e - 4) 4 = {}" "region (e - 12) 4 \<inter> region (e - 4) 4 = {}"
    "region (e - 12) 4 \<inter> region (e - 8) 4 = {}"
    using word_below [of 1 "e - 8"] word_below [of 2 "e - 12"] word_below [of 1 "e - 12"] by (auto simp: region_4)
  show "ld32 (st32 (st32 m (e - 4) v) (e - 8) w) (e - 4) = v"
    "ld32 (st32 (st32 (st32 m (e - 4) v) (e - 8) w) (e - 12) x) (e - 4) = v"
    "ld32 (st32 (st32 (st32 m (e - 4) v) (e - 8) w) (e - 12) x) (e - 8) = w"
    using d by (simp_all add: s32.ld_st_disjoint s32.ld_st Int_commute)
qed

text \<open>What a call may change of the memory: the \<open>n\<close> bytes below the stack pointer.\<close>

definition only_stack :: "nat \<Rightarrow> cpu \<Rightarrow> 'a machine_scheme \<Rightarrow> 'a machine_scheme \<Rightarrow> bool" where
  "only_stack n c s t \<longleftrightarrow> (\<exists>m. t = s\<lparr>mem := m\<rparr> \<and> (\<forall>x. x \<notin> region (ESP c - of_nat n) n \<longrightarrow> m x = mem s x))"

lemma below_4: "x \<notin> region (e - 4) 4 \<Longrightarrow> st32 m (e - 4) v x = m x"
  by (rule s32.st_frame)

lemma below_8:
  assumes "x \<notin> region (e - 8) 8"
  shows "st32 (st32 m (e - 4) v) (e - 8) w x = m x"
  using assms push_words_frame [of x e "[v, w]" m] by simp

lemma below_12:
  assumes "x \<notin> region (e - 12) 12"
  shows "st32 (st32 (st32 m (e - 4) v) (e - 8) w) (e - 12) u x = m x"
  using assms push_words_frame [of x e "[v, w, u]" m] by simp

named_theorems routine_simps \<open>execution of a routine\<close>

lemmas [routine_simps] = call_asm_def push_word_def store32_def stored_words s32.ld_st

lemma call_read:
  "call_asm [MovEaxC r, Return] [] (c, s) = (c\<lparr>EAX := read_creg r s\<rparr>, s\<lparr>mem := st32 (mem s) (ESP c - 4) (EIP c)\<rparr>)"
  by (cases r) (simp_all add: routine_simps)

lemma call_write:
  "call_asm [PushEbp, MovEbpEsp, MovEaxArg, MovCEax r, PopEbp, Return] [v] (c, s) =
     (c\<lparr>EAX := v\<rparr>, write_creg r v (s\<lparr>mem := st32 (st32 (st32 (mem s) (ESP c - 4) v) (ESP c - 8) (EIP c)) (ESP c - 12) (EBP c)\<rparr>))"
  by (cases r) (simp_all add: routine_simps)

text \<open>A vendor name of twelve letters.\<close>

lemma vendor_loop_eq:
  assumes "drop_bit 24 w \<noteq> 0"
  shows "vendor_loop w s = fold putc (dd w) s"
proof -
  have nz: "drop_bit k w \<noteq> 0" if "k \<le> 24" for k
  proof
    assume "drop_bit k w = 0"
    then have "drop_bit (24 - k) (drop_bit k w) = 0" by simp
    then show False using assms that by simp
  qed
  have z: "drop_bit 32 w = 0" by (rule bit_word_eqI) (simp add: bit_simps)
  show ?thesis
    using nz [of 0] nz [of 8] nz [of 16] nz [of 24] z
    by (subst vendor_loop.simps, simp, subst vendor_loop.simps, simp, subst vendor_loop.simps, simp,
        subst vendor_loop.simps, simp, subst vendor_loop.simps, simp add: dd_def)
qed

section \<open>Each routine\<close>

lemma only_stackI:
  "t = s\<lparr>mem := m\<rparr> \<Longrightarrow> (\<And>x. x \<notin> region (ESP c - of_nat n) n \<Longrightarrow> m x = mem s x) \<Longrightarrow> only_stack n c s t"
  by (auto simp: only_stack_def)

lemma below_last: "x \<notin> region (e - 12) 12 \<Longrightarrow> x \<notin> region (e - 4) 4"
  using region_shift [of x "e - 12" 8 4 12] by auto

lemma enable_paging_called:
  "\<exists>t. call_asm write_cr0 [EAX (fst (call_asm read_cr0 [] (c, s))) OR 0x80000000] (call_asm read_cr0 [] (c, s)) =
    (c\<lparr>EAX := cr0 s OR 0x80000000\<rparr>, t) \<and> only_stack 12 c (enable_paging s) t"
  unfolding read_cr0_def write_cr0_def call_read call_write
  by (intro exI conjI, simp, rule only_stackI
      [where m = "st32 (st32 (st32 (st32 (mem s) (ESP c - 4) (EIP c)) (ESP c - 4) (cr0 s OR 0x80000000)) (ESP c - 8) (EIP c)) (ESP c - 12) (EBP c)"])
    (simp_all add: enable_paging_def below_12 below_4 below_last)

lemma switch_page_directory_called:
  "\<exists>t. call_asm write_cr3 [dir] (c, s\<lparr>current_dir := dir\<rparr>) = (c\<lparr>EAX := dir\<rparr>, t) \<and> only_stack 12 c (switch_page_directory dir s) t"
  unfolding write_cr3_def call_write
  by (intro exI conjI, simp, rule only_stackI
      [where m = "st32 (st32 (st32 (mem s) (ESP c - 4) dir) (ESP c - 8) (EIP c)) (ESP c - 12) (EBP c)"])
    (simp_all add: switch_page_directory_def below_12)

lemma read_called:
  "\<exists>t. call_asm [MovEaxC r, Return] [] (c, s) = (c\<lparr>EAX := read_creg r s\<rparr>, t) \<and> only_stack 4 c s t"
  unfolding call_read by (intro exI conjI, rule refl, rule only_stackI [OF refl]) (simp_all add: below_4)

lemma flush_tss_called:
  "\<exists>t. call_asm flush_tss [] (c, s) = (c\<lparr>EAX := (EAX c AND 0xFFFF0000) OR 0x2B\<rparr>, t) \<and> only_stack 4 c (s\<lparr>task_register := 0x2B\<rparr>) t"
proof -
  have low: "ucast ((EAX c AND 0xFFFF0000) OR 0x2B) = (0x2B :: u16)" using low_half [of "EAX c" "0x2B"] by simp
  show ?thesis
    by (intro exI conjI, simp add: flush_tss_def routine_simps low, rule only_stackI [where m = "st32 (mem s) (ESP c - 4) (EIP c)"])
      (simp_all add: below_4)
qed

lemma idt_load_called:
  "\<exists>t. call_asm idt_load [] (c, s) = (c\<lparr>EFLAGS := EFLAGS c OR 0x200\<rparr>, t) \<and>
    only_stack 4 c (s\<lparr>idtr := Some (idtp_limit s, idtp_base s), interrupts_on := True\<rparr>) t"
  by (intro exI conjI, simp add: idt_load_def routine_simps, rule only_stackI [where m = "st32 (mem s) (ESP c - 4) (EIP c)"])
    (simp_all add: below_4)

lemma flags_called:
  "\<exists>t. call_asm get_eflags [] (c, s) = (c\<lparr>EAX := EFLAGS c AND 0xFCFFFF\<rparr>, t) \<and> only_stack 8 c s t"
  "\<exists>t. call_asm get_esp [] (c, s) = (c\<lparr>EAX := ESP c - 4\<rparr>, t) \<and> only_stack 8 c s t"
  "\<exists>t. call_asm load_regs [p] (c, s) = (c\<lparr>EAX := EFLAGS c AND 0xFCFFFF\<rparr>, t) \<and> only_stack 12 c s t"
proof -
  show "\<exists>t. call_asm get_eflags [] (c, s) = (c\<lparr>EAX := EFLAGS c AND 0xFCFFFF\<rparr>, t) \<and> only_stack 8 c s t"
    by (intro exI conjI, simp add: get_eflags_def routine_simps, rule only_stackI [OF refl]) (simp_all add: below_8)
  show "\<exists>t. call_asm get_esp [] (c, s) = (c\<lparr>EAX := ESP c - 4\<rparr>, t) \<and> only_stack 8 c s t"
    by (intro exI conjI, simp add: get_esp_def routine_simps, rule only_stackI [OF refl]) (simp_all add: below_8)
  show "\<exists>t. call_asm load_regs [p] (c, s) = (c\<lparr>EAX := EFLAGS c AND 0xFCFFFF\<rparr>, t) \<and> only_stack 12 c s t"
    by (intro exI conjI, simp add: load_regs_def get_eflags_def routine_simps, rule only_stackI [OF refl]) (simp_all add: below_12)
qed

section \<open>Properties\<close>


text \<open>What \<open>init_tss\<close> reads back of the descriptor that \<open>sgdt\<close> has stored.\<close>

theorem gdt_descriptor_base:
  "ld32 (mem (get_gdt_descriptor p (limit, base) s)) (p + 2) = base \<and> ld16 (mem (get_gdt_descriptor p (limit, base) s)) p = limit"
proof -
  have "region (p + 2) 4 \<inter> region p 2 = {}"
    using word_below [of 1 p] by (auto simp: region_2 region_4 add.assoc)
  then show ?thesis
    by (simp add: get_gdt_descriptor_def store32_def store16_def s32.ld_st ld16_st32 s16.ld_st)
qed

text \<open>The vendor's name is printed in the order of its letters.\<close>

theorem vendor_printed:
  assumes "drop_bit 24 ebx \<noteq> 0" and "drop_bit 24 edx \<noteq> 0" and "drop_bit 24 ecx \<noteq> 0"
  shows "print_vendor_info (ebx, edx, ecx) s = fold putc (dd ebx @ dd edx @ dd ecx) s"
  using assms by (simp add: print_vendor_info_def vendor_loop_eq)

section \<open>Witnesses\<close>

lemma vendor_printed_witness:
  "print_vendor_info (0x756E6547, 0x49656E69, 0x6C65746E) demo_tss = fold putc (str ''GenuineIntel'') demo_tss"
proof -
  have "dd 0x756E6547 @ dd 0x49656E69 @ dd 0x6C65746E = str ''GenuineIntel''" by (simp add: dd_def str_def)
  then show ?thesis using vendor_printed [of "0x756E6547" "0x49656E69" "0x6C65746E" demo_tss] by simp
qed

end
