(* ===== verification/Spec2Isabelle.thy ===== *)
theory Spec2Isabelle
  imports SecondStage KernelTables ProcessorSharing AddressSpaces HeapClient Session Routines
begin

text \<open>
  A model of the C code of Garg-OS, a 32-bit kernel for i386, and the theorems that make it correct.

  The parts of the program and their theories:

  \<^item> \<open>Prelude\<close>: the integer types of \<open>stdint.h\<close> as words, results that may stop the machine, regions
    of addresses, the checked access \<open>item\<close> to an array, and lemmas on words and pages that the rest shares.
  \<^item> \<open>Memory\<close>, \<open>System\<close> (\<open>p_mode/system.c\<close>): byte-addressed memory with little-endian accesses, behind
    the interface \<open>store\<close>; the machine, whose hardware is an arbitrary function of the port accesses so
    far; \<open>memcpy\<close>, \<open>memset\<close>, port input and output, the saved registers.
  \<^item> \<open>Screen\<close>, \<open>ScreenProps\<close>, \<open>ScreenNumbers\<close>, \<open>ScreenSpec\<close> (\<open>drivers/screen/screen.c\<close>): the text console in
    video memory, its refinement of an abstract grid of cells, the numbers it prints, and \<open>printf\<close> as
    the printing of the text of a format (\<open>tokens\<close>, \<open>format_text\<close>). \<open>console_printer\<close> is the interface of a routine that prints.
  \<^item> \<open>KHeap\<close> (\<open>memory_management/kernel/kheap.c\<close>): the allocator that never frees, behind the interface
    \<open>bump_allocator\<close>.
  \<^item> \<open>Idt\<close>, \<open>IdtSpec\<close> (\<open>interrupts/idt.c\<close>, and the installation in \<open>isrs.c\<close> and \<open>irq.c\<close>): descriptor table
    and handler tables.
  \<^item> \<open>Paging\<close>, \<open>PageWords\<close>, \<open>KernelMap\<close>, \<open>AllocPage\<close>, \<open>NewDirectory\<close>, \<open>PagingSpec\<close>
    (\<open>memory_management/kernel/paging.c\<close>): the bitset of frames, directories and tables. The specification
    is \<open>walk\<close>, what the processor does with a directory.
  \<^item> \<open>Heap\<close>, \<open>HeapBlocks\<close>, \<open>HeapFit\<close>, \<open>HeapUnite\<close>, \<open>HeapMalloc\<close>, \<open>PageSupply\<close>, \<open>HeapAligned\<close>, \<open>HeapSpec\<close>
    (\<open>memory_management/kernel/heap.c\<close>): the heap of a process. The specification is a list of blocks;
    the pointer code is proved equal to first fit and coalescing on that list. \<open>page_supply\<close> is the interface
    to paging, interpreted in \<open>PageSupply\<close> on the model of \<open>alloc_page\<close>.
  \<^item> \<open>HeapClient\<close>: the heap over its whole life. \<open>heap_step\<close> is the step relation of a client that calls \<open>malloc\<close>
    and \<open>free\<close> and writes into its blocks; \<open>session_ok\<close> is the invariant, from which its data are safe and
    its calls return.
  \<^item> \<open>ProcessList\<close>, \<open>Scheduler\<close>, \<open>Timer\<close> (\<open>processes/*.c\<close>, \<open>drivers/timer/timer.c\<close>): the process table,
    the round robin over it and the timer interrupt that drives it.
  \<^item> \<open>Keyboard\<close> (\<open>drivers/keyboard/kb.c\<close>): scan codes, the status word, the lights. The specification of the
    status word is the set of keys that are down.
  \<^item> \<open>Terminal\<close>: keyboard, interrupt dispatch and console as one terminal. \<open>type_key\<close> is what a scan code does to
    display, keys and caps lock; \<open>types code\<close> is a keyboard that delivers the codes \<open>code\<close>. The refinement holds
    under any mix of hardware interrupts, and \<open>main\<close> establishes its invariant \<open>terminal_ok\<close>.
  \<^item> \<open>Session\<close>: the same for the system at work. \<open>session\<close> interleaves hardware interrupts, characters that programs
    print and other work, \<open>seen\<close> is what they do to the terminal; \<open>lol\<close>, \<open>lol2\<close> and \<open>lol3\<close> are shown to be such
    work, and their reports such characters.
  \<^item> \<open>Interrupts\<close> (\<open>fault_handler\<close> of \<open>isrs.c\<close>, \<open>irq_handler\<close> of \<open>irq.c\<close>, \<open>divideByZero\<close> of \<open>main.c\<close>): handlers
    are called through their addresses in the tables. \<open>kernel_step\<close> is the step relation of the running
    kernel, one step per interrupt or change of the process table, with the invariant \<open>kernel_ok\<close>.
  \<^item> \<open>KernelTables\<close>: that every interrupt of the running kernel is handled to the end. The handlers read their arrays
    through \<open>item\<close>, which has no value outside, so no access leaves an array, and every call through the table
    reaches a handler.
  \<^item> \<open>Tss\<close> (\<open>init_tss\<close>, \<open>set_kernel_stack\<close> of \<open>system.c\<close>): the task state segment, and how the processor reads
    its descriptor.
  \<^item> \<open>Pci\<close> (\<open>drivers/pci/pci.c\<close>, \<open>drivers/usb/uhci.c\<close>): configuration space and the scan of all buses.
  \<^item> \<open>ElfLoader\<close> (\<open>elf_parse.c\<close>): the second boot stage, a program of its own. The specification is \<open>loaded\<close>,
    where the bytes of a segment are afterwards; the disk is the hypothesis \<open>disk D\<close>, what an IDE disk with
    the contents \<open>D\<close> answers to the commands the code sends: it delivers the sector asked for only when its
    status was read as ready before the command and again, last of all, after it, and it is ready after some time.
  \<^item> \<open>SecondStage\<close> (\<open>stage2.asm\<close>): what comes before and after the loader, the opening of address line 20 and the
    jump to the kernel. The output port of the keyboard controller is a function of the bytes it has taken
    (\<open>output_port\<close>), and it takes a byte only when its status was read as free after the one before (\<open>taken\<close>).
  \<^item> \<open>Gdt\<close> (\<open>bits_16/gdt.asm\<close>, \<open>switch_to_pm.asm\<close>): the segment descriptors, and why an offset is the linear
    address in all the other theories.
  \<^item> \<open>Boot\<close> (\<open>main\<close> of \<open>main.c\<close>): all the installations in order; \<open>ready\<close> is the state of memory they leave.
  \<^item> \<open>UserPages\<close>, \<open>MainProcesses\<close>, \<open>UserPrograms\<close> (\<open>lol\<close>, \<open>lol2\<close>, \<open>lol3\<close> of \<open>main.c\<close>): the first process, the two
    it makes, their address spaces and their programs. \<open>process_variable\<close> is the interface of the two
    global variables of type \<open>process\<close>, on which the same code runs.
  \<^item> \<open>Stubs\<close> (\<open>interrupts/idt.asm\<close>): the registers of the processor, the delivery of an interrupt through its
    gate, and the stubs as lists of instructions, which save the registers as the structure the C
    handlers read and restore what these leave in it. \<open>interrupt\<close> is the whole way from the gate to \<open>iret\<close>. What the compiled C
    functions use of the stack, the return address included, is a parameter (\<open>c_effects\<close>): how much, and what they
    leave there.
  \<^item> \<open>TimeSharing\<close>: timer, scheduler and process table together implement \<open>round_robin\<close>, a queue with a time
    slice for each process; from it, the ticks that every process gets.
  \<^item> \<open>ProcessorSharing\<close>: the same on the registers of the processor, through the stubs: \<open>cpu_ticks\<close> runs timer
    interrupts from the gate to \<open>iret\<close>, with arbitrary programs in between, and every process goes on with
    the registers it was interrupted with.
  \<^item> \<open>Routines\<close> (\<open>cr_util.asm\<close>, \<open>flush_tss.asm\<close>, \<open>registers.asm\<close>, \<open>vendor_info.asm\<close>, \<open>idt_load\<close>): the assembly routines
    that C calls, as instructions run by a call with arguments on the stack, and that they do what the
    operations on \<open>cr0\<close>, \<open>cr3\<close>, the task register and the table register have them do.
  \<^item> \<open>AddressSpaces\<close>: several processes on one memory, each through its directory. \<open>private_pages\<close> is the
    interface of two directories with no frame in common above the kernel, interpreted on those that
    \<open>lol\<close> makes.

  The state is a record that grows with the components: \<open>machine\<close> (memory, hardware, port trace),
  \<open>screen\<close> (cursor), \<open>kheap\<close>, \<open>ints\<close>, \<open>paging\<close>, \<open>procs\<close>, \<open>sched\<close>, \<open>keyboard\<close>, \<open>tss\<close>, and then \<open>usb\<close> or \<open>boot\<close>; the
  second boot stage has a record of its own, \<open>stage2\<close>. An operation is polymorphic in the fields of the
  components above it. C globals are fields, pointers are 32-bit addresses, and data that the code
  accesses through pointers of several types (heap headers, page tables, gates, the task state segment,
  ELF headers, video memory) is bytes in \<open>mem\<close>. Machine integers keep their width and wrap. Addresses
  that the linker or the boot code chooses (functions, \<open>tss_entry\<close>, the descriptor table) are parameters.

  Loops that end are total functions with a measure; loops that may not end (the searches over block
  headers, \<open>putb\<close>, the scheduler's loop, the waits for a device) are \<open>partial_function (option)\<close>, and \<open>None\<close>
  is that they do not return; the theorems prove that they do, or exactly when they do not. \<open>None\<close> is also
  the result where C gives no meaning, such as an access outside an array. \<open>Halt s\<close> of the type \<open>outcome\<close> is a deliberate \<open>for(;;)\<close> in state \<open>s\<close>.
  No operation uses fuel; the loops of \<open>lol2\<close> and \<open>lol3\<close>, which never end, are given by their state after
  each number of rounds.

  Hypotheses of the theorems are invariants (\<open>heap_ok\<close>, \<open>sched_ok\<close>, \<open>structures_ok\<close>, \<open>kernel_ok\<close>), bounds that
  keep addresses below 4 GB or structures below \<open>KERNEL_MEM_END\<close> (\<open>kroom\<close>, \<open>boot_room\<close>), and what devices do
  (\<open>controller_ok\<close>, \<open>controller_answers\<close>, \<open>gives_output_port\<close>, \<open>no_key_waits\<close>, \<open>types\<close>, \<open>disk\<close>, \<open>answers\<close>). What \<open>paging.c\<close>
  leaves uncleared in the last table of a directory is unspecified; \<open>tail_clear\<close> says that the memory held zeros there.

  Not modelled: the boot sector, which calls the BIOS, and the call of \<open>main\<close> in \<open>kernel_entry.asm\<close>;
  \<open>cpuid\<close>, whose result is a parameter; the linker scripts and the build; \<open>memAPI.c\<close>, which has no code;
  the section headers of \<open>elf.h\<close> and the transfer descriptors of \<open>uhci.h\<close>, which no code uses. In \<open>Stubs\<close>
  and \<open>ProcessorSharing\<close> an interrupt is taken between any two instructions of a program in kernel mode; it
  is not taken inside an operation of the C model, and not in user mode, which the kernel never enters.
  In \<open>Terminal\<close> and \<open>Session\<close> interrupts are the calls of \<open>irq_handler\<close>, between two characters that are printed
  and never within \<open>putc\<close>. The programs \<open>lol2\<close> and \<open>lol3\<close> run on the
  memory that their directory shows.
\<close>

end
